(* ===== verification/Ldk_Prelude.thy ===== *)
theory Ldk_Prelude
  imports Main "HOL-Library.Word" "HOL-Library.AList" "HOL-Library.Multiset"
begin

text \<open>
  Shared vocabulary of the development: machine integers and identifiers, Rust's
  \<^verbatim>\<open>HashMap\<close> and \<^verbatim>\<open>HashSet\<close> as association lists and duplicate-free lists, results
  (\<open>error + 'a\<close>), decimal printing and parsing of integers, UTF-8 strings as byte lists, and the
  generic lemmas the components share.  The interface of a hash map is the locale \<open>keyed_store\<close>,
  interpreted below on the association lists the model uses.
\<close>

unbundle bit_operations_syntax

section \<open>Machine integers and identifiers\<close>

text \<open>
  \<open>u64\<close> and \<open>i64\<close> are the same 64 bits; an \<open>i64\<close> is read with \<open>sint\<close>.  A \<open>Uuid\<close> is its 128 bits.
  Instants (\<^verbatim>\<open>OffsetDateTime\<close>, \<^verbatim>\<open>Instant\<close>) are nanoseconds on one time line.
\<close>

type_synonym u32 = "32 word"
type_synonym u64 = "64 word"
type_synonym i64 = "64 word"
type_synonym uuid = "128 word"
type_synonym instant = int

named_theorems ldk_conv \<open>integer conversions between the widths of the wire, the schema and the bot\<close>
named_theorems ldk_store \<open>lookup and invariant laws of the stores\<close>

definition u64_try_from :: "i64 \<Rightarrow> u64 option" where
  "u64_try_from x = (if sint x < 0 then None else Some x)"

definition i64_try_from :: "u64 \<Rightarrow> i64 option" where
  "i64_try_from x = (if sint x < 0 then None else Some x)"

text \<open>\<^verbatim>\<open>i64::try_from(x).unwrap_or_default()\<close>.\<close>

definition i64_or_default :: "u64 \<Rightarrow> i64" where
  "i64_or_default x = (case i64_try_from x of None \<Rightarrow> 0 | Some y \<Rightarrow> y)"

lemma u64_try_from_Some [ldk_conv]: "u64_try_from x = Some y \<longleftrightarrow> \<not> sint x < 0 \<and> y = x"
  by (auto simp: u64_try_from_def)

lemma i64_try_from_Some [ldk_conv]: "i64_try_from x = Some y \<longleftrightarrow> \<not> sint x < 0 \<and> y = x"
  by (auto simp: i64_try_from_def)

lemma i64_or_default_nonneg: "\<not> sint (i64_or_default x) < 0"
  by (simp add: i64_or_default_def i64_try_from_def)

section \<open>Results\<close>

text \<open>Rust's \<open>?\<close>: stop at the first error.\<close>

definition res_bind :: "'e + 'a \<Rightarrow> ('a \<Rightarrow> 'e + 'b) \<Rightarrow> 'e + 'b" where
  "res_bind r f = (case r of Inl e \<Rightarrow> Inl e | Inr a \<Rightarrow> f a)"

lemma res_bind_simps [simp]: "res_bind (Inl e) f = Inl e" "res_bind (Inr a) f = f a"
  by (simp_all add: res_bind_def)

lemma res_bind_Inr_iff: "res_bind r f = Inr b \<longleftrightarrow> (\<exists>a. r = Inr a \<and> f a = Inr b)"
  by (cases r) auto

lemma res_bind_Inl_iff: "res_bind r f = Inl e \<longleftrightarrow> r = Inl e \<or> (\<exists>a. r = Inr a \<and> f a = Inl e)"
  by (cases r) auto

section \<open>Hash maps\<close>

text \<open>
  \<open>('k, 'v) hmap\<close> is a hash map together with one iteration order, which stands for the
  unspecified order of Rust's \<^verbatim>\<open>HashMap\<close>; nothing but iteration may depend on it.
\<close>

type_synonym ('k, 'v) hmap = "('k \<times> 'v) list"

definition hm_get :: "('k, 'v) hmap \<Rightarrow> 'k \<Rightarrow> 'v option" where
  "hm_get m k = map_of m k"

definition hm_insert :: "'k \<Rightarrow> 'v \<Rightarrow> ('k, 'v) hmap \<Rightarrow> ('k, 'v) hmap" where
  "hm_insert k v m = AList.update k v m"

definition hm_remove :: "'k \<Rightarrow> ('k, 'v) hmap \<Rightarrow> ('k, 'v) hmap" where
  "hm_remove k m = AList.delete k m"

definition hm_retain :: "('k \<Rightarrow> 'v \<Rightarrow> bool) \<Rightarrow> ('k, 'v) hmap \<Rightarrow> ('k, 'v) hmap" where
  "hm_retain p m = filter (\<lambda>(k, v). p k v) m"

definition hm_keys :: "('k, 'v) hmap \<Rightarrow> 'k list" where
  "hm_keys m = map fst m"

definition hm_values :: "('k, 'v) hmap \<Rightarrow> 'v list" where
  "hm_values m = map snd m"

definition hm_map_values :: "('v \<Rightarrow> 'v) \<Rightarrow> ('k, 'v) hmap \<Rightarrow> ('k, 'v) hmap" where
  "hm_map_values f m = map (\<lambda>(k, v). (k, f v)) m"

text \<open>\<^verbatim>\<open>if let Some(v) = map.get_mut(&k) { \<dots> }\<close>: nothing happens when the key is absent.\<close>

definition hm_alter :: "'k \<Rightarrow> ('v \<Rightarrow> 'v) \<Rightarrow> ('k, 'v) hmap \<Rightarrow> ('k, 'v) hmap" where
  "hm_alter k f m = (case hm_get m k of None \<Rightarrow> m | Some v \<Rightarrow> hm_insert k (f v) m)"

definition hm_ok :: "('k, 'v) hmap \<Rightarrow> bool" where
  "hm_ok m \<longleftrightarrow> distinct (map fst m)"

text \<open>The interface of a map, and what follows from it alone.\<close>

locale keyed_store =
  fixes empty :: "'m"
    and get :: "'m \<Rightarrow> 'k \<Rightarrow> 'v option"
    and put :: "'k \<Rightarrow> 'v \<Rightarrow> 'm \<Rightarrow> 'm"
    and del :: "'k \<Rightarrow> 'm \<Rightarrow> 'm"
    and ok :: "'m \<Rightarrow> bool"
  assumes get_empty: "get empty k = None"
    and get_put: "get (put k v m) k' = (if k' = k then Some v else get m k')"
    and get_del: "get (del k m) k' = (if k' = k then None else get m k')"
    and ok_empty: "ok empty"
    and ok_put: "ok m \<Longrightarrow> ok (put k v m)"
    and ok_del: "ok m \<Longrightarrow> ok (del k m)"
begin

lemma put_read_back: "get (put k v m) k = Some v"
  by (simp add: get_put)

lemma del_forgets: "get (del k m) k = None"
  by (simp add: get_del)

lemma put_put_same: "get (put k v (put k w m)) k' = get (put k v m) k'"
  by (simp add: get_put)

lemma put_commute: "k \<noteq> l \<Longrightarrow> get (put k v (put l w m)) k' = get (put l w (put k v m)) k'"
  by (simp add: get_put)

lemma del_frame: "k' \<noteq> k \<Longrightarrow> get (del k m) k' = get m k'"
  by (simp add: get_del)

end

interpretation hm: keyed_store "[] :: ('k \<times> 'v) list" hm_get hm_insert hm_remove hm_ok
  by unfold_locales
    (auto simp: hm_get_def hm_insert_def hm_remove_def hm_ok_def update_conv' delete_conv'
      distinct_update distinct_delete)

declare hm.get_empty [simp] hm.get_put [simp] hm.get_del [simp] hm.ok_empty [simp]
  hm.ok_put [simp] hm.ok_del [simp]

lemma hm_get_retain_aux:
  "distinct (map fst m) \<Longrightarrow> map_of (filter (\<lambda>(k, v). p k v) m) k =
     (case map_of m k of None \<Rightarrow> None | Some v \<Rightarrow> if p k v then Some v else None)"
proof (induction m)
  case Nil
  then show ?case by simp
next
  case (Cons a m)
  obtain k' v' where a: "a = (k', v')" by (cases a)
  have "k' \<notin> fst ` set m" using Cons.prems a by auto
  then have "map_of m k' = None" by (simp add: map_of_eq_None_iff)
  moreover have "map_of (filter (\<lambda>(k, v). p k v) m) k =
     (case map_of m k of None \<Rightarrow> None | Some v \<Rightarrow> if p k v then Some v else None)"
    using Cons by simp
  ultimately show ?case using a by (auto split: option.splits)
qed

lemma hm_get_retain [simp]:
  "hm_ok m \<Longrightarrow> hm_get (hm_retain p m) k =
     (case hm_get m k of None \<Rightarrow> None | Some v \<Rightarrow> if p k v then Some v else None)"
  by (simp add: hm_get_def hm_retain_def hm_ok_def hm_get_retain_aux)

lemma hm_ok_retain [simp]: "hm_ok m \<Longrightarrow> hm_ok (hm_retain p m)"
  by (simp add: hm_ok_def hm_retain_def distinct_map_filter)

lemma hm_get_map_values [simp]: "hm_get (hm_map_values f m) k = map_option f (hm_get m k)"
  by (induction m) (auto simp: hm_get_def hm_map_values_def)

lemma hm_ok_map_values [simp]: "hm_ok (hm_map_values f m) = hm_ok m"
proof -
  have "map fst (hm_map_values f m) = map fst m"
    by (induction m) (auto simp: hm_map_values_def)
  then show ?thesis by (simp add: hm_ok_def)
qed

lemma hm_get_alter [simp]:
  "hm_get (hm_alter k f m) k' = (if k' = k then map_option f (hm_get m k) else hm_get m k')"
  by (auto simp: hm_alter_def split: option.splits)

lemma hm_ok_alter [simp]: "hm_ok m \<Longrightarrow> hm_ok (hm_alter k f m)"
  by (auto simp: hm_alter_def split: option.splits)

lemma hm_keys_iff: "k \<in> set (hm_keys m) \<longleftrightarrow> hm_get m k \<noteq> None"
  by (auto simp: hm_keys_def hm_get_def map_of_eq_None_iff)

lemma hm_get_in_values: "hm_get m k = Some v \<Longrightarrow> v \<in> set (hm_values m)"
  by (force simp: hm_get_def hm_values_def dest: map_of_SomeD)

lemma hm_in_values_iff: "hm_ok m \<Longrightarrow> v \<in> set (hm_values m) \<longleftrightarrow> (\<exists>k. hm_get m k = Some v)"
  by (force simp: hm_get_def hm_values_def hm_ok_def dest: map_of_SomeD)

lemma hm_in_items_iff: "hm_ok m \<Longrightarrow> (k, v) \<in> set m \<longleftrightarrow> hm_get m k = Some v"
  by (simp add: hm_get_def hm_ok_def)

lemma hm_get_fold_insert:
  "hm_get (fold (\<lambda>k. hm_insert k v) ks m) k = (if k \<in> set ks then Some v else hm_get m k)"
  by (induction ks arbitrary: m) auto

lemma hm_ok_fold_insert: "hm_ok m \<Longrightarrow> hm_ok (fold (\<lambda>k. hm_insert k v) ks m)"
  by (induction ks arbitrary: m) auto

section \<open>Hash sets\<close>

type_synonym 'a hset = "'a list"

definition hs_insert :: "'a \<Rightarrow> 'a hset \<Rightarrow> 'a hset" where
  "hs_insert x s = (if x \<in> set s then s else x # s)"

definition hs_remove :: "'a \<Rightarrow> 'a hset \<Rightarrow> 'a hset" where
  "hs_remove x s = filter (\<lambda>y. y \<noteq> x) s"

lemma set_hs_insert [simp]: "set (hs_insert x s) = insert x (set s)"
  by (auto simp: hs_insert_def)

lemma set_hs_remove [simp]: "set (hs_remove x s) = set s - {x}"
  by (auto simp: hs_remove_def)

lemma distinct_hs_insert [simp]: "distinct s \<Longrightarrow> distinct (hs_insert x s)"
  by (simp add: hs_insert_def)

lemma distinct_hs_remove [simp]: "distinct s \<Longrightarrow> distinct (hs_remove x s)"
  by (simp add: hs_remove_def)

lemma length_hs_insert: "length (hs_insert x s) = (if x \<in> set s then length s else Suc (length s))"
  by (simp add: hs_insert_def)

lemma length_hs_remove_le: "length (hs_remove x s) \<le> length s"
  by (simp add: hs_remove_def)

section \<open>Searching lists\<close>

lemma find_Some_in: "find p xs = Some x \<Longrightarrow> x \<in> set xs \<and> p x"
  by (auto simp: find_Some_iff)

lemma find_append: "find p (xs @ ys) = (case find p xs of None \<Rightarrow> find p ys | Some x \<Rightarrow> Some x)"
  by (induction xs) auto

text \<open>When at most one element satisfies \<open>p\<close>, the order of the list does not matter to \<open>find\<close>.\<close>

lemma find_unique_iff:
  assumes "\<And>x y. x \<in> set xs \<Longrightarrow> y \<in> set xs \<Longrightarrow> p x \<Longrightarrow> p y \<Longrightarrow> x = y"
  shows "find p xs = Some x \<longleftrightarrow> x \<in> set xs \<and> p x"
proof (cases "find p xs")
  case None
  then show ?thesis by (metis find_None_iff option.distinct(1))
next
  case (Some y)
  with find_Some_in [OF Some] assms show ?thesis by auto
qed

lemma find_set_cong:
  assumes "set xs = set ys"
    and "\<And>x y. x \<in> set xs \<Longrightarrow> y \<in> set xs \<Longrightarrow> p x \<Longrightarrow> p y \<Longrightarrow> x = y"
  shows "find p xs = find p ys"
proof (rule option.expand)
  show "(find p xs = None) = (find p ys = None)"
    using assms(1) by (simp add: find_None_iff)
next
  assume "find p xs \<noteq> None" "find p ys \<noteq> None"
  then obtain x y where "find p xs = Some x" "find p ys = Some y" by auto
  with find_Some_in [of p xs x] find_Some_in [of p ys y] assms
  show "the (find p xs) = the (find p ys)" by auto
qed

lemma distinct_set_single:
  assumes "distinct ys" and "set ys = {x}"
  shows "ys = [x]"
proof -
  have "length ys = 1" using distinct_card [OF assms(1)] assms(2) by simp
  then obtain y where "ys = [y]" by (auto simp: length_Suc_conv)
  with assms(2) show ?thesis by simp
qed

lemma filter_single:
  assumes "distinct xs" and "x \<in> set xs" and "P x" and "\<And>y. y \<in> set xs \<Longrightarrow> P y \<Longrightarrow> y = x"
  shows "filter P xs = [x]"
proof (rule distinct_set_single)
  show "set (filter P xs) = {x}"
    unfolding set_filter using assms(2,3,4) by blast
qed (simp add: assms(1))

end
