(* ===== verification/Discord_Perms.thy ===== *)
theory Discord_Perms
  imports Ldk_Prelude
begin

text \<open>
  \<^verbatim>\<open>crates/domain/src/discord.rs\<close>: Discord's channel permission algorithm \<open>resolve\<close>, run against the
  replica the bot maintains, and the three questions the product asks of its answer.  The
  abstract specification \<open>decides\<close> says, bit by bit, which of the layers has the last word;
  \<open>resolve\<close> refines it.
\<close>

section \<open>Model\<close>

definition ADMINISTRATOR :: u64 where "ADMINISTRATOR = push_bit 3 1"
definition STREAM :: u64 where "STREAM = push_bit 9 1"
definition VIEW_CHANNEL :: u64 where "VIEW_CHANNEL = push_bit 10 1"
definition CONNECT :: u64 where "CONNECT = push_bit 20 1"

text \<open>\<^verbatim>\<open>u64::MAX\<close>.\<close>
definition U64_MAX :: u64 where "U64_MAX = NOT 0"

type_synonym discord_permissions = u64

definition contains_bit :: "discord_permissions \<Rightarrow> u64 \<Rightarrow> bool" where
  "contains_bit p b \<longleftrightarrow> p AND b = b"

definition can_view :: "discord_permissions \<Rightarrow> bool" where
  "can_view p \<longleftrightarrow> contains_bit p VIEW_CHANNEL"

definition can_join_room :: "discord_permissions \<Rightarrow> bool" where
  "can_join_room p \<longleftrightarrow> can_view p \<and> contains_bit p CONNECT"

definition can_publish :: "discord_permissions \<Rightarrow> bool" where
  "can_publish p \<longleftrightarrow> can_join_room p \<and> contains_bit p STREAM"

record role_ref =
  role_id :: u64
  role_permissions :: u64

record guild_ref =
  gref_id :: u64
  gref_owner_id :: u64
  gref_roles :: "role_ref list"

record member_ref =
  mref_user_id :: u64
  mref_role_ids :: "u64 list"

datatype overwrite_kind = RoleOw | MemberOw

record overwrite =
  ow_target_id :: u64
  ow_kind :: overwrite_kind
  ow_allow :: u64
  ow_deny :: u64

record channel_ref =
  cref_id :: u64
  cref_overwrites :: "overwrite list"

text \<open>Step 2 and 3: \<open>@everyone\<close> (the role whose id is the guild's), then the member's roles.\<close>

definition find_role :: "role_ref list \<Rightarrow> u64 \<Rightarrow> role_ref option" where
  "find_role rs i = find (\<lambda>r. role_id r = i) rs"

definition everyone_base :: "guild_ref \<Rightarrow> u64" where
  "everyone_base g = (case find_role (gref_roles g) (gref_id g) of None \<Rightarrow> 0 | Some r \<Rightarrow> role_permissions r)"

definition add_role :: "guild_ref \<Rightarrow> u64 \<Rightarrow> u64 \<Rightarrow> u64" where
  "add_role g i base =
     (case find_role (gref_roles g) i of None \<Rightarrow> base | Some r \<Rightarrow> base OR role_permissions r)"

definition role_base :: "guild_ref \<Rightarrow> member_ref \<Rightarrow> u64" where
  "role_base g m = fold (add_role g) (mref_role_ids m) (everyone_base g)"

definition apply_ow :: "overwrite \<Rightarrow> u64 \<Rightarrow> u64" where
  "apply_ow ow base = (base AND NOT (ow_deny ow)) OR ow_allow ow"

definition everyone_ow :: "guild_ref \<Rightarrow> channel_ref \<Rightarrow> overwrite option" where
  "everyone_ow g c =
     find (\<lambda>w. ow_kind w = RoleOw \<and> ow_target_id w = gref_id g) (cref_overwrites c)"

definition role_ows :: "guild_ref \<Rightarrow> member_ref \<Rightarrow> channel_ref \<Rightarrow> overwrite list" where
  "role_ows g m c =
     filter (\<lambda>w. ow_kind w = RoleOw \<and> ow_target_id w \<noteq> gref_id g
                \<and> ow_target_id w \<in> set (mref_role_ids m)) (cref_overwrites c)"

definition member_ow :: "member_ref \<Rightarrow> channel_ref \<Rightarrow> overwrite option" where
  "member_ow m c =
     find (\<lambda>w. ow_kind w = MemberOw \<and> ow_target_id w = mref_user_id m) (cref_overwrites c)"

definition or_all :: "u64 list \<Rightarrow> u64" where
  "or_all ws = fold (\<lambda>w acc. acc OR w) ws 0"

definition resolve :: "guild_ref \<Rightarrow> member_ref \<Rightarrow> channel_ref \<Rightarrow> discord_permissions" where
  "resolve g m c =
    (if mref_user_id m = gref_owner_id g then U64_MAX
     else let base = role_base g m in
       if base AND ADMINISTRATOR = ADMINISTRATOR then U64_MAX
       else
         let base = (case everyone_ow g c of None \<Rightarrow> base | Some ow \<Rightarrow> apply_ow ow base);
             role_allow = or_all (map ow_allow (role_ows g m c));
             role_deny = or_all (map ow_deny (role_ows g m c));
             base = (base AND NOT role_deny) OR role_allow
         in (case member_ow m c of None \<Rightarrow> base | Some ow \<Rightarrow> apply_ow ow base))"

section \<open>Bits\<close>

lemma contains_push_bit: "n < 64 \<Longrightarrow> contains_bit p (push_bit n 1) \<longleftrightarrow> bit p n"
proof -
  assume n: "n < 64"
  have "(p AND push_bit n 1 = push_bit n 1) \<longleftrightarrow> (\<forall>k<64. bit (p AND push_bit n 1) k = bit (push_bit n (1::u64)) k)"
    by (simp only: bit_eq_iff) (auto dest: bit_imp_le_length)
  then show ?thesis using n
    by (auto simp: contains_bit_def bit_and_iff bit_exp_iff)
qed

lemma U64_MAX_bit [simp]: "n < 64 \<Longrightarrow> bit U64_MAX n"
  by (simp add: U64_MAX_def bit_not_iff)

lemma can_view_bit: "can_view p \<longleftrightarrow> bit p 10"
  using contains_push_bit [of 10 p] by (simp add: can_view_def VIEW_CHANNEL_def)

lemma can_join_room_bit: "can_join_room p \<longleftrightarrow> bit p 10 \<and> bit p 20"
  using contains_push_bit [of 20 p] by (simp add: can_join_room_def can_view_bit CONNECT_def)

lemma can_publish_bit: "can_publish p \<longleftrightarrow> bit p 10 \<and> bit p 20 \<and> bit p 9"
  using contains_push_bit [of 9 p] by (simp add: can_publish_def can_join_room_bit STREAM_def)

lemmas question_bits = can_view_bit can_join_room_bit can_publish_bit

lemma administrator_bit: "(w AND ADMINISTRATOR = ADMINISTRATOR) \<longleftrightarrow> bit w 3"
  using contains_push_bit [of 3 w] by (simp add: ADMINISTRATOR_def contains_bit_def)

lemma bit_or_fold: "bit (fold (\<lambda>w acc. acc OR w) ws a) n \<longleftrightarrow> bit a n \<or> (\<exists>w \<in> set ws. bit (w::u64) n)"
  by (induction ws arbitrary: a) (auto simp: bit_or_iff)

lemma bit_or_all: "bit (or_all ws) n \<longleftrightarrow> (\<exists>w \<in> set ws. bit w n)"
  by (simp add: or_all_def bit_or_fold)

lemma bit_apply_ow:
  "n < 64 \<Longrightarrow> bit (apply_ow ow b) n \<longleftrightarrow> bit (ow_allow ow) n \<or> (bit b n \<and> \<not> bit (ow_deny ow) n)"
  by (auto simp: apply_ow_def bit_or_iff bit_and_iff bit_not_iff)

lemma bit_fold_add_role:
  "bit (fold (add_role g) is b) n \<longleftrightarrow>
     bit b n \<or> (\<exists>i \<in> set is. \<exists>r. find_role (gref_roles g) i = Some r \<and> bit (role_permissions r) n)"
  by (induction "is" arbitrary: b) (auto simp: add_role_def bit_or_iff split: option.splits)

section \<open>The abstract algorithm: which layer decides a bit\<close>

text \<open>
  The base of a member holds bit \<open>n\<close> when \<open>@everyone\<close> or one of the member's roles grants it.
  Above the base, three overwrite layers: \<open>@everyone\<close>, the member's other roles taken together, and
  the member.  In each layer an allow beats a deny, and a later layer beats an earlier one.
\<close>

definition base_grants :: "guild_ref \<Rightarrow> member_ref \<Rightarrow> nat \<Rightarrow> bool" where
  "base_grants g m n \<longleftrightarrow>
     (\<exists>i \<in> set (gref_id g # mref_role_ids m).
        \<exists>r. find_role (gref_roles g) i = Some r \<and> bit (role_permissions r) n)"

definition layer_allows :: "overwrite list \<Rightarrow> nat \<Rightarrow> bool" where
  "layer_allows ows n \<longleftrightarrow> (\<exists>w \<in> set ows. bit (ow_allow w) n)"

definition layer_denies :: "overwrite list \<Rightarrow> nat \<Rightarrow> bool" where
  "layer_denies ows n \<longleftrightarrow> (\<exists>w \<in> set ows. bit (ow_deny w) n)"

fun decides :: "overwrite list list \<Rightarrow> bool \<Rightarrow> nat \<Rightarrow> bool" where
  "decides [] d n = d"
| "decides (l # ls) d n = decides ls (layer_allows l n \<or> (d \<and> \<not> layer_denies l n)) n"

definition opt_list :: "'a option \<Rightarrow> 'a list" where
  "opt_list x = (case x of None \<Rightarrow> [] | Some y \<Rightarrow> [y])"

definition layers :: "guild_ref \<Rightarrow> member_ref \<Rightarrow> channel_ref \<Rightarrow> overwrite list list" where
  "layers g m c = [opt_list (everyone_ow g c), role_ows g m c, opt_list (member_ow m c)]"

definition grants :: "guild_ref \<Rightarrow> member_ref \<Rightarrow> channel_ref \<Rightarrow> nat \<Rightarrow> bool" where
  "grants g m c n \<longleftrightarrow>
     mref_user_id m = gref_owner_id g \<or> base_grants g m 3 \<or> decides (layers g m c) (base_grants g m n) n"

lemma bit_role_base: "bit (role_base g m) n \<longleftrightarrow> base_grants g m n"
  by (auto simp: role_base_def bit_fold_add_role base_grants_def everyone_base_def split: option.splits)

lemma bit_apply_layer:
  "n < 64 \<Longrightarrow> bit ((b AND NOT (or_all (map ow_deny l))) OR or_all (map ow_allow l)) n \<longleftrightarrow>
     layer_allows l n \<or> (bit b n \<and> \<not> layer_denies l n)"
  by (auto simp: bit_or_iff bit_and_iff bit_not_iff bit_or_all layer_allows_def layer_denies_def)

lemma bit_apply_opt:
  "n < 64 \<Longrightarrow> bit (case x of None \<Rightarrow> b | Some ow \<Rightarrow> apply_ow ow b) n \<longleftrightarrow>
     layer_allows (opt_list x) n \<or> (bit b n \<and> \<not> layer_denies (opt_list x) n)"
  by (cases x) (simp_all add: opt_list_def layer_allows_def layer_denies_def bit_apply_ow)

lemma bit_resolve: "n < 64 \<Longrightarrow> bit (resolve g m c) n \<longleftrightarrow> grants g m c n"
  by (simp add: resolve_def Let_def grants_def layers_def administrator_bit bit_role_base
      bit_apply_opt bit_apply_layer)

text \<open>
  C5.  The word \<open>resolve\<close> computes is exactly the abstract layered decision: for each bit of the
  mask the owner and administrators have it, and otherwise the last layer (member, then the
  member's roles together, then @everyone, then the base) that speaks about the bit decides it,
  an allow winning over a deny within a layer.
\<close>
theorem resolve_refines_layers:
  "\<forall>g m c. {n. n < 64 \<and> bit (resolve g m c) n} = {n. n < 64 \<and> grants g m c n}"
  by (auto simp: bit_resolve)

section \<open>Consequences\<close>

lemma resolve_owner: "mref_user_id m = gref_owner_id g \<Longrightarrow> resolve g m c = U64_MAX"
  by (simp add: resolve_def)

lemma resolve_admin: "base_grants g m 3 \<Longrightarrow> resolve g m c = U64_MAX"
  by (simp add: resolve_def Let_def administrator_bit bit_role_base)

text \<open>An overwrite list as Discord sends it: at most one overwrite per target.\<close>

definition ows_ok :: "overwrite list \<Rightarrow> bool" where
  "ows_ok ows \<longleftrightarrow> distinct (map (\<lambda>w. (ow_kind w, ow_target_id w)) ows)"

lemma ows_ok_inj:
  "ows_ok ows \<Longrightarrow> x \<in> set ows \<Longrightarrow> y \<in> set ows \<Longrightarrow> ow_kind x = ow_kind y \<Longrightarrow>
     ow_target_id x = ow_target_id y \<Longrightarrow> x = y"
  by (auto simp: ows_ok_def distinct_map dest: inj_onD)

lemma layers_set_cong:
  assumes "ows_ok (cref_overwrites c)" and "set (cref_overwrites c) = set (cref_overwrites c')"
  shows "everyone_ow g c = everyone_ow g c'" and "member_ow m c = member_ow m c'"
    and "set (role_ows g m c) = set (role_ows g m c')"
proof -
  show "everyone_ow g c = everyone_ow g c'" "member_ow m c = member_ow m c'"
    unfolding everyone_ow_def member_ow_def using assms
    by (auto intro!: find_set_cong intro: ows_ok_inj)
  show "set (role_ows g m c) = set (role_ows g m c')"
    using assms(2) by (simp add: role_ows_def)
qed

text \<open>
  The order in which Discord lists a channel's overwrites never changes the answer: two
  channels with the same overwrites (at most one per target) in any order resolve alike.  This is
  why the role overwrites are accumulated before they are applied.
\<close>
theorem resolve_overwrite_order:
  assumes "ows_ok (cref_overwrites c)" and "set (cref_overwrites c) = set (cref_overwrites c')"
  shows "resolve g m c = resolve g m c'"
proof (rule bit_word_eqI)
  fix n assume "n < LENGTH(64)"
  then have n: "n < 64" by simp
  have "layer_allows (role_ows g m c) k = layer_allows (role_ows g m c') k"
    and "layer_denies (role_ows g m c) k = layer_denies (role_ows g m c') k" for k
    using layers_set_cong(3) [OF assms] by (simp_all add: layer_allows_def layer_denies_def)
  then have "grants g m c n = grants g m c' n"
    using layers_set_cong(1,2) [OF assms] by (simp add: grants_def layers_def)
  with n show "bit (resolve g m c) n = bit (resolve g m c') n"
    by (simp add: bit_resolve)
qed

theorem resolve_overwrite_order_witness:
  "let w1 = \<lparr>ow_target_id = 200, ow_kind = RoleOw, ow_allow = 0, ow_deny = CONNECT\<rparr>;
       w2 = \<lparr>ow_target_id = 201, ow_kind = RoleOw, ow_allow = CONNECT, ow_deny = 0\<rparr>;
       g = \<lparr>gref_id = 100, gref_owner_id = 1, gref_roles = []\<rparr>;
       m = \<lparr>mref_user_id = 2, mref_role_ids = [200, 201]\<rparr>
   in resolve g m \<lparr>cref_id = 300, cref_overwrites = [w1, w2]\<rparr> = resolve g m \<lparr>cref_id = 300, cref_overwrites = [w2, w1]\<rparr>"
  unfolding Let_def by (rule resolve_overwrite_order) (auto simp: ows_ok_def)

text \<open>
  A member's own overwrite has the last word: for anyone but the owner and administrators, a bit
  it allows is granted and a bit it only denies is refused, whatever the roles say.
\<close>
theorem member_overwrite_wins:
  assumes "member_ow m c = Some w" and "mref_user_id m \<noteq> gref_owner_id g"
    and "\<not> base_grants g m 3" and "n < 64"
  shows "(bit (ow_allow w) n \<longrightarrow> bit (resolve g m c) n) \<and>
         (bit (ow_deny w) n \<and> \<not> bit (ow_allow w) n \<longrightarrow> \<not> bit (resolve g m c) n)"
  using assms by (simp add: bit_resolve grants_def layers_def opt_list_def layer_allows_def layer_denies_def)

theorem member_overwrite_wins_witness:
  "\<exists>g m c. can_join_room (role_base g m) \<and> \<not> bit (resolve g m c) 20"
proof -
  let ?g = "\<lparr>gref_id = 100, gref_owner_id = 1, gref_roles = [\<lparr>role_id = 100, role_permissions = VIEW_CHANNEL OR CONNECT\<rparr>]\<rparr>"
  let ?m = "\<lparr>mref_user_id = 2, mref_role_ids = []\<rparr>"
  let ?w = "\<lparr>ow_target_id = 2, ow_kind = MemberOw, ow_allow = 0, ow_deny = CONNECT\<rparr>"
  let ?c = "\<lparr>cref_id = 300, cref_overwrites = [?w]\<rparr>"
  have b: "bit (CONNECT :: u64) 20" "\<not> bit (VIEW_CHANNEL OR CONNECT :: u64) 3"
    "bit (VIEW_CHANNEL OR CONNECT :: u64) 10" "bit (VIEW_CHANNEL OR CONNECT :: u64) 20"
    by (simp_all add: CONNECT_def VIEW_CHANNEL_def bit_or_iff)
  have "\<not> base_grants ?g ?m 3"
    using b by (simp add: base_grants_def find_role_def)
  moreover have "member_ow ?m ?c = Some ?w" by (simp add: member_ow_def)
  ultimately have "\<not> bit (resolve ?g ?m ?c) 20"
    using member_overwrite_wins [of ?m ?c ?w ?g 20] b by simp
  moreover have "can_join_room (role_base ?g ?m)"
    using b by (simp add: can_join_room_bit role_base_def everyone_base_def find_role_def)
  ultimately show ?thesis by blast
qed

end
