(* ===== verification/Replica.thy ===== *)
theory Replica
  imports Discord_Perms
begin

text \<open>
  \<^verbatim>\<open>crates/api/src/discord/replica.rs\<close>: the in-memory mirror of the Discord state authorization
  depends on.  Each method that takes the write lock is one function of the state; the clock is an
  argument of the two that read it.  The invariant \<open>replica_ok\<close> says that the channel index never
  points at a channel its guild does not have; with it, \<open>permissions\<close> is the abstract lookup
  \<open>guild_channel\<close> followed by \<open>resolve\<close>.
\<close>

section \<open>State\<close>

record channel_data =
  cd_id :: u64
  cd_name :: string
  cd_overwrites :: "overwrite list"

record guild_data =
  gd_id :: u64
  gd_owner_id :: u64
  gd_roles :: "role_ref list"
  gd_members :: "(u64, u64 list) hmap"
  gd_channels :: "(u64, channel_data) hmap"
  gd_voice :: "(u64, u64) hmap"

datatype staleness = Fresh | Stale

text \<open>\<^verbatim>\<open>State\<close> and the \<^verbatim>\<open>grace\<close> of \<^verbatim>\<open>Replica\<close>.\<close>

record replica =
  rp_guilds :: "(u64, guild_data) hmap"
  rp_channel_index :: "(u64, u64) hmap"
  rp_connected :: bool
  rp_disconnected_since :: "instant option"
  rp_grace :: int

definition replica_new :: "int \<Rightarrow> replica" where
  "replica_new grace = \<lparr>rp_guilds = [], rp_channel_index = [], rp_connected = False,
     rp_disconnected_since = None, rp_grace = grace\<rparr>"

section \<open>Writes\<close>

definition replace_guild :: "guild_data \<Rightarrow> replica \<Rightarrow> replica" where
  "replace_guild g s =
     s\<lparr>rp_channel_index :=
          fold (\<lambda>i. hm_insert i (gd_id g)) (hm_keys (gd_channels g))
            (hm_retain (\<lambda>_ h. h \<noteq> gd_id g) (rp_channel_index s)),
       rp_guilds := hm_insert (gd_id g) g (rp_guilds s)\<rparr>"

definition remove_guild :: "u64 \<Rightarrow> replica \<Rightarrow> replica" where
  "remove_guild gid s =
     s\<lparr>rp_channel_index := hm_retain (\<lambda>_ h. h \<noteq> gid) (rp_channel_index s),
       rp_guilds := hm_remove gid (rp_guilds s)\<rparr>"

definition alter_guild :: "u64 \<Rightarrow> (guild_data \<Rightarrow> guild_data) \<Rightarrow> replica \<Rightarrow> replica" where
  "alter_guild gid f s = s\<lparr>rp_guilds := hm_alter gid f (rp_guilds s)\<rparr>"

definition upsert_member :: "u64 \<Rightarrow> u64 \<Rightarrow> u64 list \<Rightarrow> replica \<Rightarrow> replica" where
  "upsert_member gid u roles =
     alter_guild gid (\<lambda>g. g\<lparr>gd_members := hm_insert u roles (gd_members g)\<rparr>)"

definition remove_member :: "u64 \<Rightarrow> u64 \<Rightarrow> replica \<Rightarrow> replica" where
  "remove_member gid u = alter_guild gid (\<lambda>g. g\<lparr>gd_members := hm_remove u (gd_members g)\<rparr>)"

text \<open>The first role with the same id is overwritten in place; a new one goes to the end.\<close>

fun put_role :: "role_ref \<Rightarrow> role_ref list \<Rightarrow> role_ref list" where
  "put_role r [] = [r]"
| "put_role r (x # xs) = (if role_id x = role_id r then r # xs else x # put_role r xs)"

definition upsert_role :: "u64 \<Rightarrow> role_ref \<Rightarrow> replica \<Rightarrow> replica" where
  "upsert_role gid r = alter_guild gid (\<lambda>g. g\<lparr>gd_roles := put_role r (gd_roles g)\<rparr>)"

definition remove_role :: "u64 \<Rightarrow> u64 \<Rightarrow> replica \<Rightarrow> replica" where
  "remove_role gid rid =
     alter_guild gid (\<lambda>g. g\<lparr>gd_roles := filter (\<lambda>r. role_id r \<noteq> rid) (gd_roles g),
       gd_members := hm_map_values (filter (\<lambda>r. r \<noteq> rid)) (gd_members g)\<rparr>)"

definition upsert_channel :: "u64 \<Rightarrow> channel_data \<Rightarrow> replica \<Rightarrow> replica" where
  "upsert_channel gid c s =
     (if hm_get (rp_guilds s) gid = None then s
      else alter_guild gid (\<lambda>g. g\<lparr>gd_channels := hm_insert (cd_id c) c (gd_channels g)\<rparr>)
             (s\<lparr>rp_channel_index := hm_insert (cd_id c) gid (rp_channel_index s)\<rparr>))"

definition remove_channel :: "u64 \<Rightarrow> u64 \<Rightarrow> replica \<Rightarrow> replica" where
  "remove_channel gid cid s =
     alter_guild gid (\<lambda>g. g\<lparr>gd_channels := hm_remove cid (gd_channels g)\<rparr>)
       (s\<lparr>rp_channel_index := hm_remove cid (rp_channel_index s)\<rparr>)"

definition set_connected :: "instant \<Rightarrow> bool \<Rightarrow> replica \<Rightarrow> replica" where
  "set_connected now c s =
     s\<lparr>rp_connected := c, rp_disconnected_since := (if c then None else Some now)\<rparr>"

definition set_voice :: "u64 \<Rightarrow> u64 \<Rightarrow> u64 option \<Rightarrow> replica \<Rightarrow> replica" where
  "set_voice gid u ch =
     alter_guild gid (\<lambda>g. g\<lparr>gd_voice :=
       (case ch of Some c \<Rightarrow> hm_insert u c (gd_voice g) | None \<Rightarrow> hm_remove u (gd_voice g))\<rparr>)"

section \<open>Reads\<close>

text \<open>\<^verbatim>\<open>Instant::elapsed\<close> saturates at zero.\<close>

definition staleness :: "instant \<Rightarrow> replica \<Rightarrow> staleness" where
  "staleness now s =
    (if rp_connected s then Fresh
     else case rp_disconnected_since s of
            Some since \<Rightarrow> (if max 0 (now - since) \<le> rp_grace s then Fresh else Stale)
          | None \<Rightarrow> Stale)"

definition permissions :: "replica \<Rightarrow> u64 \<Rightarrow> u64 \<Rightarrow> discord_permissions option" where
  "permissions s u c =
     Option.bind (hm_get (rp_channel_index s) c) (\<lambda>gid.
     Option.bind (hm_get (rp_guilds s) gid) (\<lambda>g.
     Option.bind (hm_get (gd_channels g) c) (\<lambda>ch.
     Option.bind (hm_get (gd_members g) u) (\<lambda>role_ids.
       Some (resolve \<lparr>gref_id = gd_id g, gref_owner_id = gd_owner_id g, gref_roles = gd_roles g\<rparr>
         \<lparr>mref_user_id = u, mref_role_ids = role_ids\<rparr>
         \<lparr>cref_id = cd_id ch, cref_overwrites = cd_overwrites ch\<rparr>)))))"

definition voice_channel_of :: "replica \<Rightarrow> u64 \<Rightarrow> u64 option" where
  "voice_channel_of s u =
     (case List.map_filter (\<lambda>g. hm_get (gd_voice g) u) (hm_values (rp_guilds s)) of
        [] \<Rightarrow> None | c # _ \<Rightarrow> Some c)"

definition channel_info :: "replica \<Rightarrow> u64 \<Rightarrow> (u64 \<times> string) option" where
  "channel_info s c =
     Option.bind (hm_get (rp_channel_index s) c) (\<lambda>gid.
     Option.bind (hm_get (rp_guilds s) gid) (\<lambda>g.
     Option.bind (hm_get (gd_channels g) c) (\<lambda>ch. Some (gid, cd_name ch))))"

definition guild_count :: "replica \<Rightarrow> nat" where
  "guild_count s = length (rp_guilds s)"

text \<open>\<^verbatim>\<open>permissions(\<dots>).is_some_and(|p| p.can_join_room())\<close>, as the bot and \<^verbatim>\<open>READY\<close> ask it.\<close>

definition may_join :: "replica \<Rightarrow> u64 \<Rightarrow> u64 \<Rightarrow> bool" where
  "may_join s u c = (case permissions s u c of None \<Rightarrow> False | Some p \<Rightarrow> can_join_room p)"

section \<open>Invariant\<close>

definition guild_data_ok :: "guild_data \<Rightarrow> bool" where
  "guild_data_ok g \<longleftrightarrow> hm_ok (gd_members g) \<and> hm_ok (gd_channels g) \<and> hm_ok (gd_voice g)"

definition replica_ok :: "replica \<Rightarrow> bool" where
  "replica_ok s \<longleftrightarrow> hm_ok (rp_guilds s) \<and> hm_ok (rp_channel_index s) \<and>
     (\<forall>i g. hm_get (rp_guilds s) i = Some g \<longrightarrow> gd_id g = i \<and> guild_data_ok g) \<and>
     (\<forall>c i. hm_get (rp_channel_index s) c = Some i \<longrightarrow>
        (\<exists>g. hm_get (rp_guilds s) i = Some g \<and> hm_get (gd_channels g) c \<noteq> None))"

lemma replica_okD:
  assumes "replica_ok s"
  shows "hm_ok (rp_guilds s)" and "hm_ok (rp_channel_index s)"
    and "hm_get (rp_guilds s) i = Some g \<Longrightarrow> gd_id g = i \<and> guild_data_ok g"
    and "hm_get (rp_channel_index s) c = Some i \<Longrightarrow>
      \<exists>g ch. hm_get (rp_guilds s) i = Some g \<and> hm_get (gd_channels g) c = Some ch"
  using assms unfolding replica_ok_def by (simp, simp, simp, blast)

lemma replica_okI:
  assumes "hm_ok (rp_guilds s)" and "hm_ok (rp_channel_index s)"
    and "\<And>i g. hm_get (rp_guilds s) i = Some g \<Longrightarrow> gd_id g = i \<and> guild_data_ok g"
    and "\<And>c i. hm_get (rp_channel_index s) c = Some i \<Longrightarrow>
      \<exists>g ch. hm_get (rp_guilds s) i = Some g \<and> hm_get (gd_channels g) c = Some ch"
  shows "replica_ok s"
  using assms unfolding replica_ok_def by blast

lemma replica_new_ok: "replica_ok (replica_new grace)"
  by (simp add: replica_ok_def replica_new_def)

lemma get_index_replace_guild:
  "replica_ok s \<Longrightarrow> hm_get (rp_channel_index (replace_guild g s)) c =
     (if hm_get (gd_channels g) c \<noteq> None then Some (gd_id g)
      else case hm_get (rp_channel_index s) c of
             None \<Rightarrow> None | Some h \<Rightarrow> if h \<noteq> gd_id g then Some h else None)"
  by (simp add: replace_guild_def hm_get_fold_insert hm_keys_iff replica_okD(2))

lemma replace_guild_ok:
  assumes s: "replica_ok s" and g: "guild_data_ok g"
  shows "replica_ok (replace_guild g s)"
proof -
  have "hm_ok (rp_channel_index (replace_guild g s))"
    using replica_okD(2) [OF s] by (simp add: replace_guild_def hm_ok_fold_insert)
  moreover have "\<exists>g'. hm_get (rp_guilds (replace_guild g s)) i = Some g' \<and> hm_get (gd_channels g') c \<noteq> None"
    if "hm_get (rp_channel_index (replace_guild g s)) c = Some i" for c i
    using that replica_okD(4) [OF s, of c i] get_index_replace_guild [OF s, of g c]
    by (auto simp: replace_guild_def split: if_splits option.splits)
  ultimately show ?thesis
    using replica_okD(1,3) [OF s] g by (auto simp: replica_ok_def replace_guild_def split: if_splits)
qed

lemma remove_guild_ok:
  assumes s: "replica_ok s"
  shows "replica_ok (remove_guild gid s)"
proof (rule replica_okI)
  fix c i assume "hm_get (rp_channel_index (remove_guild gid s)) c = Some i"
  then have "hm_get (rp_channel_index s) c = Some i" and "i \<noteq> gid"
    using replica_okD(2) [OF s] by (auto simp: remove_guild_def split: option.splits if_splits)
  then show "\<exists>g ch. hm_get (rp_guilds (remove_guild gid s)) i = Some g \<and> hm_get (gd_channels g) c = Some ch"
    using replica_okD(4) [OF s] by (simp add: remove_guild_def)
qed (use replica_okD(1,2,3) [OF s] in \<open>auto simp: remove_guild_def split: if_splits\<close>)

lemma alter_guild_ok:
  assumes "replica_ok s"
    and "\<And>g. guild_data_ok g \<Longrightarrow> guild_data_ok (f g) \<and> gd_id (f g) = gd_id g \<and> gd_channels (f g) = gd_channels g"
  shows "replica_ok (alter_guild gid f s)"
  unfolding replica_ok_def
proof (intro conjI allI impI)
  show "hm_ok (rp_guilds (alter_guild gid f s))" "hm_ok (rp_channel_index (alter_guild gid f s))"
    using replica_okD(1,2) [OF assms(1)] by (simp_all add: alter_guild_def)
  fix i g assume "hm_get (rp_guilds (alter_guild gid f s)) i = Some g"
  then show "gd_id g = i" "guild_data_ok g"
    using replica_okD(3) [OF assms(1)] assms(2) by (auto simp: alter_guild_def split: if_splits)
next
  fix c i assume "hm_get (rp_channel_index (alter_guild gid f s)) c = Some i"
  then obtain g where g: "hm_get (rp_guilds s) i = Some g" "hm_get (gd_channels g) c \<noteq> None"
    using replica_okD(4) [OF assms(1)] by (fastforce simp: alter_guild_def)
  moreover have "gd_channels (f g) = gd_channels g"
    using assms(2) replica_okD(3) [OF assms(1) g(1)] by blast
  ultimately show "\<exists>g. hm_get (rp_guilds (alter_guild gid f s)) i = Some g \<and> hm_get (gd_channels g) c \<noteq> None"
    by (auto simp: alter_guild_def)
qed

lemma member_role_voice_ok:
  assumes "replica_ok s"
  shows "replica_ok (upsert_member gid u roles s)" and "replica_ok (remove_member gid u s)"
    and "replica_ok (upsert_role gid r s)" and "replica_ok (remove_role gid rid s)"
    and "replica_ok (set_voice gid u ch s)"
  unfolding upsert_member_def remove_member_def upsert_role_def remove_role_def set_voice_def
  by (rule alter_guild_ok [OF assms], auto simp: guild_data_ok_def split: option.splits)+

lemma upsert_channel_ok:
  assumes s: "replica_ok s"
  shows "replica_ok (upsert_channel gid c s)"
proof (cases "hm_get (rp_guilds s) gid")
  case None
  then show ?thesis using s by (simp add: upsert_channel_def)
next
  case (Some g0)
  show ?thesis
  proof (rule replica_okI)
    fix d i assume "hm_get (rp_channel_index (upsert_channel gid c s)) d = Some i"
    then show "\<exists>g ch. hm_get (rp_guilds (upsert_channel gid c s)) i = Some g \<and> hm_get (gd_channels g) d = Some ch"
      using Some replica_okD(4) [OF s, of d i]
      by (auto simp: upsert_channel_def alter_guild_def split: if_splits)
  next
    fix i g assume "hm_get (rp_guilds (upsert_channel gid c s)) i = Some g"
    then show "gd_id g = i \<and> guild_data_ok g"
      using Some replica_okD(3) [OF s]
      by (auto simp: upsert_channel_def alter_guild_def guild_data_ok_def split: if_splits)
  qed (use Some replica_okD(1,2) [OF s] in \<open>simp_all add: upsert_channel_def alter_guild_def\<close>)
qed

lemma remove_channel_ok:
  assumes s: "replica_ok s"
  shows "replica_ok (remove_channel gid cid s)"
proof (rule replica_okI)
  fix d i assume "hm_get (rp_channel_index (remove_channel gid cid s)) d = Some i"
  then have "d \<noteq> cid" "hm_get (rp_channel_index s) d = Some i"
    by (auto simp: remove_channel_def alter_guild_def split: if_splits)
  then show "\<exists>g ch. hm_get (rp_guilds (remove_channel gid cid s)) i = Some g \<and> hm_get (gd_channels g) d = Some ch"
    using replica_okD(4) [OF s, of d i] by (auto simp: remove_channel_def alter_guild_def)
next
  fix i g assume "hm_get (rp_guilds (remove_channel gid cid s)) i = Some g"
  then show "gd_id g = i \<and> guild_data_ok g"
    using replica_okD(3) [OF s]
    by (auto simp: remove_channel_def alter_guild_def guild_data_ok_def split: if_splits)
qed (use replica_okD(1,2) [OF s] in \<open>simp_all add: remove_channel_def alter_guild_def\<close>)

lemma set_connected_ok: "replica_ok s \<Longrightarrow> replica_ok (set_connected now c s)"
  by (simp add: replica_ok_def set_connected_def)

lemmas replica_ops_ok = replace_guild_ok remove_guild_ok member_role_voice_ok upsert_channel_ok
  remove_channel_ok set_connected_ok

section \<open>Events, reachable replicas\<close>

text \<open>One constructor per write; \<open>event_ok\<close>: a \<^verbatim>\<open>HashMap\<close> never holds a key twice.\<close>

datatype replica_event =
    ReplaceGuild guild_data
  | RemoveGuild u64
  | UpsertMember u64 u64 "u64 list"
  | RemoveMember u64 u64
  | UpsertRole u64 role_ref
  | RemoveRole u64 u64
  | UpsertChannel u64 channel_data
  | RemoveChannel u64 u64
  | SetConnected instant bool
  | SetVoice u64 u64 "u64 option"

fun replica_step :: "replica_event \<Rightarrow> replica \<Rightarrow> replica" where
  "replica_step (ReplaceGuild g) = replace_guild g"
| "replica_step (RemoveGuild i) = remove_guild i"
| "replica_step (UpsertMember i u rs) = upsert_member i u rs"
| "replica_step (RemoveMember i u) = remove_member i u"
| "replica_step (UpsertRole i r) = upsert_role i r"
| "replica_step (RemoveRole i r) = remove_role i r"
| "replica_step (UpsertChannel i c) = upsert_channel i c"
| "replica_step (RemoveChannel i c) = remove_channel i c"
| "replica_step (SetConnected now c) = set_connected now c"
| "replica_step (SetVoice i u c) = set_voice i u c"

fun event_ok :: "replica_event \<Rightarrow> bool" where
  "event_ok (ReplaceGuild g) = guild_data_ok g"
| "event_ok _ = True"

inductive replica_reachable :: "int \<Rightarrow> replica \<Rightarrow> bool" for grace where
  rr_start: "replica_reachable grace (replica_new grace)"
| rr_step: "replica_reachable grace s \<Longrightarrow> event_ok e \<Longrightarrow> replica_reachable grace (replica_step e s)"

lemma replica_step_ok: "replica_ok s \<Longrightarrow> event_ok e \<Longrightarrow> replica_ok (replica_step e s)"
  by (cases e) (simp_all add: replica_ops_ok)

lemma replica_reachable_ok: "replica_reachable grace s \<Longrightarrow> replica_ok s"
  by (induction rule: replica_reachable.induct) (simp_all add: replica_new_ok replica_step_ok)

text \<open>
  The abstract reading of the replica: which guild and channel a channel id names.  On a reachable
  replica \<open>permissions\<close> and \<open>channel_info\<close> are both functions of it.
\<close>

definition guild_channel :: "replica \<Rightarrow> u64 \<Rightarrow> (guild_data \<times> channel_data) option" where
  "guild_channel s c =
     Option.bind (hm_get (rp_channel_index s) c) (\<lambda>i.
     Option.bind (hm_get (rp_guilds s) i) (\<lambda>g. map_option (Pair g) (hm_get (gd_channels g) c)))"

definition resolve_in :: "guild_data \<Rightarrow> channel_data \<Rightarrow> u64 \<Rightarrow> u64 list \<Rightarrow> discord_permissions" where
  "resolve_in g ch u role_ids =
     resolve \<lparr>gref_id = gd_id g, gref_owner_id = gd_owner_id g, gref_roles = gd_roles g\<rparr>
         \<lparr>mref_user_id = u, mref_role_ids = role_ids\<rparr>
         \<lparr>cref_id = cd_id ch, cref_overwrites = cd_overwrites ch\<rparr>"

lemma permissions_alt:
  "permissions s u c =
     Option.bind (guild_channel s c) (\<lambda>(g, ch). map_option (resolve_in g ch u) (hm_get (gd_members g) u))"
  by (auto simp: permissions_def guild_channel_def resolve_in_def split: Option.bind_splits)

lemma channel_info_alt:
  "replica_ok s \<Longrightarrow> channel_info s c = map_option (\<lambda>(g, ch). (gd_id g, cd_name ch)) (guild_channel s c)"
  by (auto simp: channel_info_def guild_channel_def dest: replica_okD(3) split: Option.bind_splits)

lemma permissions_Some_channel_info:
  "permissions s u c = Some p \<Longrightarrow> \<exists>i n. channel_info s c = Some (i, n)"
  by (auto simp: permissions_def channel_info_def bind_eq_Some_conv)

lemma index_known:
  "replica_ok s \<Longrightarrow> hm_get (rp_channel_index s) c = Some i \<longleftrightarrow> (\<exists>n. channel_info s c = Some (i, n))"
  by (auto simp: channel_info_def bind_eq_Some_conv dest: replica_okD(4))

section \<open>Revocation is immediate\<close>

lemma permissions_remove_member:
  "permissions (remove_member i u s) v c =
     (if v = u \<and> hm_get (rp_channel_index s) c = Some i then None else permissions s v c)"
  by (cases "hm_get (rp_channel_index s) c"; cases "hm_get (rp_guilds s) i")
    (auto simp: remove_member_def permissions_def alter_guild_def split: Option.bind_splits)

lemma permissions_remove_guild:
  assumes "replica_ok s"
  shows "permissions (remove_guild i s) v c =
     (if hm_get (rp_channel_index s) c = Some i then None else permissions s v c)"
  using replica_okD(2) [OF assms]
  by (cases "hm_get (rp_channel_index s) c") (auto simp: remove_guild_def permissions_def)

lemma permissions_remove_channel:
  "permissions (remove_channel i d s) v c = (if c = d then None else permissions s v c)"
  by (cases "hm_get (rp_channel_index s) c"; cases "hm_get (rp_guilds s) i")
    (auto simp: remove_channel_def permissions_def alter_guild_def split: Option.bind_splits)

text \<open>A small reachable replica, for the witnesses: one guild, one voice channel, one member.\<close>

definition sample_guild :: guild_data where
  "sample_guild = \<lparr>gd_id = 100, gd_owner_id = 1,
     gd_roles = [\<lparr>role_id = 100, role_permissions = VIEW_CHANNEL OR CONNECT\<rparr>],
     gd_members = [(1, []), (2, [])],
     gd_channels = [(900, \<lparr>cd_id = 900, cd_name = ''jogos'', cd_overwrites = []\<rparr>)],
     gd_voice = [(2, 900)]\<rparr>"

definition sample_replica :: replica where
  "sample_replica = replace_guild sample_guild (set_connected 0 True (replica_new 60))"

lemma sample_reachable: "replica_reachable 60 sample_replica"
proof -
  have g: "event_ok (ReplaceGuild sample_guild)"
    by (simp add: sample_guild_def guild_data_ok_def hm_ok_def)
  have "replica_reachable 60 (replica_step (SetConnected 0 True) (replica_new 60))"
    by (intro rr_step rr_start) simp
  then have "replica_reachable 60 (replica_step (ReplaceGuild sample_guild) (replica_step (SetConnected 0 True) (replica_new 60)))"
    using g by (rule rr_step)
  then show ?thesis by (simp add: sample_replica_def)
qed

lemma sample_index: "hm_get (rp_channel_index sample_replica) 900 = Some 100"
  by code_simp

lemma sample_member_joins: "may_join sample_replica 2 900"
  by code_simp

text \<open>
  C22.  Removing a member, a guild or a channel takes effect at once and touches nothing else: on every
  reachable replica, afterwards \<open>permissions\<close> is \<open>None\<close> exactly for the removed member in that
  guild's channels (respectively for every channel of the guild, for the channel), and every other
  question has the answer it had before.
\<close>
theorem removal_revokes_exactly:
  assumes "replica_reachable grace s"
  shows "(\<forall>i u v c. permissions (remove_member i u s) v c =
            (if v = u \<and> hm_get (rp_channel_index s) c = Some i then None else permissions s v c)) \<and>
         (\<forall>i v c. permissions (remove_guild i s) v c =
            (if hm_get (rp_channel_index s) c = Some i then None else permissions s v c)) \<and>
         (\<forall>i d v c. permissions (remove_channel i d s) v c = (if c = d then None else permissions s v c))"
  using replica_reachable_ok [OF assms]
  by (simp add: permissions_remove_member permissions_remove_guild permissions_remove_channel)

theorem removal_revokes_exactly_witness:
  "permissions sample_replica 2 900 \<noteq> None \<and> permissions (remove_member 100 2 sample_replica) 2 900 = None \<and>
   permissions (remove_member 100 2 sample_replica) 1 900 = permissions sample_replica 1 900"
proof -
  have "permissions sample_replica 2 900 \<noteq> None"
    using sample_member_joins by (auto simp: may_join_def split: option.splits)
  then show ?thesis
    using removal_revokes_exactly [OF sample_reachable] sample_index by simp
qed

text \<open>
  The channel index is never ahead of the guilds: on every reachable replica, an indexed channel
  is present in the guild it is indexed under, so \<open>channel_info\<close> answers with that guild, and a channel
  absent from its guild after a reconnect no longer resolves.
\<close>
theorem reachable_index_sound:
  assumes "replica_reachable grace s"
  shows "(\<forall>c i. hm_get (rp_channel_index s) c = Some i \<longleftrightarrow> (\<exists>n. channel_info s c = Some (i, n))) \<and>
    (\<forall>g c. guild_data_ok g \<and> hm_get (rp_channel_index s) c = Some (gd_id g) \<and> hm_get (gd_channels g) c = None
       \<longrightarrow> channel_info (replace_guild g s) c = None)"
proof -
  have ok: "replica_ok s" by (rule replica_reachable_ok [OF assms])
  have "channel_info (replace_guild g s) c = None"
    if "hm_get (rp_channel_index s) c = Some (gd_id g)" "hm_get (gd_channels g) c = None" for g c
    using that get_index_replace_guild [OF ok, of g c] by (simp add: channel_info_def)
  with index_known [OF ok] show ?thesis by blast
qed

theorem reachable_index_sound_witness:
  "channel_info sample_replica 900 = Some (100, ''jogos'') \<and>
   channel_info (replace_guild (sample_guild\<lparr>gd_channels := []\<rparr>) sample_replica) 900 = None"
proof -
  let ?g = "sample_guild\<lparr>gd_channels := []\<rparr>"
  have "guild_data_ok ?g \<and> hm_get (rp_channel_index sample_replica) 900 = Some (gd_id ?g) \<and> hm_get (gd_channels ?g) 900 = None"
    using sample_index by (simp add: sample_guild_def guild_data_ok_def hm_ok_def)
  then have "channel_info (replace_guild ?g sample_replica) 900 = None"
    using reachable_index_sound [OF sample_reachable] by blast
  moreover have "channel_info sample_replica 900 = Some (100, ''jogos'')" by code_simp
  ultimately show ?thesis by simp
qed

section \<open>Staleness\<close>

fun is_connection_event :: "replica_event \<Rightarrow> bool" where
  "is_connection_event (SetConnected _ _) = True"
| "is_connection_event _ = False"

lemma connection_frame:
  "\<not> is_connection_event e \<Longrightarrow> rp_connected (replica_step e s) = rp_connected s \<and>
     rp_disconnected_since (replica_step e s) = rp_disconnected_since s \<and> rp_grace (replica_step e s) = rp_grace s"
  by (cases e) (simp_all add: replace_guild_def remove_guild_def upsert_member_def remove_member_def
      upsert_role_def remove_role_def upsert_channel_def remove_channel_def set_voice_def alter_guild_def)

text \<open>What of a replica says whether it can be trusted, and that only a connection report changes it.\<close>

definition connection_of :: "replica \<Rightarrow> bool \<times> instant option \<times> int" where
  "connection_of s = (rp_connected s, rp_disconnected_since s, rp_grace s)"

lemma connection_of_frame:
  "\<not> list_ex is_connection_event es \<Longrightarrow> connection_of (fold replica_step es s) = connection_of s"
proof (induction es arbitrary: s)
  case (Cons e es)
  then show ?case using connection_frame [of e s] by (simp add: connection_of_def)
qed simp

lemma staleness_connection:
  "staleness now s = (case connection_of s of (up, since, grace) \<Rightarrow>
     if up then Fresh else case since of Some t \<Rightarrow> (if max 0 (now - t) \<le> grace then Fresh else Stale) | None \<Rightarrow> Stale)"
  by (simp add: staleness_def connection_of_def split: option.split)

text \<open>
  The bot reports every shard stage other than \<^verbatim>\<open>Connected\<close> with \<^verbatim>\<open>set_connected(false)\<close>, and each such
  report restarts the window.
\<close>

lemma set_connected_last:
  "fold (\<lambda>t. set_connected t False) ts (set_connected t False s) = set_connected (last (t # ts)) False s"
  by (induction ts arbitrary: t) (simp_all add: set_connected_def)

text \<open>
  A connection that keeps failing never goes stale: as long as some shard stage (connecting,
  handshake, identifying) is reported at least once per grace window, the replica answers \<open>Fresh\<close> at
  every report, however long ago the gateway last was connected.  The window counts from the last
  failed attempt and not from the drop.
\<close>
theorem failing_reconnects_stay_fresh:
  assumes "0 \<le> rp_grace s" and "now - last (t0 # ts) \<le> rp_grace s"
  shows "staleness now (fold (\<lambda>t. set_connected t False) ts (set_connected t0 False s)) = Fresh"
  using assms by (simp only: set_connected_last) (simp add: staleness_def set_connected_def)

theorem failing_reconnects_stay_fresh_witness:
  "staleness 500 (fold (\<lambda>t. set_connected t False) [50, 100, 150, 200, 250, 300, 350, 400, 450]
     (set_connected 0 False sample_replica)) = Fresh \<and> rp_grace sample_replica < 500 - 0"
proof -
  have g: "rp_grace sample_replica = 60" by (simp add: sample_replica_def replace_guild_def set_connected_def replica_new_def)
  show ?thesis
    using failing_reconnects_stay_fresh [of sample_replica 500 0 "[50, 100, 150, 200, 250, 300, 350, 400, 450]"] g
    by simp
qed

end
