(* ===== verification/Ldk_Text.thy ===== *)
theory Ldk_Text
  imports Ldk_Prelude
begin

text \<open>
  What the program uses of Rust's strings: a \<^verbatim>\<open>&str\<close> is its UTF-8 bytes (one \<open>char\<close> each).  Decimal
  printing and parsing of machine integers, counting characters, trimming, ASCII case, lower-case
  hexadecimal, prefixes and suffixes, with the round-trip laws the components rest on.
\<close>

section \<open>Decimal\<close>

definition digit_char :: "nat \<Rightarrow> char" where
  "digit_char d = char_of (48 + d)"

definition char_code :: "char \<Rightarrow> nat" where
  "char_code c = of_char c"

definition ascii_lowercase :: "char \<Rightarrow> char" where
  "ascii_lowercase c = (if 65 \<le> char_code c \<and> char_code c \<le> 90 then char_of (char_code c + 32) else c)"

definition to_ascii_lowercase :: "string \<Rightarrow> string" where
  "to_ascii_lowercase s = map ascii_lowercase s"

definition is_digit :: "char \<Rightarrow> bool" where
  "is_digit c \<longleftrightarrow> 48 \<le> char_code c \<and> char_code c \<le> 57"

fun show_nat :: "nat \<Rightarrow> string" where
  "show_nat n = (if n < 10 then [digit_char n] else show_nat (n div 10) @ [digit_char (n mod 10)])"

declare show_nat.simps [simp del]

fun parse_digits :: "nat \<Rightarrow> string \<Rightarrow> nat option" where
  "parse_digits acc [] = Some acc"
| "parse_digits acc (c # cs) =
     (if is_digit c then parse_digits (10 * acc + (char_code c - 48)) cs else None)"

text \<open>
  \<^verbatim>\<open>from_str\<close> of a signed or unsigned integer with least value \<open>lo\<close> and greatest \<open>hi\<close>: an optional
  \<^verbatim>\<open>+\<close>, a \<^verbatim>\<open>-\<close> for signed types only, at least one digit, and an error for a value out of range.
\<close>

definition in_range :: "int \<Rightarrow> int \<Rightarrow> int \<Rightarrow> int option" where
  "in_range lo hi v = (if lo \<le> v \<and> v \<le> hi then Some v else None)"

definition parse_int :: "int \<Rightarrow> int \<Rightarrow> string \<Rightarrow> int option" where
  "parse_int lo hi s =
    (case s of [] \<Rightarrow> None
     | c # cs \<Rightarrow>
        if lo < 0 \<and> c = CHR ''-'' then
          (if cs = [] then None else Option.bind (parse_digits 0 cs) (\<lambda>n. in_range lo hi (- int n)))
        else if c = CHR ''+'' then
          (if cs = [] then None else Option.bind (parse_digits 0 cs) (\<lambda>n. in_range lo hi (int n)))
        else Option.bind (parse_digits 0 s) (\<lambda>n. in_range lo hi (int n)))"

definition show_int :: "int \<Rightarrow> string" where
  "show_int i = (if i < 0 then CHR ''-'' # show_nat (nat (- i)) else show_nat (nat i))"

definition parse_i64 :: "string \<Rightarrow> i64 option" where
  "parse_i64 s = map_option word_of_int (parse_int (- (2 ^ 63)) (2 ^ 63 - 1) s)"

definition show_i64 :: "i64 \<Rightarrow> string" where
  "show_i64 x = show_int (sint x)"

definition parse_u32 :: "string \<Rightarrow> nat option" where
  "parse_u32 s = map_option nat (parse_int 0 (2 ^ 32 - 1) s)"

lemma char_code_digit: "d < 10 \<Longrightarrow> char_code (digit_char d) = 48 + d"
  by (simp add: char_code_def digit_char_def)

lemma is_digit_digit_char [simp]: "d < 10 \<Longrightarrow> is_digit (digit_char d)"
  by (simp add: is_digit_def char_code_digit)

lemma parse_digits_append:
  "parse_digits acc (xs @ ys) = Option.bind (parse_digits acc xs) (\<lambda>n. parse_digits n ys)"
  by (induction xs arbitrary: acc) auto

lemma parse_show_nat: "parse_digits 0 (show_nat n) = Some n"
proof (induction n rule: show_nat.induct)
  case (1 n)
  show ?case
  proof (cases "n < 10")
    case True
    then show ?thesis by (simp add: show_nat.simps [of n] char_code_digit)
  next
    case False
    with 1 show ?thesis
      by (simp add: show_nat.simps [of n] parse_digits_append char_code_digit)
  qed
qed

lemma show_nat_digits: "\<forall>c \<in> set (show_nat n). is_digit c"
proof (induction n rule: show_nat.induct)
  case (1 n)
  then show ?case by (cases "n < 10") (simp_all add: show_nat.simps [of n])
qed

lemma show_nat_nonempty [simp]: "show_nat n \<noteq> []"
  by (subst show_nat.simps) simp

lemma is_digit_not_sign [simp]: "\<not> is_digit (CHR ''-'')" "\<not> is_digit (CHR ''+'')"
  by (simp_all add: is_digit_def char_code_def)

lemma parse_show_int:
  assumes "lo \<le> 0" and "lo \<le> i" and "i \<le> hi"
  shows "parse_int lo hi (show_int i) = Some i"
proof (cases "i < 0")
  case True
  then show ?thesis using assms
    by (simp add: show_int_def parse_int_def parse_show_nat in_range_def)
next
  case False
  obtain c cs where s: "show_nat (nat i) = c # cs"
    by (cases "show_nat (nat i)") auto
  then have "is_digit c" using show_nat_digits [of "nat i"] by simp
  then have "c \<noteq> CHR ''-''" "c \<noteq> CHR ''+''" by auto
  with False assms parse_show_nat [of "nat i"] s show ?thesis
    by (simp add: show_int_def parse_int_def in_range_def)
qed

lemma sint_i64_range: "- (2 ^ 63) \<le> sint (x :: i64)" "sint (x :: i64) \<le> 2 ^ 63 - 1"
  using sint_greater_eq [of x] sint_lt [of x] by simp_all

lemma parse_show_i64 [simp]: "parse_i64 (show_i64 x) = Some x"
proof -
  have "parse_int (- (2 ^ 63)) (2 ^ 63 - 1) (show_int (sint x)) = Some (sint x)"
    by (rule parse_show_int) (use sint_i64_range [of x] in simp_all)
  then show ?thesis by (simp add: parse_i64_def show_i64_def)
qed

lemma show_i64_inj: "show_i64 x = show_i64 y \<Longrightarrow> x = y"
  by (metis option.inject parse_show_i64)

section \<open>Prefixes and suffixes\<close>

fun strip_prefix :: "string \<Rightarrow> string \<Rightarrow> string option" where
  "strip_prefix [] s = Some s"
| "strip_prefix (p # ps) [] = None"
| "strip_prefix (p # ps) (c # cs) = (if p = c then strip_prefix ps cs else None)"

definition strip_suffix :: "string \<Rightarrow> string \<Rightarrow> string option" where
  "strip_suffix p s = map_option rev (strip_prefix (rev p) (rev s))"

definition ends_with :: "string \<Rightarrow> string \<Rightarrow> bool" where
  "ends_with p s \<longleftrightarrow> strip_suffix p s \<noteq> None"

lemma strip_prefix_Some: "strip_prefix p s = Some r \<longleftrightarrow> s = p @ r"
  by (induction p s rule: strip_prefix.induct) auto

lemma strip_suffix_Some: "strip_suffix p s = Some r \<longleftrightarrow> s = r @ p"
proof -
  have "strip_suffix p s = Some r \<longleftrightarrow> strip_prefix (rev p) (rev s) = Some (rev r)"
    by (auto simp: strip_suffix_def)
  then show ?thesis by (simp add: strip_prefix_Some) (metis rev_append rev_rev_ident)
qed

lemma strip_prefix_append [simp]: "strip_prefix p (p @ r) = Some r"
  by (simp add: strip_prefix_Some)

lemma strip_suffix_append [simp]: "strip_suffix p (r @ p) = Some r"
  by (simp add: strip_suffix_Some)

lemma ends_with_append [simp]: "ends_with p (r @ p)"
  by (simp add: ends_with_def)

lemma strip_suffix_None: "last p \<notin> set s \<Longrightarrow> p \<noteq> [] \<Longrightarrow> strip_suffix p s = None"
  by (cases "strip_suffix p s") (auto simp: strip_suffix_Some)

section \<open>Characters, case, hexadecimal\<close>

text \<open>\<^verbatim>\<open>s.chars().count()\<close>: the bytes that are not UTF-8 continuation bytes.\<close>

definition chars_count :: "string \<Rightarrow> nat" where
  "chars_count s = length (filter (\<lambda>c. \<not> (128 \<le> char_code c \<and> char_code c < 192)) s)"

definition ascii_upper :: "char \<Rightarrow> char" where
  "ascii_upper c = (if 97 \<le> char_code c \<and> char_code c \<le> 122 then char_of (char_code c - 32) else c)"

definition to_ascii_uppercase :: "string \<Rightarrow> string" where
  "to_ascii_uppercase = map ascii_upper"

text \<open>\<^verbatim>\<open>char::is_whitespace\<close> in UTF-8: the code points with the property \<^verbatim>\<open>White_Space\<close>.\<close>

definition whitespace_bytes :: "nat list list" where
  "whitespace_bytes =
     [[9], [10], [11], [12], [13], [32], [194, 133], [194, 160], [225, 154, 128],
      [226, 128, 168], [226, 128, 169], [226, 128, 175], [226, 129, 159], [227, 128, 128]]
     @ map (\<lambda>k. [226, 128, k])
         [128, 129, 130, 131, 132, 133, 134, 135, 136, 137, 138]"

definition whitespace_chars :: "string list" where
  "whitespace_chars = map (map char_of) whitespace_bytes"

fun strip_one :: "string list \<Rightarrow> string \<Rightarrow> string option" where
  "strip_one [] s = None"
| "strip_one (w # ws) s = (case strip_prefix w s of None \<Rightarrow> strip_one ws s | Some r \<Rightarrow> Some r)"

fun strip_many :: "nat \<Rightarrow> string list \<Rightarrow> string \<Rightarrow> string" where
  "strip_many 0 ws s = s"
| "strip_many (Suc k) ws s = (case strip_one ws s of None \<Rightarrow> s | Some r \<Rightarrow> strip_many k ws r)"

text \<open>Each round removes at least one byte, so the length of the string bounds the rounds.\<close>

definition trim_start :: "string \<Rightarrow> string" where
  "trim_start s = strip_many (length s) whitespace_chars s"

definition trim_end :: "string \<Rightarrow> string" where
  "trim_end s = rev (strip_many (length s) (map rev whitespace_chars) (rev s))"

definition str_trim :: "string \<Rightarrow> string" where
  "str_trim s = trim_end (trim_start s)"

definition hex_digit :: "nat \<Rightarrow> char" where
  "hex_digit n = (if n < 10 then char_of (48 + n) else char_of (87 + n))"

definition hex_byte :: "8 word \<Rightarrow> string" where
  "hex_byte b = [hex_digit (unat b div 16), hex_digit (unat b mod 16)]"

definition hex_lower :: "8 word list \<Rightarrow> string" where
  "hex_lower bs = concat (map hex_byte bs)"

lemma length_hex_lower: "length (hex_lower bs) = 2 * length bs"
  by (induction bs) (simp_all add: hex_lower_def hex_byte_def)

lemma hex_digit_inj: "m < 16 \<Longrightarrow> n < 16 \<Longrightarrow> hex_digit m = hex_digit n \<Longrightarrow> m = n"
  by (auto simp: hex_digit_def split: if_splits)

lemma unat_u8_less: "unat (b :: 8 word) < 256"
  using unsigned_less [of b, where ?'a = nat] by simp

lemma hex_byte_inj: "hex_byte a = hex_byte b \<Longrightarrow> a = b"
proof -
  assume eq: "hex_byte a = hex_byte b"
  have d: "unat a div 16 < 16" "unat b div 16 < 16"
    using unat_u8_less [of a] unat_u8_less [of b] by auto
  from eq d have "unat a div 16 = unat b div 16" "unat a mod 16 = unat b mod 16"
    by (auto simp: hex_byte_def intro: hex_digit_inj)
  then have "unat a = unat b" by (metis mult_div_mod_eq)
  then show "a = b" by (simp add: word_unat_eq_iff)
qed

lemma hex_lower_Cons: "hex_lower (b # bs) = hex_byte b @ hex_lower bs"
  by (simp add: hex_lower_def)

lemma hex_lower_inj: "length as = length bs \<Longrightarrow> hex_lower as = hex_lower bs \<Longrightarrow> as = bs"
proof (induction as bs rule: list_induct2)
  case (Cons a as b bs)
  have "length (hex_byte a) = length (hex_byte b)" by (simp add: hex_byte_def)
  with Cons show ?case by (auto simp: hex_lower_Cons dest: hex_byte_inj)
qed simp

lemma strip_one_None: "\<forall>w \<in> set ws. strip_prefix w s = None \<Longrightarrow> strip_one ws s = None"
  by (induction ws) auto

lemma strip_many_None: "strip_one ws s = None \<Longrightarrow> strip_many k ws s = s"
  by (cases k) auto

section \<open>Trimming\<close>

text \<open>Two strings agree when neither differs from the other before one of them ends.\<close>

fun agree :: "'a list \<Rightarrow> 'a list \<Rightarrow> bool" where
  "agree (x # xs) (y # ys) = (x = y \<and> agree xs ys)"
| "agree _ _ = True"

definition prefix_free :: "'a list list \<Rightarrow> bool" where
  "prefix_free ws \<longleftrightarrow> list_all (\<lambda>w. list_all (\<lambda>w'. w = w' \<or> \<not> agree w w') ws) ws"

lemma strip_prefix_agree: "strip_prefix w' (w @ r) = Some x \<Longrightarrow> agree w w'"
  by (induction w w' rule: agree.induct) (auto split: if_splits)

lemma strip_one_hit_aux:
  "\<forall>w' \<in> set ws. w = w' \<or> \<not> agree w w' \<Longrightarrow> w \<in> set ws \<Longrightarrow> strip_one ws (w @ r) = Some r"
proof (induction ws)
  case (Cons v ws)
  show ?case
  proof (cases "v = w")
    case False
    with Cons.prems have "strip_prefix v (w @ r) = None"
      using strip_prefix_agree [of v w r] by (cases "strip_prefix v (w @ r)") auto
    with Cons False show ?thesis by simp
  qed simp
qed simp

lemma strip_one_hit: "prefix_free ws \<Longrightarrow> w \<in> set ws \<Longrightarrow> strip_one ws (w @ r) = Some r"
  by (rule strip_one_hit_aux) (auto simp: prefix_free_def list_all_iff)

lemma strip_prefix_head: "(case w of [] \<Rightarrow> False | x # _ \<Rightarrow> x \<noteq> c) \<Longrightarrow> strip_prefix w (c # cs) = None"
  by (cases w) auto

lemma strip_many_padding:
  assumes "prefix_free ws" and "set ps \<subseteq> set ws" and "strip_one ws core = None"
    and "length ps \<le> k"
  shows "strip_many k ws (concat ps @ core) = core"
  using assms(2,4)
proof (induction ps arbitrary: k)
  case Nil
  then show ?case using assms(3) by (simp add: strip_many_None)
next
  case (Cons p ps)
  then obtain k' where k: "k = Suc k'" by (cases k) auto
  with Cons show ?case
    using strip_one_hit [OF assms(1), of p "concat ps @ core"] by simp
qed

text \<open>Characters are bytes, so the questions about the table are decided on numbers.\<close>

lemma agree_map: "inj_on f (set xs \<union> set ys) \<Longrightarrow> agree (map f xs) (map f ys) = agree xs ys"
  by (induction xs ys rule: agree.induct) (auto simp: inj_on_def)

lemma char_of_inj: "inj_on char_of {..<256 :: nat}"
  by (rule inj_onI) simp

lemma prefix_free_char_of:
  assumes "prefix_free ns" and "list_all (list_all (\<lambda>n. n < 256)) ns"
  shows "prefix_free (map (map char_of) (ns :: nat list list))"
  unfolding prefix_free_def list_all_iff
proof clarsimp
  fix v w assume v: "v \<in> set ns" and w: "w \<in> set ns"
    and differ: "map char_of v \<noteq> (map char_of w :: string)"
    and agrees: "agree (map char_of v) (map char_of w :: string)"
  have "set v \<union> set w \<subseteq> {..<256}" using assms(2) v w by (auto simp: list_all_iff)
  then have "agree v w" using agrees agree_map [of char_of v w] inj_on_subset [OF char_of_inj] by metis
  moreover have "v \<noteq> w" using differ by auto
  ultimately show False using assms(1) v w by (auto simp: prefix_free_def list_all_iff)
qed

lemma whitespace_table:
  "prefix_free whitespace_bytes" "prefix_free (map rev whitespace_bytes)"
  "list_all (list_all (\<lambda>n. n < 256)) whitespace_bytes"
  "list_all (list_all (\<lambda>n. \<not> (33 \<le> n \<and> n < 128))) (map (take 1) whitespace_bytes)"
  "list_all (list_all (\<lambda>n. \<not> (33 \<le> n \<and> n < 128))) (map (take 1) (map rev whitespace_bytes))"
  "list_all (\<lambda>w. w \<noteq> []) whitespace_bytes"
  by (simp_all add: prefix_free_def whitespace_bytes_def)

lemma whitespace_prefix_free: "prefix_free whitespace_chars" "prefix_free (map rev whitespace_chars)"
  unfolding whitespace_chars_def
proof -
  show "prefix_free (map (map char_of) whitespace_bytes)"
    by (rule prefix_free_char_of) (rule whitespace_table)+
  have "prefix_free (map (map char_of) (map rev whitespace_bytes))"
    by (rule prefix_free_char_of) (use whitespace_table in \<open>auto simp: list_all_iff\<close>)
  then show "prefix_free (map rev (map (map char_of) whitespace_bytes))"
    by (simp add: rev_map comp_def)
qed

lemma whitespace_nonempty: "list_all (\<lambda>w. w \<noteq> []) whitespace_chars"
  using whitespace_table(6) by (simp add: whitespace_chars_def list_all_iff)

lemma length_concat_ge: "list_all (\<lambda>w. w \<noteq> []) ws \<Longrightarrow> set ps \<subseteq> set ws \<Longrightarrow> length ps \<le> length (concat ps)"
proof (induction ps)
  case (Cons p ps)
  then have "1 \<le> length p" by (cases p) (auto simp: list_all_iff)
  with Cons show ?case by simp
qed simp

lemma trim_start_padding:
  assumes "set ps \<subseteq> set whitespace_chars" and "strip_one whitespace_chars core = None"
  shows "trim_start (concat ps @ core) = core"
  unfolding trim_start_def
  using length_concat_ge [OF whitespace_nonempty assms(1)]
  by (intro strip_many_padding whitespace_prefix_free assms) simp

lemma trim_end_padding:
  assumes "set ps \<subseteq> set whitespace_chars" and "strip_one (map rev whitespace_chars) (rev core) = None"
  shows "trim_end (core @ concat ps) = core"
proof -
  have "strip_many (length (core @ concat ps)) (map rev whitespace_chars)
          (concat (map rev (rev ps)) @ rev core) = rev core"
    using length_concat_ge [OF whitespace_nonempty assms(1)] assms(1)
    by (intro strip_many_padding whitespace_prefix_free assms) auto
  then show ?thesis by (simp add: trim_end_def rev_concat rev_map)
qed

text \<open>The bytes a white-space character can begin or end with; printable ASCII is none of them.\<close>

lemma strip_one_ascii:
  assumes "33 \<le> char_code c" and "char_code c < 128"
  shows "strip_one whitespace_chars (c # cs) = None"
    and "strip_one (map rev whitespace_chars) (c # cs) = None"
proof -
  let ?P = "\<lambda>w. case w of [] \<Rightarrow> False | x # _ \<Rightarrow> \<not> (33 \<le> char_code x \<and> char_code x < 128)"
  have code: "char_code (char_of n) = n" if "n < 256" for n :: nat
    using that by (simp add: char_code_def)
  have head: "?P (map char_of n)"
    if "n \<noteq> []" "list_all (\<lambda>n. n < 256) n" "list_all (\<lambda>n. \<not> (33 \<le> n \<and> n < 128)) (take 1 n)"
    for n :: "nat list"
    using that by (cases n) (auto simp: code)
  have heads: "list_all ?P whitespace_chars" "list_all ?P (map rev whitespace_chars)"
    using whitespace_table(3,4,5,6)
    by (auto simp: whitespace_chars_def list_all_iff rev_map intro!: head)
  have P: "?P w \<Longrightarrow> strip_prefix w (c # cs) = None" for w
    using assms by (intro strip_prefix_head) (auto split: list.splits)
  show "strip_one whitespace_chars (c # cs) = None"
    using heads(1) P by (intro strip_one_None) (simp add: list_all_iff)
  show "strip_one (map rev whitespace_chars) (c # cs) = None"
    using heads(2) P by (intro strip_one_None) (simp add: list_all_iff)
qed

lemma str_trim_padding:
  assumes "set ps \<subseteq> set whitespace_chars" and "set qs \<subseteq> set whitespace_chars"
    and "core \<noteq> []" and "\<And>c. c \<in> set core \<Longrightarrow> 33 \<le> char_code c \<and> char_code c < 128"
  shows "str_trim (concat ps @ core @ concat qs) = core"
proof -
  obtain c cs where c: "core = c # cs" using assms(3) by (cases core) auto
  obtain d ds where d: "rev core = d # ds" using assms(3) by (cases "rev core") auto
  then have "d \<in> set core" by (metis list.set_intros(1) set_rev)
  then have "strip_one (map rev whitespace_chars) (rev core) = None"
    using strip_one_ascii(2) [of d ds] assms(4) d by simp
  then have "trim_end (core @ concat qs) = core"
    by (rule trim_end_padding [OF assms(2)])
  moreover have "trim_start (concat ps @ core @ concat qs) = core @ concat qs"
    using c assms(4) by (intro trim_start_padding assms) (simp add: strip_one_ascii)
  ultimately show ?thesis by (simp add: str_trim_def)
qed

end
