(* ===== verification/Pairing_Code.thy ===== *)
theory Pairing_Code
  imports Ldk_Text
begin

text \<open>
  \<^verbatim>\<open>crates/domain/src/validation.rs\<close> and \<^verbatim>\<open>crates/domain/src/pairing.rs\<close>: the shape check of a pairing
  code, the accumulator of field errors, generation from the unambiguous alphabet and the
  persisted hash.  The random draws and the digest SHA-256 are parameters (crates \<^verbatim>\<open>rand\<close> and
  \<^verbatim>\<open>sha2\<close>).
\<close>

section \<open>Validation\<close>

datatype validation_code = Required | TooShort | TooLong | InvalidFormat

fun vcode_as_str :: "validation_code \<Rightarrow> string" where
  "vcode_as_str Required = ''REQUIRED''"
| "vcode_as_str TooShort = ''TOO_SHORT''"
| "vcode_as_str TooLong = ''TOO_LONG''"
| "vcode_as_str InvalidFormat = ''INVALID_FORMAT''"

record field_error =
  fe_field :: string
  fe_code :: validation_code

type_synonym validation = "field_error list"

definition val_new :: validation where
  "val_new = []"

definition val_push :: "string \<Rightarrow> validation_code \<Rightarrow> validation \<Rightarrow> validation" where
  "val_push f c v = v @ [\<lparr>fe_field = f, fe_code = c\<rparr>]"

definition val_check :: "string \<Rightarrow> validation_code + unit \<Rightarrow> validation \<Rightarrow> validation" where
  "val_check f outcome v = (case outcome of Inl c \<Rightarrow> val_push f c v | Inr _ \<Rightarrow> v)"

definition val_is_ok :: "validation \<Rightarrow> bool" where
  "val_is_ok v \<longleftrightarrow> v = []"

definition val_finish :: "validation \<Rightarrow> field_error list + unit" where
  "val_finish v = (if v = [] then Inr () else Inl v)"

definition PAIRING_CODE_LEN :: nat where "PAIRING_CODE_LEN = 8"

definition PAIRING_CODE_ALPHABET :: string where
  "PAIRING_CODE_ALPHABET = ''ABCDEFGHJKMNPQRSTUVWXYZ23456789''"

definition pairing_code :: "string \<Rightarrow> validation_code + unit" where
  "pairing_code v =
    (if v = [] then Inl Required
     else let len = chars_count v in
       if len < PAIRING_CODE_LEN then Inl TooShort
       else if len > PAIRING_CODE_LEN then Inl TooLong
       else if \<not> list_all (\<lambda>b. b \<in> set PAIRING_CODE_ALPHABET) v then Inl InvalidFormat
       else Inr ())"

section \<open>Generation and hashing\<close>

text \<open>
  \<^verbatim>\<open>PairingCode::generate\<close>: one index below the alphabet's size is drawn for each position; \<open>draws\<close>
  is the list of the values \<^verbatim>\<open>random_range\<close> returned.
\<close>

definition generate_code :: "nat list \<Rightarrow> string" where
  "generate_code draws = map (\<lambda>i. PAIRING_CODE_ALPHABET ! i) draws"

definition draws_ok :: "nat list \<Rightarrow> bool" where
  "draws_ok draws \<longleftrightarrow> length draws = PAIRING_CODE_LEN \<and> list_all (\<lambda>i. i < length PAIRING_CODE_ALPHABET) draws"

definition hash_code :: "(string \<Rightarrow> 8 word list) \<Rightarrow> string \<Rightarrow> string" where
  "hash_code sha256 code = hex_lower (sha256 code)"

text \<open>What \<^verbatim>\<open>POST /auth/pair\<close> does to the text a person typed before checking it.\<close>

definition normalise_code :: "string \<Rightarrow> string" where
  "normalise_code s = to_ascii_uppercase (str_trim s)"

section \<open>Properties\<close>

lemma alphabet_length: "length PAIRING_CODE_ALPHABET = 31"
  by (simp add: PAIRING_CODE_ALPHABET_def)

lemma alphabet_ascii:
  "c \<in> set PAIRING_CODE_ALPHABET \<Longrightarrow> 50 \<le> char_code c \<and> char_code c \<le> 90"
  by (auto simp: PAIRING_CODE_ALPHABET_def char_code_def)

lemma alphabet_distinct: "distinct PAIRING_CODE_ALPHABET"
  by (simp add: PAIRING_CODE_ALPHABET_def)

lemma chars_count_alphabet: "set v \<subseteq> set PAIRING_CODE_ALPHABET \<Longrightarrow> chars_count v = length v"
proof -
  assume v: "set v \<subseteq> set PAIRING_CODE_ALPHABET"
  have "filter (\<lambda>c. \<not> (128 \<le> char_code c \<and> char_code c < 192)) v = v"
    using v alphabet_ascii by (intro filter_True) fastforce
  then show ?thesis by (simp add: chars_count_def)
qed

lemma pairing_code_ok_iff:
  "pairing_code v = Inr () \<longleftrightarrow> length v = 8 \<and> set v \<subseteq> set PAIRING_CODE_ALPHABET"
proof (cases "set v \<subseteq> set PAIRING_CODE_ALPHABET")
  case True
  then show ?thesis using chars_count_alphabet [OF True]
    by (auto simp: pairing_code_def Let_def PAIRING_CODE_LEN_def list_all_iff)
next
  case False
  then show ?thesis by (auto simp: pairing_code_def Let_def list_all_iff)
qed

lemma pairing_code_length_first:
  "pairing_code v = Inl InvalidFormat \<Longrightarrow> chars_count v = 8"
  by (auto simp: pairing_code_def Let_def PAIRING_CODE_LEN_def split: if_splits)

lemma generate_in_alphabet:
  "list_all (\<lambda>i. i < length PAIRING_CODE_ALPHABET) draws \<Longrightarrow> set (generate_code draws) \<subseteq> set PAIRING_CODE_ALPHABET"
  by (auto simp: generate_code_def list_all_iff)

lemma generate_valid: "draws_ok draws \<Longrightarrow> pairing_code (generate_code draws) = Inr ()"
  using generate_in_alphabet [of draws]
  by (simp add: pairing_code_ok_iff draws_ok_def PAIRING_CODE_LEN_def generate_code_def)

lemma ascii_upper_alphabet: "c \<in> set PAIRING_CODE_ALPHABET \<Longrightarrow> ascii_upper c = c"
  using alphabet_ascii [of c] by (auto simp: ascii_upper_def)

definition ascii_lower :: "char \<Rightarrow> char" where
  "ascii_lower c = (if 65 \<le> char_code c \<and> char_code c \<le> 90 then char_of (char_code c + 32) else c)"

lemma ascii_upper_lower:
  "c \<in> set PAIRING_CODE_ALPHABET \<Longrightarrow> ascii_upper (ascii_lower c) = c"
  by (auto simp: PAIRING_CODE_ALPHABET_def ascii_upper_def ascii_lower_def char_code_def)

lemma ascii_lower_range:
  "c \<in> set PAIRING_CODE_ALPHABET \<Longrightarrow> 50 \<le> char_code (ascii_lower c) \<and> char_code (ascii_lower c) \<le> 122"
  by (auto simp: PAIRING_CODE_ALPHABET_def ascii_lower_def char_code_def)

text \<open>
  The shape check accepts exactly the strings of eight symbols of the alphabet, and every code
  the generator can produce passes it: whatever the eight draws below 31 are, the code is accepted.
\<close>
theorem pairing_code_exact:
  "{v. pairing_code v = Inr ()} = generate_code ` {d. draws_ok d}"
proof
  show "generate_code ` {d. draws_ok d} \<subseteq> {v. pairing_code v = Inr ()}"
    by (auto simp: generate_valid)
  show "{v. pairing_code v = Inr ()} \<subseteq> generate_code ` {d. draws_ok d}"
  proof
    fix v assume "v \<in> {v. pairing_code v = Inr ()}"
    then have v: "length v = 8" "set v \<subseteq> set PAIRING_CODE_ALPHABET"
      by (simp_all add: pairing_code_ok_iff)
    define ix where "ix c = (SOME i. i < 31 \<and> PAIRING_CODE_ALPHABET ! i = c)" for c
    have ix: "ix c < 31 \<and> PAIRING_CODE_ALPHABET ! ix c = c" if "c \<in> set v" for c
    proof -
      have "\<exists>i. i < 31 \<and> PAIRING_CODE_ALPHABET ! i = c"
        using that v(2) alphabet_length by (metis in_set_conv_nth subsetD)
      then show ?thesis unfolding ix_def by (rule someI_ex)
    qed
    have "draws_ok (map ix v)"
      using v ix by (auto simp: draws_ok_def list_all_iff PAIRING_CODE_LEN_def alphabet_length)
    moreover have "generate_code (map ix v) = v"
      using ix by (simp add: generate_code_def o_def map_idI)
    ultimately show "v \<in> generate_code ` {d. draws_ok d}" by (metis imageI mem_Collect_eq)
  qed
qed

text \<open>
  Typing a code by hand is forgiving: a generated code typed in lower case, with any Unicode
  white space before and after it, normalises to the code itself, which passes the shape check.
\<close>
theorem normalise_code_typed:
  assumes "draws_ok draws" and "set ps \<subseteq> set whitespace_chars" and "set qs \<subseteq> set whitespace_chars"
  shows "normalise_code (concat ps @ map ascii_lower (generate_code draws) @ concat qs) = generate_code draws
       \<and> pairing_code (normalise_code (concat ps @ map ascii_lower (generate_code draws) @ concat qs)) = Inr ()"
proof -
  let ?g = "generate_code draws"
  have g: "set ?g \<subseteq> set PAIRING_CODE_ALPHABET" and l: "length ?g = 8"
    using generate_valid [OF assms(1)] by (simp_all add: pairing_code_ok_iff)
  have "str_trim (concat ps @ map ascii_lower ?g @ concat qs) = map ascii_lower ?g"
  proof (rule str_trim_padding [OF assms(2,3)])
    show "map ascii_lower ?g \<noteq> []" using l by auto
    fix c assume "c \<in> set (map ascii_lower ?g)"
    then show "33 \<le> char_code c \<and> char_code c < 128"
      using g ascii_lower_range by fastforce
  qed
  moreover have "to_ascii_uppercase (map ascii_lower ?g) = ?g"
    using g by (auto simp: to_ascii_uppercase_def ascii_upper_lower intro!: map_idI)
  ultimately show ?thesis using generate_valid [OF assms(1)] by (simp add: normalise_code_def)
qed

theorem normalise_code_typed_witness:
  "normalise_code (concat ['' '', ''\<newline>''] @ map ascii_lower (generate_code [0, 1, 2, 3, 23, 24, 25, 30]) @ concat ['' ''])
     = ''ABCD2349''"
proof -
  have d: "draws_ok [0, 1, 2, 3, 23, 24, 25, 30]"
    by (simp add: draws_ok_def PAIRING_CODE_LEN_def alphabet_length)
  have w: "list_all (\<lambda>x. x \<in> set whitespace_chars) ['' '', ''\<newline>'']" by code_simp
  then have "set ['' '', ''\<newline>''] \<subseteq> set whitespace_chars" "set ['' ''] \<subseteq> set whitespace_chars"
    by simp_all
  moreover have "generate_code [0, 1, 2, 3, 23, 24, 25, 30] = ''ABCD2349''" by code_simp
  ultimately show ?thesis using normalise_code_typed [OF d] by metis
qed

lemma hash_code_length: "length (sha256 code) = 32 \<Longrightarrow> length (hash_code sha256 code) = 64"
  by (simp add: hash_code_def length_hex_lower)

lemma hash_code_inj:
  "(\<And>s. length (sha256 s) = 32) \<Longrightarrow> hash_code sha256 a = hash_code sha256 b \<Longrightarrow> sha256 a = sha256 b"
  unfolding hash_code_def by (rule hex_lower_inj) simp_all

text \<open>Every failed check is reported: the accumulator keeps them in order.\<close>

lemma val_check_collects:
  "val_finish (val_check f r v) = Inr () \<longleftrightarrow> val_finish v = Inr () \<and> r = Inr ()"
  by (auto simp: val_finish_def val_check_def val_push_def split: sum.splits)

end
