(* ===== verification/Wire.thy ===== *)
theory Wire
  imports Pairing_Code
begin

text \<open>
  \<^verbatim>\<open>crates/protocol\<close>: the types that cross the wire (scalars, rooms, users, gateway frames, error
  codes) and \<^verbatim>\<open>crates/api/src/error.rs\<close>, the one error type of every handler.  JSON text itself is
  serde's; a frame is modelled as the value serialised.
\<close>

section \<open>Scalars (scalars.rs)\<close>

text \<open>A snowflake travels as a decimal string and is parsed as an \<^verbatim>\<open>i64\<close>.\<close>

type_synonym snowflake = i64

definition snowflake_serialize :: "snowflake \<Rightarrow> string" where
  "snowflake_serialize s = show_i64 s"

definition snowflake_deserialize :: "string \<Rightarrow> snowflake option" where
  "snowflake_deserialize t = parse_i64 t"

section \<open>Users and rooms (user.rs, room.rs)\<close>

record user_summary =
  us_id :: uuid
  us_discord_user_id :: snowflake
  us_username :: string
  us_display_name :: "string option"
  us_avatar_url :: "string option"

record current_user = user_summary +
  cu_created_at :: instant

datatype publication_source = Screen | Camera

record publication =
  pb_source :: publication_source
  pb_since :: instant

record room_participant =
  rpt_user :: user_summary
  rpt_publications :: "publication list"

record room_state =
  rst_discord_channel_id :: snowflake
  rst_discord_guild_id :: snowflake
  rst_channel_name :: string
  rst_participants :: "room_participant list"

record room_token_request =
  rtq_publish :: "publication_source list"

record room_token_response =
  rtr_token :: string
  rtr_url :: string
  rtr_room :: string
  rtr_expires_in :: i64

datatype room_leave_reason = Left | AccessRevoked | ReplicaStaleReason

section \<open>Gateway frames (gateway.rs)\<close>

record ready =
  rdy_session_id :: uuid
  rdy_user :: current_user
  rdy_room :: "room_state option"
  rdy_heartbeat_interval_ms :: nat

datatype dispatch_event =
    Ready ready
  | Resumed nat
  | RoomJoin room_state
  | RoomLeave snowflake room_leave_reason
  | RoomParticipantAdd snowflake room_participant
  | RoomParticipantRemove snowflake uuid
  | ShareStart snowflake uuid publication_source instant
  | ShareStop snowflake uuid publication_source

fun event_name :: "dispatch_event \<Rightarrow> string" where
  "event_name (Ready _) = ''READY''"
| "event_name (Resumed _) = ''RESUMED''"
| "event_name (RoomJoin _) = ''ROOM_JOIN''"
| "event_name (RoomLeave _ _) = ''ROOM_LEAVE''"
| "event_name (RoomParticipantAdd _ _) = ''ROOM_PARTICIPANT_ADD''"
| "event_name (RoomParticipantRemove _ _) = ''ROOM_PARTICIPANT_REMOVE''"
| "event_name (ShareStart _ _ _ _) = ''SHARE_START''"
| "event_name (ShareStop _ _ _) = ''SHARE_STOP''"

definition op_DISPATCH :: nat where "op_DISPATCH = 0"
definition op_HELLO :: nat where "op_HELLO = 1"
definition op_IDENTIFY :: nat where "op_IDENTIFY = 2"
definition op_RESUME :: nat where "op_RESUME = 3"
definition op_HEARTBEAT :: nat where "op_HEARTBEAT = 4"
definition op_HEARTBEAT_ACK :: nat where "op_HEARTBEAT_ACK = 5"
definition op_INVALID_SESSION :: nat where "op_INVALID_SESSION = 6"
definition op_RECONNECT :: nat where "op_RECONNECT = 7"

lemmas opcodes = op_DISPATCH_def op_HELLO_def op_IDENTIFY_def op_RESUME_def op_HEARTBEAT_def
  op_HEARTBEAT_ACK_def op_INVALID_SESSION_def op_RECONNECT_def

definition close_UNKNOWN :: nat where "close_UNKNOWN = 4000"
definition close_AUTHENTICATION_FAILED :: nat where "close_AUTHENTICATION_FAILED = 4001"
definition close_DECODE_ERROR :: nat where "close_DECODE_ERROR = 4002"
definition close_NOT_AUTHENTICATED :: nat where "close_NOT_AUTHENTICATED = 4003"
definition close_RATE_LIMITED :: nat where "close_RATE_LIMITED = 4008"
definition close_VERSION_TOO_OLD :: nat where "close_VERSION_TOO_OLD = 4010"

definition IDENTIFY_TIMEOUT_MS :: int where "IDENTIFY_TIMEOUT_MS = 10000"
definition MAX_FRAMES_PER_WINDOW :: nat where "MAX_FRAMES_PER_WINDOW = 30"
definition FRAME_WINDOW_MS :: int where "FRAME_WINDOW_MS = 60000"
definition MAX_FRAME_BYTES :: nat where "MAX_FRAME_BYTES = 4096"

record dispatch_frame =
  df_op :: nat
  df_s :: u64
  df_event :: dispatch_event

definition dispatch_frame_new :: "u64 \<Rightarrow> dispatch_event \<Rightarrow> dispatch_frame" where
  "dispatch_frame_new seq e = \<lparr>df_op = op_DISPATCH, df_s = seq, df_event = e\<rparr>"

text \<open>What goes out on a socket: a control frame (opcode and payload) or a dispatch.\<close>

datatype server_frame =
    Control nat
  | HelloFrame int int
  | InvalidSession bool
  | Dispatch dispatch_frame

record identify =
  idn_token :: string
  idn_version :: string
  idn_os :: string

record resume_payload =
  rsm_token :: string
  rsm_session_id :: uuid
  rsm_last_seq :: u64

section \<open>Errors (protocol/error.rs, api/error.rs)\<close>

datatype error_code =
    EcValidationFailed | EcUnauthenticated | EcTokenExpired | EcTokenReused | EcForbidden
  | EcNotFound | EcConflict | EcPayloadTooLarge | EcRateLimited | EcInternal | EcRoomCapacity
  | EcReplicaStale | EcUpstreamFailure

fun ecode_as_str :: "error_code \<Rightarrow> string" where
  "ecode_as_str EcValidationFailed = ''VALIDATION_FAILED''"
| "ecode_as_str EcUnauthenticated = ''UNAUTHENTICATED''"
| "ecode_as_str EcTokenExpired = ''TOKEN_EXPIRED''"
| "ecode_as_str EcTokenReused = ''TOKEN_REUSED''"
| "ecode_as_str EcForbidden = ''FORBIDDEN''"
| "ecode_as_str EcNotFound = ''NOT_FOUND''"
| "ecode_as_str EcConflict = ''CONFLICT''"
| "ecode_as_str EcPayloadTooLarge = ''PAYLOAD_TOO_LARGE''"
| "ecode_as_str EcRateLimited = ''RATE_LIMITED''"
| "ecode_as_str EcInternal = ''INTERNAL''"
| "ecode_as_str EcRoomCapacity = ''ROOM_CAPACITY''"
| "ecode_as_str EcReplicaStale = ''REPLICA_STALE''"
| "ecode_as_str EcUpstreamFailure = ''UPSTREAM_FAILURE''"

datatype app_error =
    Unauthorized | TokenExpired | TokenReused | Forbidden | NotFound string
  | Validation "(string \<times> string) list" | Conflict string | RateLimited nat | PayloadTooLarge
  | RoomCapacity | ReplicaStale | Upstream string | Internal string

definition invisible :: "string \<Rightarrow> app_error" where
  "invisible resource = NotFound resource"

fun app_status :: "app_error \<Rightarrow> nat" where
  "app_status Unauthorized = 401"
| "app_status TokenExpired = 401"
| "app_status TokenReused = 401"
| "app_status Forbidden = 403"
| "app_status (NotFound _) = 404"
| "app_status (Validation _) = 400"
| "app_status (Conflict _) = 409"
| "app_status RoomCapacity = 409"
| "app_status (RateLimited _) = 429"
| "app_status PayloadTooLarge = 413"
| "app_status ReplicaStale = 503"
| "app_status (Upstream _) = 502"
| "app_status (Internal _) = 500"

fun app_code :: "app_error \<Rightarrow> error_code" where
  "app_code Unauthorized = EcUnauthenticated"
| "app_code TokenExpired = EcTokenExpired"
| "app_code TokenReused = EcTokenReused"
| "app_code Forbidden = EcForbidden"
| "app_code (NotFound _) = EcNotFound"
| "app_code (Validation _) = EcValidationFailed"
| "app_code (Conflict _) = EcConflict"
| "app_code (RateLimited _) = EcRateLimited"
| "app_code PayloadTooLarge = EcPayloadTooLarge"
| "app_code RoomCapacity = EcRoomCapacity"
| "app_code ReplicaStale = EcReplicaStale"
| "app_code (Upstream _) = EcUpstreamFailure"
| "app_code (Internal _) = EcInternal"

fun app_details :: "app_error \<Rightarrow> (string \<times> string) list option" where
  "app_details (Validation fs) = Some fs"
| "app_details _ = None"

definition app_of_fields :: "field_error list \<Rightarrow> app_error" where
  "app_of_fields es = Validation (map (\<lambda>e. (fe_field e, vcode_as_str (fe_code e))) es)"

datatype db_error = DbNotFound string | DbConflict string | DbSqlx string

fun app_of_db :: "db_error \<Rightarrow> app_error" where
  "app_of_db (DbNotFound r) = NotFound r"
| "app_of_db (DbConflict r) = Conflict r"
| "app_of_db (DbSqlx e) = Internal e"

text \<open>
  \<^verbatim>\<open>IntoResponse\<close>: status, stable code, details, request id and the \<^verbatim>\<open>Retry-After\<close> header in whole
  seconds.  The Portuguese message depends on the variant only and is left out.
\<close>

record error_response =
  er_status :: nat
  er_code :: string
  er_details :: "(string \<times> string) list option"
  er_request_id :: string
  er_retry_after :: "nat option"

definition div_ceil :: "nat \<Rightarrow> nat \<Rightarrow> nat" where
  "div_ceil a b = (a + b - 1) div b"

definition into_response :: "string \<Rightarrow> app_error \<Rightarrow> error_response" where
  "into_response request_id e =
     \<lparr>er_status = app_status e, er_code = ecode_as_str (app_code e), er_details = app_details e,
      er_request_id = request_id,
      er_retry_after = (case e of RateLimited ms \<Rightarrow> Some (max (div_ceil ms 1000) 1) | _ \<Rightarrow> None)\<rparr>"

section \<open>Properties\<close>

text \<open>
  A Discord id survives the wire: every 64-bit id is read back from its decimal string as itself,
  also above \<open>2 ^ 53\<close>, and two ids never share a string.
\<close>
theorem snowflake_roundtrip:
  "(\<forall>s. snowflake_deserialize (snowflake_serialize s) = Some s) \<and> inj snowflake_serialize"
  by (auto simp: snowflake_deserialize_def snowflake_serialize_def inj_def dest: show_i64_inj)

lemma ecode_as_str_inj: "ecode_as_str a = ecode_as_str b \<Longrightarrow> a = b"
  by (cases a; cases b) simp_all

lemma db_never_forbidden: "app_status (app_of_db e) \<noteq> 403"
  by (cases e) simp_all

lemma retry_after_covers:
  "er_retry_after (into_response r (RateLimited ms)) = Some k \<Longrightarrow> ms \<le> 1000 * k \<and> 1 \<le> k"
proof -
  assume "er_retry_after (into_response r (RateLimited ms)) = Some k"
  then have k: "k = max ((ms + 1000 - 1) div 1000) 1" by (simp add: into_response_def div_ceil_def)
  have "ms \<le> 1000 * ((ms + 1000 - 1) div 1000)" by linarith
  with k show ?thesis by linarith
qed

end
