(* ===== verification/Presence.thy ===== *)
theory Presence
  imports Wire
begin

text \<open>
  \<^verbatim>\<open>crates/db/src/repo/users.rs\<close>, \<^verbatim>\<open>presence.rs\<close> and \<^verbatim>\<open>sessions.rs\<close>: the tables \<^verbatim>\<open>users\<close>,
  \<^verbatim>\<open>room_presence\<close> and \<^verbatim>\<open>share_sessions\<close> (migrations 20260101000001, 20260101000003 and later) and each
  SQL statement the repositories run, as a function of the table.  \<^verbatim>\<open>NOW()\<close> is an argument.  A
  primary key is the key of a map; a foreign key violation is \<open>DbSqlx\<close>.  Failures of the connection
  itself are not modelled.  The locale \<open>presence_store\<close> is the contract the room service relies on.
\<close>

section \<open>users\<close>

record user_row =
  ur_id :: uuid
  ur_discord_user_id :: i64
  ur_username :: string
  ur_display_name :: "string option"
  ur_avatar_url :: "string option"
  ur_created_at :: instant

type_synonym users = "(uuid, user_row) hmap"

definition user_to_summary :: "user_row \<Rightarrow> user_summary" where
  "user_to_summary u = \<lparr>us_id = ur_id u, us_discord_user_id = ur_discord_user_id u,
     us_username = ur_username u, us_display_name = ur_display_name u, us_avatar_url = ur_avatar_url u\<rparr>"

definition user_to_current :: "user_row \<Rightarrow> current_user" where
  "user_to_current u = \<lparr>us_id = ur_id u, us_discord_user_id = ur_discord_user_id u,
     us_username = ur_username u, us_display_name = ur_display_name u, us_avatar_url = ur_avatar_url u,
     cu_created_at = ur_created_at u\<rparr>"

definition users_find_by_id :: "users \<Rightarrow> uuid \<Rightarrow> db_error + user_row" where
  "users_find_by_id t i = (case hm_get t i of None \<Rightarrow> Inl (DbNotFound ''user'') | Some r \<Rightarrow> Inr r)"

definition users_find_by_discord_id :: "users \<Rightarrow> i64 \<Rightarrow> user_row option" where
  "users_find_by_discord_id t d = find (\<lambda>r. ur_discord_user_id r = d) (hm_values t)"

text \<open>\<open>discord_user_id\<close> is unique: an existing account keeps its id and creation time.\<close>

definition users_upsert_from_discord ::
  "instant \<Rightarrow> uuid \<Rightarrow> i64 \<Rightarrow> string \<Rightarrow> string option \<Rightarrow> string option \<Rightarrow> users \<Rightarrow> users \<times> user_row" where
  "users_upsert_from_discord now i d name display avatar t =
     (case users_find_by_discord_id t d of
        Some r \<Rightarrow> (let r' = r\<lparr>ur_username := name, ur_display_name := display, ur_avatar_url := avatar\<rparr>
                  in (hm_insert (ur_id r) r' t, r'))
      | None \<Rightarrow> (let r' = \<lparr>ur_id = i, ur_discord_user_id = d, ur_username = name, ur_display_name = display,
                          ur_avatar_url = avatar, ur_created_at = now\<rparr>
                in (hm_insert i r' t, r')))"

definition users_ok :: "users \<Rightarrow> bool" where
  "users_ok t \<longleftrightarrow> hm_ok t \<and> (\<forall>i r. hm_get t i = Some r \<longrightarrow> ur_id r = i) \<and>
     (\<forall>i j r q. hm_get t i = Some r \<and> hm_get t j = Some q \<and> ur_discord_user_id r = ur_discord_user_id q \<longrightarrow> i = j)"

lemma users_find_discord_iff:
  assumes "users_ok t"
  shows "users_find_by_discord_id t d = Some u \<longleftrightarrow> hm_get t (ur_id u) = Some u \<and> ur_discord_user_id u = d"
proof -
  have hm: "hm_ok t" and key: "\<And>i r. hm_get t i = Some r \<Longrightarrow> ur_id r = i"
    and inj: "\<And>i j r q. hm_get t i = Some r \<Longrightarrow> hm_get t j = Some q \<Longrightarrow> ur_discord_user_id r = ur_discord_user_id q \<Longrightarrow> i = j"
    using assms unfolding users_ok_def by blast+
  have val: "v \<in> set (hm_values t) \<longleftrightarrow> hm_get t (ur_id v) = Some v" for v
    using hm_in_values_iff [OF hm, of v] key by metis
  have "find (\<lambda>r. ur_discord_user_id r = d) (hm_values t) = Some u \<longleftrightarrow> u \<in> set (hm_values t) \<and> ur_discord_user_id u = d"
  proof (rule find_unique_iff)
    fix x y assume "x \<in> set (hm_values t)" "y \<in> set (hm_values t)" and d: "ur_discord_user_id x = d" "ur_discord_user_id y = d"
    then have x: "hm_get t (ur_id x) = Some x" and y: "hm_get t (ur_id y) = Some y" by (simp_all only: val)
    from inj [OF x y] d have "ur_id x = ur_id y" by simp
    with x y show "x = y" by (metis option.inject)
  qed
  then show ?thesis unfolding users_find_by_discord_id_def val .
qed

lemma users_insert_ok:
  assumes ok: "users_ok t" and key: "ur_id r = i"
    and uniq: "\<And>j q. hm_get t j = Some q \<Longrightarrow> ur_discord_user_id q = ur_discord_user_id r \<Longrightarrow> j = i"
  shows "users_ok (hm_insert i r t)"
  unfolding users_ok_def
proof (intro conjI allI impI)
  show "hm_ok (hm_insert i r t)" using ok by (simp add: users_ok_def)
  fix j q assume "hm_get (hm_insert i r t) j = Some q"
  with ok key show "ur_id q = j" by (simp add: users_ok_def split: if_splits)
next
  fix a b q p
  assume "hm_get (hm_insert i r t) a = Some q \<and> hm_get (hm_insert i r t) b = Some p \<and> ur_discord_user_id q = ur_discord_user_id p"
  then have q: "if a = i then q = r else hm_get t a = Some q" and p: "if b = i then p = r else hm_get t b = Some p"
    and eq: "ur_discord_user_id q = ur_discord_user_id p" by (auto split: if_splits)
  show "a = b"
  proof (cases "a = i \<or> b = i")
    case True
    then show ?thesis
    proof
      assume a: "a = i"
      show ?thesis
      proof (cases "b = i")
        case False
        with a q p eq have "hm_get t b = Some p" "ur_discord_user_id p = ur_discord_user_id r" by simp_all
        from uniq [OF this] a show ?thesis by simp
      qed (use a in simp)
    next
      assume b: "b = i"
      show ?thesis
      proof (cases "a = i")
        case False
        with b q p eq have "hm_get t a = Some q" "ur_discord_user_id q = ur_discord_user_id r" by simp_all
        from uniq [OF this] b show ?thesis by simp
      qed (use b in simp)
    qed
  next
    case False
    with q p have "hm_get t a = Some q" "hm_get t b = Some p" by simp_all
    with eq ok show ?thesis unfolding users_ok_def by blast
  qed
qed

lemma users_upsert_ok:
  assumes ok: "users_ok t"
  shows "users_ok (fst (users_upsert_from_discord now i d name disp av t))"
proof (cases "users_find_by_discord_id t d")
  case None
  have no: "ur_discord_user_id r \<noteq> d" if "hm_get t j = Some r" for j r
    using None hm_get_in_values [OF that] by (auto simp: users_find_by_discord_id_def find_None_iff)
  show ?thesis using None no
    by (auto simp: users_upsert_from_discord_def Let_def intro!: users_insert_ok [OF ok])
next
  case (Some r)
  then have r: "hm_get t (ur_id r) = Some r" "ur_discord_user_id r = d"
    using users_find_discord_iff [OF ok] by simp_all
  have u: "j = ur_id r" if "hm_get t j = Some q" "ur_discord_user_id q = d" for j q
    using that r ok unfolding users_ok_def by blast
  have "users_ok (hm_insert (ur_id r) (r\<lparr>ur_username := name, ur_display_name := disp, ur_avatar_url := av\<rparr>) t)"
  proof (rule users_insert_ok [OF ok])
    fix j q assume q: "hm_get t j = Some q"
      and "ur_discord_user_id q = ur_discord_user_id (r\<lparr>ur_username := name, ur_display_name := disp, ur_avatar_url := av\<rparr>)"
    with r(2) have "ur_discord_user_id q = d" by simp
    with q show "j = ur_id r" by (rule u)
  qed simp
  then show ?thesis using Some by (simp add: users_upsert_from_discord_def Let_def)
qed

lemma users_upsert_found:
  assumes "users_ok t"
  shows "\<exists>u. users_find_by_discord_id (fst (users_upsert_from_discord now i d name disp av t)) d = Some u \<and>
    ur_discord_user_id u = d \<and> hm_get (fst (users_upsert_from_discord now i d name disp av t)) (ur_id u) = Some u"
proof -
  let ?u = "snd (users_upsert_from_discord now i d name disp av t)"
  have "hm_get (fst (users_upsert_from_discord now i d name disp av t)) (ur_id ?u) = Some ?u" "ur_discord_user_id ?u = d"
    using users_find_discord_iff [OF assms(1), of d]
    by (auto simp: users_upsert_from_discord_def Let_def split: option.split)
  with users_find_discord_iff [OF users_upsert_ok [OF assms]] show ?thesis by blast
qed

section \<open>room_presence\<close>

record presence_row =
  pr_discord_channel_id :: i64
  pr_publishing :: bool
  pr_joined_at :: instant
  pr_screen_since :: "instant option"
  pr_camera_since :: "instant option"

type_synonym presence = "(uuid, presence_row) hmap"

record participant_row =
  pa_user_id :: uuid
  pa_discord_user_id :: i64
  pa_username :: string
  pa_display_name :: "string option"
  pa_avatar_url :: "string option"
  pa_publishing :: bool
  pa_joined_at :: instant
  pa_screen_since :: "instant option"
  pa_camera_since :: "instant option"

definition participant_to_wire :: "participant_row \<Rightarrow> room_participant" where
  "participant_to_wire p =
     \<lparr>rpt_user = \<lparr>us_id = pa_user_id p, us_discord_user_id = pa_discord_user_id p, us_username = pa_username p,
        us_display_name = pa_display_name p, us_avatar_url = pa_avatar_url p\<rparr>,
      rpt_publications = List.map_filter (\<lambda>(src, since). map_option (\<lambda>t. \<lparr>pb_source = src, pb_since = t\<rparr>) since)
        [(Screen, pa_screen_since p), (Camera, pa_camera_since p)]\<rparr>"

definition pr_since :: "presence_row \<Rightarrow> publication_source \<Rightarrow> instant option" where
  "pr_since r s = (case s of Screen \<Rightarrow> pr_screen_since r | Camera \<Rightarrow> pr_camera_since r)"

definition presence_join :: "instant \<Rightarrow> users \<Rightarrow> uuid \<Rightarrow> i64 \<Rightarrow> presence \<Rightarrow> db_error + presence" where
  "presence_join now us u ch t =
     (if hm_get us u = None then Inl (DbSqlx ''room_presence_user_id_fkey'')
      else Inr (hm_insert u \<lparr>pr_discord_channel_id = ch, pr_publishing = False, pr_joined_at = now,
                  pr_screen_since = None, pr_camera_since = None\<rparr> t))"

definition presence_leave :: "uuid \<Rightarrow> presence \<Rightarrow> presence \<times> i64 option" where
  "presence_leave u t = (hm_remove u t, map_option pr_discord_channel_id (hm_get t u))"

definition coalesce :: "'a option \<Rightarrow> 'a \<Rightarrow> 'a" where
  "coalesce x y = (case x of None \<Rightarrow> y | Some z \<Rightarrow> z)"

record started_publication =
  stp_discord_channel_id :: i64
  stp_since :: instant

definition start_publication :: "instant \<Rightarrow> uuid \<Rightarrow> publication_source \<Rightarrow> presence \<Rightarrow> presence \<times> started_publication option" where
  "start_publication now u src t =
     (case hm_get t u of
        None \<Rightarrow> (t, None)
      | Some r \<Rightarrow>
         (let since = coalesce (pr_since r src) now;
              r' = (case src of Screen \<Rightarrow> r\<lparr>pr_screen_since := Some since, pr_publishing := True\<rparr>
                            | Camera \<Rightarrow> r\<lparr>pr_camera_since := Some since, pr_publishing := True\<rparr>)
          in (hm_insert u r' t, Some \<lparr>stp_discord_channel_id = pr_discord_channel_id r, stp_since = since\<rparr>)))"

record stopped_publication =
  spp_discord_channel_id :: i64
  spp_still_publishing :: bool

definition stop_publication :: "uuid \<Rightarrow> publication_source \<Rightarrow> presence \<Rightarrow> presence \<times> stopped_publication option" where
  "stop_publication u src t =
     (case hm_get t u of
        None \<Rightarrow> (t, None)
      | Some r \<Rightarrow>
         (let r' = (case src of
                Screen \<Rightarrow> r\<lparr>pr_screen_since := None, pr_publishing := pr_camera_since r \<noteq> None\<rparr>
              | Camera \<Rightarrow> r\<lparr>pr_camera_since := None, pr_publishing := pr_screen_since r \<noteq> None\<rparr>)
          in (hm_insert u r' t, Some \<lparr>spp_discord_channel_id = pr_discord_channel_id r, spp_still_publishing = pr_publishing r'\<rparr>)))"

record cleared_publications =
  clp_discord_channel_id :: i64
  clp_had_screen :: bool
  clp_had_camera :: bool

definition clear_publications :: "uuid \<Rightarrow> presence \<Rightarrow> presence \<times> cleared_publications option" where
  "clear_publications u t =
     (case hm_get t u of
        None \<Rightarrow> (t, None)
      | Some r \<Rightarrow>
         (hm_insert u (r\<lparr>pr_screen_since := None, pr_camera_since := None, pr_publishing := False\<rparr>) t,
          Some \<lparr>clp_discord_channel_id = pr_discord_channel_id r,
            clp_had_screen = (pr_screen_since r \<noteq> None), clp_had_camera = (pr_camera_since r \<noteq> None)\<rparr>))"

definition cleared_sources :: "cleared_publications \<Rightarrow> publication_source list" where
  "cleared_sources c =
     List.map_filter (\<lambda>(src, live). if live then Some src else None)
       [(Screen, clp_had_screen c), (Camera, clp_had_camera c)]"

text \<open>The join with \<^verbatim>\<open>users\<close>, ordered by \<^verbatim>\<open>joined_at\<close> (ties in table order).\<close>

definition participant_of :: "users \<Rightarrow> uuid \<times> presence_row \<Rightarrow> participant_row option" where
  "participant_of us p =
     (case p of (u, r) \<Rightarrow> map_option (\<lambda>w.
        \<lparr>pa_user_id = u, pa_discord_user_id = ur_discord_user_id w, pa_username = ur_username w,
         pa_display_name = ur_display_name w, pa_avatar_url = ur_avatar_url w, pa_publishing = pr_publishing r,
         pa_joined_at = pr_joined_at r, pa_screen_since = pr_screen_since r, pa_camera_since = pr_camera_since r\<rparr>)
        (hm_get us u))"

definition list_by_channel :: "users \<Rightarrow> presence \<Rightarrow> i64 \<Rightarrow> participant_row list" where
  "list_by_channel us t ch =
     sort_key pa_joined_at (List.map_filter (participant_of us) (filter (\<lambda>(u, r). pr_discord_channel_id r = ch) t))"

definition channel_of :: "presence \<Rightarrow> uuid \<Rightarrow> i64 option" where
  "channel_of t u = map_option pr_discord_channel_id (hm_get t u)"

definition publisher_count :: "presence \<Rightarrow> i64 \<Rightarrow> publication_source \<Rightarrow> nat" where
  "publisher_count t ch src =
     length (filter (\<lambda>(u, r). pr_discord_channel_id r = ch \<and> pr_since r src \<noteq> None) t)"

definition occupied_channels :: "presence \<Rightarrow> i64 list" where
  "occupied_channels t = remdups (map pr_discord_channel_id (hm_values t))"

definition clear_channel :: "i64 \<Rightarrow> presence \<Rightarrow> presence \<times> nat" where
  "clear_channel ch t =
     (let t' = hm_retain (\<lambda>_ r. pr_discord_channel_id r \<noteq> ch) t in (t', length t - length t'))"

section \<open>The contract of presence\<close>

definition publishing_derived :: "presence_row \<Rightarrow> bool" where
  "publishing_derived r \<longleftrightarrow> (pr_publishing r \<longleftrightarrow> pr_screen_since r \<noteq> None \<or> pr_camera_since r \<noteq> None)"

definition presence_ok :: "presence \<Rightarrow> bool" where
  "presence_ok t \<longleftrightarrow> hm_ok t \<and> (\<forall>u r. hm_get t u = Some r \<longrightarrow> publishing_derived r)"

definition since_of :: "presence \<Rightarrow> uuid \<Rightarrow> publication_source \<Rightarrow> instant option" where
  "since_of t u src = Option.bind (hm_get t u) (\<lambda>r. pr_since r src)"

definition live_in :: "presence \<Rightarrow> uuid \<Rightarrow> bool" where
  "live_in t u = (case hm_get t u of None \<Rightarrow> False | Some r \<Rightarrow> pr_publishing r)"

text \<open>
  What the room service needs to know of the table: where a person is, and since when each of their
  two publications is on the air.
\<close>

locale presence_store =
  fixes at_channel :: "'p \<Rightarrow> 'u \<Rightarrow> 'c option"
    and since :: "'p \<Rightarrow> 'u \<Rightarrow> publication_source \<Rightarrow> instant option"
    and live :: "'p \<Rightarrow> 'u \<Rightarrow> bool"
    and start :: "instant \<Rightarrow> 'u \<Rightarrow> publication_source \<Rightarrow> 'p \<Rightarrow> 'p"
    and stop :: "'u \<Rightarrow> publication_source \<Rightarrow> 'p \<Rightarrow> 'p"
    and clear :: "'u \<Rightarrow> 'p \<Rightarrow> 'p"
    and leave :: "'u \<Rightarrow> 'p \<Rightarrow> 'p"
    and ok :: "'p \<Rightarrow> bool"
  assumes since_start: "since (start t u s p) v s' =
      (if v = u \<and> s' = s \<and> at_channel p u \<noteq> None then Some (coalesce (since p u s) t) else since p v s')"
    and since_stop: "since (stop u s p) v s' = (if v = u \<and> s' = s then None else since p v s')"
    and since_clear: "since (clear u p) v s' = (if v = u then None else since p v s')"
    and since_leave: "since (leave u p) v s' = (if v = u then None else since p v s')"
    and channel_start: "at_channel (start t u s p) v = at_channel p v"
    and channel_stop: "at_channel (stop u s p) v = at_channel p v"
    and channel_clear: "at_channel (clear u p) v = at_channel p v"
    and channel_leave: "at_channel (leave u p) v = (if v = u then None else at_channel p v)"
    and live_iff: "ok p \<Longrightarrow> live p u \<longleftrightarrow> (\<exists>s. since p u s \<noteq> None)"
    and ok_start: "ok p \<Longrightarrow> ok (start t u s p)"
    and ok_stop: "ok p \<Longrightarrow> ok (stop u s p)"
    and ok_clear: "ok p \<Longrightarrow> ok (clear u p)"
    and ok_leave: "ok p \<Longrightarrow> ok (leave u p)"
begin

lemma restart_keeps_clock: "since (start t2 u s (start t1 u s p)) v s' = since (start t1 u s p) v s'"
  by (auto simp: since_start channel_start coalesce_def)

lemma stop_keeps_other: "s' \<noteq> s \<Longrightarrow> since (stop u s p) u s' = since p u s'"
  by (simp add: since_stop)

lemma stop_live: "ok p \<Longrightarrow> live (stop u s p) u \<longleftrightarrow> (\<exists>s'. s' \<noteq> s \<and> since p u s' \<noteq> None)"
  by (auto simp: live_iff [OF ok_stop] since_stop split: if_splits)

lemma start_live: "ok p \<Longrightarrow> at_channel p u \<noteq> None \<Longrightarrow> live (start t u s p) u"
  by (auto simp: live_iff [OF ok_start] since_start)

lemma clear_not_live: "ok p \<Longrightarrow> \<not> live (clear u p) u"
  by (simp add: live_iff [OF ok_clear] since_clear)

lemma leave_not_live: "ok p \<Longrightarrow> \<not> live (leave u p) u"
  by (simp add: live_iff [OF ok_leave] since_leave)

lemma frame_other:
  "ok p \<Longrightarrow> v \<noteq> u \<Longrightarrow> live (start t u s p) v = live p v \<and> live (stop u s p) v = live p v \<and>
     live (clear u p) v = live p v \<and> live (leave u p) v = live p v"
  by (simp add: live_iff ok_start ok_stop ok_clear ok_leave since_start since_stop since_clear since_leave)

end

lemma ex_source: "(\<exists>s. P s) \<longleftrightarrow> P Screen \<or> P Camera"
  by (metis publication_source.exhaust)

lemma presence_okD: "presence_ok t \<Longrightarrow> hm_get t u = Some r \<Longrightarrow> publishing_derived r"
  by (simp add: presence_ok_def)

lemma presence_ok_insert: "presence_ok t \<Longrightarrow> publishing_derived r \<Longrightarrow> presence_ok (hm_insert u r t)"
  by (simp add: presence_ok_def)

interpretation pres: presence_store channel_of since_of live_in
  "\<lambda>now u s p. fst (start_publication now u s p)" "\<lambda>u s p. fst (stop_publication u s p)"
  "\<lambda>u p. fst (clear_publications u p)" "\<lambda>u p. fst (presence_leave u p)" presence_ok
proof
  fix p :: presence and u :: uuid
  assume ok: "presence_ok p"
  show "live_in p u \<longleftrightarrow> (\<exists>s. since_of p u s \<noteq> None)"
    using presence_okD [OF ok, of u]
    by (cases "hm_get p u") (auto simp: live_in_def since_of_def pr_since_def publishing_derived_def ex_source)
  fix t s
  show "presence_ok (fst (start_publication t u s p))" "presence_ok (fst (stop_publication u s p))"
    "presence_ok (fst (clear_publications u p))"
    using ok by (auto simp: start_publication_def stop_publication_def clear_publications_def Let_def
        publishing_derived_def intro!: presence_ok_insert split: option.split publication_source.split)
  show "presence_ok (fst (presence_leave u p))"
    using ok by (auto simp: presence_ok_def presence_leave_def split: if_splits)
qed (auto simp: since_of_def channel_of_def start_publication_def stop_publication_def clear_publications_def
    presence_leave_def pr_since_def Let_def split: option.splits publication_source.splits)

lemma presence_join_ok: "presence_ok t \<Longrightarrow> presence_join now us u ch t = Inr t' \<Longrightarrow> presence_ok t'"
  by (auto simp: presence_join_def publishing_derived_def intro!: presence_ok_insert split: if_splits)

lemma clear_channel_ok: "presence_ok t \<Longrightarrow> presence_ok (fst (clear_channel ch t))"
  by (auto simp: clear_channel_def presence_ok_def Let_def split: option.splits if_splits)

end
