(* ===== verification/Share_Sessions.thy ===== *)
theory Share_Sessions
  imports Ldk_Prelude
begin

text \<open>
  \<^verbatim>\<open>crates/db/src/repo/sessions.rs\<close>: the table \<^verbatim>\<open>share_sessions\<close> and its statements.  The partial unique
  index \<^verbatim>\<open>idx_sessions_open_publisher\<close> is the invariant \<open>one_open\<close>: at most one open session per
  channel and publisher, which \<open>sessions_open\<close> keeps because it returns the open row when there is one.
\<close>

record share_session =
  sh_id :: uuid
  sh_discord_channel_id :: i64
  sh_publisher_id :: uuid
  sh_started_at :: instant
  sh_ended_at :: "instant option"
  sh_peak_viewers :: int
  sh_egress_bytes :: int

type_synonym share_sessions = "share_session list"

definition is_open :: "i64 \<Rightarrow> uuid \<Rightarrow> share_session \<Rightarrow> bool" where
  "is_open ch pub r \<longleftrightarrow> sh_discord_channel_id r = ch \<and> sh_publisher_id r = pub \<and> sh_ended_at r = None"

definition sessions_open :: "instant \<Rightarrow> uuid \<Rightarrow> i64 \<Rightarrow> uuid \<Rightarrow> share_sessions \<Rightarrow> share_sessions \<times> share_session" where
  "sessions_open now i ch pub t =
     (case find (is_open ch pub) t of
        Some r \<Rightarrow> (t, r)
      | None \<Rightarrow> (let r = \<lparr>sh_id = i, sh_discord_channel_id = ch, sh_publisher_id = pub, sh_started_at = now,
                        sh_ended_at = None, sh_peak_viewers = 0, sh_egress_bytes = 0\<rparr> in (t @ [r], r)))"

definition sessions_close :: "i64 \<Rightarrow> uuid \<Rightarrow> instant \<Rightarrow> share_sessions \<Rightarrow> share_sessions \<times> uuid option" where
  "sessions_close ch pub now t =
     (map (\<lambda>r. if is_open ch pub r then r\<lparr>sh_ended_at := Some now\<rparr> else r) t,
      map_option sh_id (find (is_open ch pub) t))"

definition observe_viewers :: "i64 \<Rightarrow> int \<Rightarrow> share_sessions \<Rightarrow> share_sessions" where
  "observe_viewers ch viewers t =
     map (\<lambda>r. if sh_discord_channel_id r = ch \<and> sh_ended_at r = None
              then r\<lparr>sh_peak_viewers := max (sh_peak_viewers r) viewers\<rparr> else r) t"

definition add_egress :: "uuid \<Rightarrow> int \<Rightarrow> share_sessions \<Rightarrow> share_sessions" where
  "add_egress i bytes t = map (\<lambda>r. if sh_id r = i then r\<lparr>sh_egress_bytes := sh_egress_bytes r + bytes\<rparr> else r) t"

definition egress_since :: "instant \<Rightarrow> share_sessions \<Rightarrow> int" where
  "egress_since since t = sum_list (map sh_egress_bytes (filter (\<lambda>r. since \<le> sh_started_at r) t))"

definition close_all_open :: "instant \<Rightarrow> share_sessions \<Rightarrow> share_sessions \<times> nat" where
  "close_all_open now t =
     (map (\<lambda>r. if sh_ended_at r = None then r\<lparr>sh_ended_at := Some now\<rparr> else r) t,
      length (filter (\<lambda>r. sh_ended_at r = None) t))"

section \<open>At most one open session\<close>

definition open_count :: "i64 \<Rightarrow> uuid \<Rightarrow> share_sessions \<Rightarrow> nat" where
  "open_count ch pub t = length (filter (is_open ch pub) t)"

definition one_open :: "share_sessions \<Rightarrow> bool" where
  "one_open t \<longleftrightarrow> (\<forall>ch pub. open_count ch pub t \<le> 1)"

definition has_open :: "i64 \<Rightarrow> uuid \<Rightarrow> share_sessions \<Rightarrow> bool" where
  "has_open ch pub t \<longleftrightarrow> (\<exists>r \<in> set t. is_open ch pub r)"

lemma open_count_0: "open_count ch pub t = 0 \<longleftrightarrow> \<not> has_open ch pub t"
  by (simp add: open_count_def has_open_def filter_empty_conv)

lemma open_count_map:
  "(\<And>r. r \<in> set t \<Longrightarrow> is_open ch pub (f r) \<longleftrightarrow> is_open ch pub r) \<Longrightarrow> open_count ch pub (map f t) = open_count ch pub t"
  by (induction t) (auto simp: open_count_def)

lemma open_count_open:
  "open_count c p (fst (sessions_open now i ch pub t)) =
     (if c = ch \<and> p = pub \<and> \<not> has_open ch pub t then 1 else open_count c p t)"
proof (cases "find (is_open ch pub) t")
  case None
  then have "\<not> has_open ch pub t" by (auto simp: find_None_iff has_open_def)
  moreover from this have "open_count ch pub t = 0" by (simp add: open_count_0)
  ultimately show ?thesis
    using None by (auto simp: sessions_open_def open_count_def is_open_def Let_def)
next
  case (Some r)
  then have "has_open ch pub t" using find_Some_in [OF Some] by (auto simp: has_open_def)
  with Some show ?thesis by (simp add: sessions_open_def)
qed

lemma not_open_once_ended: "\<not> is_open ch pub (if is_open ch pub r then r\<lparr>sh_ended_at := Some now\<rparr> else r)"
  by (cases "is_open ch pub r") (simp_all add: is_open_def)

lemma open_count_close:
  "open_count c p (fst (sessions_close ch pub now t)) = (if c = ch \<and> p = pub then 0 else open_count c p t)"
proof (cases "c = ch \<and> p = pub")
  case True
  have "open_count ch pub (fst (sessions_close ch pub now t)) = 0"
    using not_open_once_ended [of ch pub _ now]
    unfolding open_count_0 has_open_def sessions_close_def fst_conv set_map by blast
  with True show ?thesis by simp
next
  case False
  then have "open_count c p (map (\<lambda>r. if is_open ch pub r then r\<lparr>sh_ended_at := Some now\<rparr> else r) t) = open_count c p t"
    by (intro open_count_map) (auto simp: is_open_def)
  with False show ?thesis by (auto simp: sessions_close_def)
qed

lemma open_count_observe: "open_count c p (observe_viewers ch n t) = open_count c p t"
  unfolding observe_viewers_def by (rule open_count_map) (simp add: is_open_def)

lemma open_count_add_egress: "open_count c p (add_egress i n t) = open_count c p t"
  unfolding add_egress_def by (rule open_count_map) (simp add: is_open_def)

lemma open_count_close_all: "open_count c p (fst (close_all_open now t)) = 0"
  by (auto simp: close_all_open_def open_count_def is_open_def filter_empty_conv)

lemmas open_counts = open_count_open open_count_close open_count_observe open_count_add_egress open_count_close_all

lemma has_open_iff_count: "has_open ch pub t \<longleftrightarrow> open_count ch pub t \<noteq> 0"
  by (simp add: open_count_0)

lemma has_open_ops:
  "has_open c p (fst (sessions_open now i ch pub t)) \<longleftrightarrow> (c = ch \<and> p = pub) \<or> has_open c p t"
  "has_open c p (fst (sessions_close ch pub now t)) \<longleftrightarrow> \<not> (c = ch \<and> p = pub) \<and> has_open c p t"
  "has_open c p (observe_viewers ch n t) \<longleftrightarrow> has_open c p t"
  unfolding has_open_iff_count by (auto simp: open_counts has_open_iff_count)

text \<open>
  Sharing screen and screen audio is one session: every statement keeps at most one open session per
  channel and publisher; opening twice returns the session already open, with its original start, and
  adds no row; closing leaves none open for that pair and touches no other pair.
\<close>
theorem share_session_unique:
  assumes "one_open t"
  shows "one_open (fst (sessions_open now i ch pub t)) \<and> one_open (fst (sessions_close ch pub now t)) \<and>
    one_open (observe_viewers ch n t) \<and> one_open (add_egress i n t) \<and> one_open (fst (close_all_open now t)) \<and>
    sessions_open later j ch pub (fst (sessions_open now i ch pub t)) = sessions_open now i ch pub t \<and>
    \<not> has_open ch pub (fst (sessions_close ch pub now t))"
proof -
  have "sessions_open later j ch pub (fst (sessions_open now i ch pub t)) = sessions_open now i ch pub t"
  proof (cases "find (is_open ch pub) t")
    case None
    let ?r = "\<lparr>sh_id = i, sh_discord_channel_id = ch, sh_publisher_id = pub, sh_started_at = now,
                 sh_ended_at = None, sh_peak_viewers = 0, sh_egress_bytes = 0\<rparr>"
    have "find (is_open ch pub) (t @ [?r]) = Some ?r"
      using None by (induction t) (auto simp: is_open_def split: if_splits)
    with None show ?thesis by (simp add: sessions_open_def Let_def)
  qed (simp add: sessions_open_def)
  with assms show ?thesis by (auto simp: one_open_def open_counts has_open_ops)
qed

theorem share_session_unique_witness:
  "one_open [] \<and> length (fst (sessions_open 9 2 900 7 (fst (sessions_open 5 1 900 7 [])))) = 1 \<and>
   sh_started_at (snd (sessions_open 9 2 900 7 (fst (sessions_open 5 1 900 7 [])))) = 5"
proof -
  have o: "one_open []" by (simp add: one_open_def open_count_def)
  have "sessions_open 9 2 900 7 (fst (sessions_open 5 1 900 7 [])) = sessions_open 5 1 900 7 []"
    using share_session_unique [OF o] by blast
  then show ?thesis using o by (simp add: sessions_open_def Let_def)
qed

end
