(* ===== verification/Livekit.thy ===== *)
theory Livekit
  imports Wire
begin

text \<open>
  \<^verbatim>\<open>crates/api/src/livekit.rs\<close>: room names and identities, the admission ledger of publish slots, the
  grant a room token carries and the parts of a webhook the service reads.  Parsing and printing of
  \<^verbatim>\<open>Uuid\<close> (crate uuid), signing of the token and verification of the webhook (crate livekit-api) are
  parameters; what the code relies on of the uuid crate is stated where it is used.
\<close>

section \<open>Names\<close>

definition PUBLISHER_SUFFIX :: string where "PUBLISHER_SUFFIX = ''~pub''"
definition MAX_TOKEN_TTL_SECONDS :: nat where "MAX_TOKEN_TTL_SECONDS = 3600"

definition PUBLISHABLE_SOURCES :: "string list" where
  "PUBLISHABLE_SOURCES = [''screen_share'', ''screen_share_audio'', ''camera'']"

definition publisher_identity :: "(uuid \<Rightarrow> string) \<Rightarrow> uuid \<Rightarrow> string" where
  "publisher_identity show_uuid u = show_uuid u @ PUBLISHER_SUFFIX"

definition room_name :: "i64 \<Rightarrow> string" where
  "room_name ch = ''dvc-'' @ show_i64 ch"

definition channel_of_room :: "string \<Rightarrow> i64 option" where
  "channel_of_room room = Option.bind (strip_prefix ''dvc-'' room) parse_i64"

text \<open>\<^verbatim>\<open>split_once\<close>: at the first occurrence of the separator.\<close>

fun split_once :: "string \<Rightarrow> string \<Rightarrow> (string \<times> string) option" where
  "split_once sep [] = (if sep = [] then Some ([], []) else None)"
| "split_once sep (c # cs) =
     (case strip_prefix sep (c # cs) of
        Some rest \<Rightarrow> Some ([], rest)
      | None \<Rightarrow> map_option (\<lambda>(a, b). (c # a, b)) (split_once sep cs))"

definition http_origin :: "string \<Rightarrow> string" where
  "http_origin ws_url =
     (case split_once ''://'' ws_url of
        Some (scheme, rest) \<Rightarrow>
          (if scheme = ''ws'' then ''http://'' @ rest
           else if scheme = ''wss'' then ''https://'' @ rest else ws_url)
      | None \<Rightarrow> ws_url)"

section \<open>The admission ledger\<close>

record room_config =
  rc_url :: string
  rc_token_ttl_seconds :: nat
  rc_max_publishers :: nat
  rc_max_cameras :: nat

record room_slots =
  rs_screens :: "uuid hset"
  rs_cameras :: "uuid hset"

definition room_slots_default :: room_slots where
  "room_slots_default = \<lparr>rs_screens = [], rs_cameras = []\<rparr>"

fun holders :: "room_slots \<Rightarrow> publication_source \<Rightarrow> uuid hset" where
  "holders r Screen = rs_screens r"
| "holders r Camera = rs_cameras r"

fun holders_mut :: "publication_source \<Rightarrow> (uuid hset \<Rightarrow> uuid hset) \<Rightarrow> room_slots \<Rightarrow> room_slots" where
  "holders_mut Screen f r = r\<lparr>rs_screens := f (rs_screens r)\<rparr>"
| "holders_mut Camera f r = r\<lparr>rs_cameras := f (rs_cameras r)\<rparr>"

definition slots_empty :: "room_slots \<Rightarrow> bool" where
  "slots_empty r \<longleftrightarrow> rs_screens r = [] \<and> rs_cameras r = []"

type_synonym grants = "(i64, room_slots) hmap"

fun ceiling_of :: "room_config \<Rightarrow> publication_source \<Rightarrow> nat" where
  "ceiling_of c Screen = rc_max_publishers c"
| "ceiling_of c Camera = rc_max_cameras c"

fun check_slots :: "room_config \<Rightarrow> room_slots \<Rightarrow> uuid \<Rightarrow> publication_source list \<Rightarrow> app_error + unit" where
  "check_slots c r u [] = Inr ()"
| "check_slots c r u (s # ss) =
     (if u \<in> set (holders r s) then check_slots c r u ss
      else if length (holders r s) \<ge> ceiling_of c s then Inl RoomCapacity
      else check_slots c r u ss)"

definition set_slot :: "uuid \<Rightarrow> publication_source list \<Rightarrow> publication_source \<Rightarrow> room_slots \<Rightarrow> room_slots" where
  "set_slot u wanted s r =
     (if s \<in> set wanted then holders_mut s (hs_insert u) r else holders_mut s (hs_remove u) r)"

definition put_room :: "i64 \<Rightarrow> room_slots \<Rightarrow> grants \<Rightarrow> grants" where
  "put_room ch r g = (if slots_empty r then hm_remove ch g else hm_insert ch r g)"

definition room_of :: "grants \<Rightarrow> i64 \<Rightarrow> room_slots" where
  "room_of g ch = (case hm_get g ch of None \<Rightarrow> room_slots_default | Some r \<Rightarrow> r)"

text \<open>A refusal leaves the room's entry in the map, empty if the room was not there.\<close>

definition claim_publications ::
  "room_config \<Rightarrow> i64 \<Rightarrow> uuid \<Rightarrow> publication_source list \<Rightarrow> grants \<Rightarrow> grants \<times> (app_error + unit)" where
  "claim_publications c ch u wanted g =
     (let room = room_of g ch in
      case check_slots c room u wanted of
        Inl e \<Rightarrow> (hm_insert ch room g, Inl e)
      | Inr _ \<Rightarrow> (put_room ch (fold (set_slot u wanted) [Screen, Camera] room) g, Inr ()))"

definition release_publication :: "i64 \<Rightarrow> uuid \<Rightarrow> publication_source \<Rightarrow> grants \<Rightarrow> grants" where
  "release_publication ch u s g =
     (case hm_get g ch of None \<Rightarrow> g | Some r \<Rightarrow> put_room ch (holders_mut s (hs_remove u) r) g)"

definition release_publisher :: "i64 \<Rightarrow> uuid \<Rightarrow> grants \<Rightarrow> grants" where
  "release_publisher ch u g =
     (case hm_get g ch of None \<Rightarrow> g
      | Some r \<Rightarrow> put_room ch (r\<lparr>rs_screens := hs_remove u (rs_screens r), rs_cameras := hs_remove u (rs_cameras r)\<rparr>) g)"

definition publisher_slots_taken :: "i64 \<Rightarrow> publication_source \<Rightarrow> grants \<Rightarrow> nat" where
  "publisher_slots_taken ch s g = (case hm_get g ch of None \<Rightarrow> 0 | Some r \<Rightarrow> length (holders r s))"

definition forget_room :: "i64 \<Rightarrow> grants \<Rightarrow> grants" where
  "forget_room ch g = hm_remove ch g"

section \<open>Tokens\<close>

definition token_ttl_seconds :: "room_config \<Rightarrow> nat" where
  "token_ttl_seconds c = min (rc_token_ttl_seconds c) MAX_TOKEN_TTL_SECONDS"

record video_grants =
  vg_room_join :: bool
  vg_room :: string
  vg_can_subscribe :: bool
  vg_can_publish :: bool
  vg_can_publish_data :: bool
  vg_can_publish_sources :: "string list"

record token_claims =
  tc_identity :: string
  tc_name :: string
  tc_ttl :: nat
  tc_grants :: video_grants

text \<open>\<open>sign\<close>: \<^verbatim>\<open>AccessToken::to_jwt\<close> with the configured key.\<close>

definition issue_token ::
  "(uuid \<Rightarrow> string) \<Rightarrow> (token_claims \<Rightarrow> string option) \<Rightarrow> room_config \<Rightarrow> i64 \<Rightarrow> uuid \<Rightarrow> string \<Rightarrow> bool \<Rightarrow> app_error + string" where
  "issue_token show_uuid sign c ch u name publish =
     (let g = \<lparr>vg_room_join = True, vg_room = room_name ch, vg_can_subscribe = True, vg_can_publish = publish,
               vg_can_publish_data = False,
               vg_can_publish_sources = (if publish then PUBLISHABLE_SOURCES else [])\<rparr>;
          identity = (if publish then publisher_identity show_uuid u else show_uuid u)
      in case sign \<lparr>tc_identity = identity, tc_name = name,
                    tc_ttl = min (rc_token_ttl_seconds c) MAX_TOKEN_TTL_SECONDS, tc_grants = g\<rparr> of
           None \<Rightarrow> Inl (Upstream ''livekit: issuing token'')
         | Some t \<Rightarrow> Inr t)"

section \<open>Room control\<close>

text \<open>\<^verbatim>\<open>Rooms::new\<close>: the origin the room client talks to, and the empty ledger.\<close>

definition rooms_new :: "room_config \<Rightarrow> string \<times> grants" where
  "rooms_new c = (http_origin (rc_url c), [])"

text \<open>
  \<open>kick room identity\<close>: \<^verbatim>\<open>RoomClient::remove_participant\<close> over the state of the SFU.  What removing the publishing
  connection answers is only logged.
\<close>

definition remove_participant ::
  "(uuid \<Rightarrow> string) \<Rightarrow> (string \<Rightarrow> string \<Rightarrow> 's \<Rightarrow> (string + unit) \<times> 's) \<Rightarrow> i64 \<Rightarrow> uuid \<Rightarrow> 's \<Rightarrow> (app_error + unit) \<times> 's" where
  "remove_participant show_uuid kick ch u s =
     (let room = room_name ch;
          (_, s1) = kick room (publisher_identity show_uuid u) s;
          (answer, s2) = kick room (show_uuid u) s1
      in (map_sum (\<lambda>e. Upstream (''livekit: removing participant: '' @ e)) (\<lambda>_. ()) answer, s2))"

text \<open>
  With an SFU that throws out whom it is told to, the person is thrown out on both connections and nobody else is, and
  an error of the answer for the person is reported, whatever came of the publishing connection.
\<close>

lemma both_connections_removed:
  assumes kick: "\<And>room i s. connected (snd (kick room i s)) = connected s - {(room, i)}"
  shows "connected (snd (remove_participant show_uuid kick ch u s)) =
      connected s - {(room_name ch, publisher_identity show_uuid u), (room_name ch, show_uuid u)}"
    and "(\<exists>e. fst (remove_participant show_uuid kick ch u s) = Inl e) \<longleftrightarrow>
      (\<exists>e. fst (kick (room_name ch) (show_uuid u) (snd (kick (room_name ch) (publisher_identity show_uuid u) s))) = Inl e)"
proof -
  let ?kicked = "snd (kick (room_name ch) (publisher_identity show_uuid u) s)"
  have run: "remove_participant show_uuid kick ch u s =
      (map_sum (\<lambda>e. Upstream (''livekit: removing participant: '' @ e)) (\<lambda>_. ()) (fst (kick (room_name ch) (show_uuid u) ?kicked)),
       snd (kick (room_name ch) (show_uuid u) ?kicked))"
    by (simp add: remove_participant_def Let_def case_prod_beta)
  show "connected (snd (remove_participant show_uuid kick ch u s)) =
      connected s - {(room_name ch, publisher_identity show_uuid u), (room_name ch, show_uuid u)}"
    using kick by (auto simp: run)
  show "(\<exists>e. fst (remove_participant show_uuid kick ch u s) = Inl e) \<longleftrightarrow>
      (\<exists>e. fst (kick (room_name ch) (show_uuid u) ?kicked) = Inl e)"
    unfolding run fst_conv by (cases "fst (kick (room_name ch) (show_uuid u) ?kicked)") simp_all
qed

section \<open>Webhooks\<close>

record webhook_event =
  we_event :: string
  we_room :: "string option"
  we_participant_identity :: "string option"
  we_track_source :: "string option"

text \<open>
  The event as \<^verbatim>\<open>livekit_protocol\<close> decodes it: the names it gives, with a track source of its own, whose name is
  \<open>source_name\<close>; \<open>receive\<close> is \<^verbatim>\<open>WebhookReceiver::receive\<close>, which checks the signature.
\<close>

record 'src proto_event =
  pe_event :: string
  pe_room :: "string option"
  pe_participant :: "string option"
  pe_track :: "'src option"

definition from_proto :: "('src \<Rightarrow> string) \<Rightarrow> 'src proto_event \<Rightarrow> webhook_event" where
  "from_proto source_name p =
     \<lparr>we_event = pe_event p, we_room = pe_room p, we_participant_identity = pe_participant p,
      we_track_source = map_option (\<lambda>t. to_ascii_lowercase (source_name t)) (pe_track p)\<rparr>"

definition verify_webhook ::
  "(string \<Rightarrow> string \<Rightarrow> string + 'src proto_event) \<Rightarrow> ('src \<Rightarrow> string) \<Rightarrow> string \<Rightarrow> string \<Rightarrow> webhook_event option" where
  "verify_webhook receive source_name body authorization =
     (case receive body authorization of Inr ev \<Rightarrow> Some (from_proto source_name ev) | Inl _ \<Rightarrow> None)"

definition we_channel :: "webhook_event \<Rightarrow> i64 option" where
  "we_channel e = Option.bind (we_room e) channel_of_room"

definition we_user :: "(string \<Rightarrow> uuid option) \<Rightarrow> webhook_event \<Rightarrow> uuid option" where
  "we_user parse_uuid e =
     Option.bind (we_participant_identity e) (\<lambda>identity.
       parse_uuid (case strip_suffix PUBLISHER_SUFFIX identity of None \<Rightarrow> identity | Some i \<Rightarrow> i))"

definition is_publisher_connection :: "webhook_event \<Rightarrow> bool" where
  "is_publisher_connection e =
     (case we_participant_identity e of None \<Rightarrow> False | Some i \<Rightarrow> ends_with PUBLISHER_SUFFIX i)"

definition published_source :: "webhook_event \<Rightarrow> publication_source option" where
  "published_source e =
     (if we_track_source e = Some ''screen_share'' then Some Screen
      else if we_track_source e = Some ''camera'' then Some Camera else None)"

text \<open>
  The audio of a screen, and anything else LiveKit may report, is no publication: only a source named as the screen or
  the camera is, in whatever case LiveKit writes it.
\<close>

lemma published_from_proto:
  "published_source (from_proto name p) = Some Screen \<longleftrightarrow> (\<exists>t. pe_track p = Some t \<and> to_ascii_lowercase (name t) = ''screen_share'')"
  "published_source (from_proto name p) = Some Camera \<longleftrightarrow> (\<exists>t. pe_track p = Some t \<and> to_ascii_lowercase (name t) = ''camera'')"
  by (auto simp: published_source_def from_proto_def)

lemma livekit_sources:
  "to_ascii_lowercase ''SCREEN_SHARE'' = ''screen_share''" "to_ascii_lowercase ''CAMERA'' = ''camera''"
  "to_ascii_lowercase ''SCREEN_SHARE_AUDIO'' = ''screen_share_audio''"
  by code_simp+

lemma screen_audio_is_no_publication:
  "pe_track p = Some t \<Longrightarrow> name t = ''SCREEN_SHARE_AUDIO'' \<Longrightarrow> published_source (from_proto name p) = None"
  by (simp add: published_source_def from_proto_def livekit_sources)

section \<open>The contract of the ledger\<close>

definition held :: "grants \<Rightarrow> i64 \<Rightarrow> publication_source \<Rightarrow> uuid set" where
  "held g ch s = (case hm_get g ch of None \<Rightarrow> {} | Some r \<Rightarrow> set (holders r s))"

definition ledger_ok :: "room_config \<Rightarrow> grants \<Rightarrow> bool" where
  "ledger_ok c g \<longleftrightarrow> (\<forall>ch r s. hm_get g ch = Some r \<longrightarrow> distinct (holders r s) \<and> length (holders r s) \<le> ceiling_of c s)"

text \<open>What the service relies on when someone leaves, stops a source, or the room is gone.\<close>

locale slot_ledger =
  fixes holds :: "'g \<Rightarrow> 'c \<Rightarrow> publication_source \<Rightarrow> 'u set"
    and release_one :: "'c \<Rightarrow> 'u \<Rightarrow> publication_source \<Rightarrow> 'g \<Rightarrow> 'g"
    and release_all :: "'c \<Rightarrow> 'u \<Rightarrow> 'g \<Rightarrow> 'g"
    and forget_all :: "'c \<Rightarrow> 'g \<Rightarrow> 'g"
  assumes holds_one: "holds (release_one ch u s g) ch' s' = (if ch' = ch \<and> s' = s then holds g ch s - {u} else holds g ch' s')"
    and holds_all: "holds (release_all ch u g) ch' s' = (if ch' = ch then holds g ch s' - {u} else holds g ch' s')"
    and holds_forget: "holds (forget_all ch g) ch' s' = (if ch' = ch then {} else holds g ch' s')"
begin

lemma release_both: "holds (release_one ch u Camera (release_one ch u Screen g)) ch' s' = holds (release_all ch u g) ch' s'"
  by (cases s') (auto simp: holds_one holds_all)

lemma released: "u \<notin> holds (release_all ch u g) ch s"
  by (simp add: holds_all)

lemma never_grows: "holds (release_one ch u s g) ch' s' \<subseteq> holds g ch' s'"
  "holds (release_all ch u g) ch' s' \<subseteq> holds g ch' s'" "holds (forget_all ch g) ch' s' \<subseteq> holds g ch' s'"
  by (auto simp: holds_one holds_all holds_forget split: if_splits)

end

lemma holders_mut_other: "holders (holders_mut s f r) s' = (if s' = s then f (holders r s) else holders r s')"
  by (cases s; cases s') simp_all

lemma all_source: "(\<forall>s. P s) \<longleftrightarrow> P Screen \<and> P Camera"
  by (metis publication_source.exhaust)

lemma slots_empty_iff: "slots_empty r \<longleftrightarrow> (\<forall>s. holders r s = [])"
  by (simp add: slots_empty_def all_source)

lemma held_get: "hm_get g ch = Some r \<Longrightarrow> held g ch s = set (holders r s)"
  "hm_get g ch = None \<Longrightarrow> held g ch s = {}"
  by (simp_all add: held_def)

lemma ledger_okD:
  "ledger_ok c g \<Longrightarrow> hm_get g ch = Some r \<Longrightarrow> distinct (holders r s) \<and> length (holders r s) \<le> ceiling_of c s"
  by (simp add: ledger_ok_def)

lemma held_put_room: "held (put_room ch r g) ch' s = (if ch' = ch then set (holders r s) else held g ch' s)"
  by (auto simp: put_room_def held_def slots_empty_iff)

lemma slots_put_room:
  "hm_get (put_room ch r g) ch' = Some r' \<Longrightarrow> (ch' = ch \<and> r' = r) \<or> (ch' \<noteq> ch \<and> hm_get g ch' = Some r')"
  by (auto simp: put_room_def split: if_splits)

interpretation ledger: slot_ledger held release_publication release_publisher forget_room
proof
  fix ch ch' :: i64 and u :: uuid and s s' :: publication_source and g :: grants
  show "held (release_publication ch u s g) ch' s' = (if ch' = ch \<and> s' = s then held g ch s - {u} else held g ch' s')"
    by (cases "hm_get g ch") (auto simp: release_publication_def held_put_room holders_mut_other held_get)
  show "held (release_publisher ch u g) ch' s' = (if ch' = ch then held g ch s' - {u} else held g ch' s')"
    by (cases "hm_get g ch"; cases s') (auto simp: release_publisher_def held_put_room held_get)
  show "held (forget_room ch g) ch' s' = (if ch' = ch then {} else held g ch' s')"
    by (simp add: forget_room_def held_def)
qed

section \<open>Admission\<close>

lemma check_slots_iff:
  "check_slots c r u ss = Inl e \<longleftrightarrow> e = RoomCapacity \<and>
     (\<exists>s \<in> set ss. u \<notin> set (holders r s) \<and> ceiling_of c s \<le> length (holders r s))"
  by (induction ss) auto

lemma holders_set_slots:
  "holders (fold (set_slot u wanted) [Screen, Camera] r) s =
     (if s \<in> set wanted then hs_insert u (holders r s) else hs_remove u (holders r s))"
  by (cases s) (simp_all add: set_slot_def)

lemma set_room_of: "set (holders (room_of g ch) s) = held g ch s"
  by (cases s) (simp_all add: room_of_def held_def room_slots_default_def split: option.split)

lemma held_insert: "held (hm_insert ch r g) ch' s = (if ch' = ch then set (holders r s) else held g ch' s)"
  by (simp add: held_def)

lemma claim_refused_ledger:
  assumes "claim_publications c ch u wanted g = (g', Inl e)"
  shows "e = RoomCapacity \<and> held g' = held g"
proof (cases "check_slots c (room_of g ch) u wanted")
  case (Inl x)
  with assms have "g' = hm_insert ch (room_of g ch) g" "e = RoomCapacity"
    using check_slots_iff [of c "room_of g ch" u wanted x] by (simp_all add: claim_publications_def Let_def)
  then show ?thesis by (simp add: fun_eq_iff held_insert set_room_of)
next
  case (Inr x)
  with assms show ?thesis by (simp add: claim_publications_def Let_def del: fold_simps)
qed

lemma claim_granted_ledger:
  assumes "claim_publications c ch u wanted g = (g', Inr x)"
  shows "held g' ch' s = (if ch' \<noteq> ch then held g ch' s
       else if s \<in> set wanted then insert u (held g ch s) else held g ch s - {u})"
proof (cases "check_slots c (room_of g ch) u wanted")
  case (Inl x)
  with assms show ?thesis by (simp add: claim_publications_def Let_def)
next
  case (Inr y)
  with assms have "g' = put_room ch (fold (set_slot u wanted) [Screen, Camera] (room_of g ch)) g"
    by (simp add: claim_publications_def Let_def del: fold_simps)
  then show ?thesis
    by (simp only: held_put_room holders_set_slots) (simp add: set_room_of)
qed

text \<open>
  C10.  Admission is all or nothing and says exactly what was declared: a granted claim makes the person
  hold the wanted sources of that room and no other source there, leaving everyone else's slots and
  every other room alone; a refused claim is \<open>RoomCapacity\<close> and leaves every slot of every room as it was.
\<close>
theorem claim_all_or_nothing:
  "case claim_publications c ch u wanted g of
     (g', Inr _) \<Rightarrow> (\<forall>ch' s. held g' ch' s = (if ch' \<noteq> ch then held g ch' s
                       else if s \<in> set wanted then insert u (held g ch s) else held g ch s - {u}))
   | (g', Inl e) \<Rightarrow> e = RoomCapacity \<and> held g' = held g"
  using claim_refused_ledger [of c ch u wanted g] claim_granted_ledger [of c ch u wanted g]
  by (auto split: prod.split sum.split)

definition slots_ok :: "room_config \<Rightarrow> room_slots \<Rightarrow> bool" where
  "slots_ok c r \<longleftrightarrow> (\<forall>s. distinct (holders r s) \<and> length (holders r s) \<le> ceiling_of c s)"

lemma ledger_ok_iff: "ledger_ok c g \<longleftrightarrow> (\<forall>ch r. hm_get g ch = Some r \<longrightarrow> slots_ok c r)"
  by (auto simp: ledger_ok_def slots_ok_def)

lemma put_room_ok: "ledger_ok c g \<Longrightarrow> slots_ok c r \<Longrightarrow> ledger_ok c (put_room ch r g)"
  using slots_put_room [of ch r g] unfolding ledger_ok_iff by metis

lemma room_of_ok: "ledger_ok c g \<Longrightarrow> slots_ok c (room_of g ch)"
  by (auto simp: ledger_ok_iff room_of_def room_slots_default_def slots_ok_def all_source split: option.split)

lemma claim_ok:
  assumes ok: "ledger_ok c g"
  shows "ledger_ok c (fst (claim_publications c ch u wanted g))"
proof (cases "check_slots c (room_of g ch) u wanted")
  case (Inl e)
  then show ?thesis using ok room_of_ok [OF ok, of ch]
    by (auto simp: claim_publications_def Let_def ledger_ok_iff)
next
  case (Inr x)
  let ?r = "fold (set_slot u wanted) [Screen, Camera] (room_of g ch)"
  have room: "distinct (holders (room_of g ch) s) \<and> length (holders (room_of g ch) s) \<le> ceiling_of c s" for s
    using room_of_ok [OF ok, of ch] by (simp add: slots_ok_def)
  have free: "s \<in> set wanted \<Longrightarrow> u \<in> set (holders (room_of g ch) s) \<or> length (holders (room_of g ch) s) < ceiling_of c s" for s
    using Inr check_slots_iff [of c "room_of g ch" u wanted RoomCapacity] by (metis Inl_Inr_False leI)
  have "slots_ok c ?r"
    unfolding slots_ok_def holders_set_slots
  proof
    fix s
    show "distinct (if s \<in> set wanted then hs_insert u (holders (room_of g ch) s) else hs_remove u (holders (room_of g ch) s)) \<and>
      length (if s \<in> set wanted then hs_insert u (holders (room_of g ch) s) else hs_remove u (holders (room_of g ch) s)) \<le> ceiling_of c s"
      using room [of s] free [of s] length_hs_remove_le [of u "holders (room_of g ch) s"]
      by (auto simp: length_hs_insert)
  qed
  then have "ledger_ok c (put_room ch ?r g)" by (rule put_room_ok [OF ok])
  then show ?thesis using Inr by (simp add: claim_publications_def Let_def del: fold_simps)
qed

lemma releases_ok:
  assumes ok: "ledger_ok c g"
  shows "ledger_ok c (release_publication ch u s g)" and "ledger_ok c (release_publisher ch u g)"
    and "ledger_ok c (forget_room ch g)"
proof -
  have rem: "length xs \<le> k \<Longrightarrow> length (hs_remove u xs) \<le> k" for xs :: "uuid list" and k
    using length_hs_remove_le [of u xs] by simp
  have slots: "hm_get g ch = Some r \<Longrightarrow> slots_ok c r" for r using ok by (simp add: ledger_ok_iff)
  have one: "slots_ok c r \<Longrightarrow> slots_ok c (holders_mut s (hs_remove u) r)" for r
    by (simp add: slots_ok_def holders_mut_other rem)
  have both: "slots_ok c r \<Longrightarrow> slots_ok c (r\<lparr>rs_screens := hs_remove u (rs_screens r), rs_cameras := hs_remove u (rs_cameras r)\<rparr>)" for r
    by (simp add: slots_ok_def all_source rem)
  show "ledger_ok c (release_publication ch u s g)"
    using ok by (cases "hm_get g ch") (simp_all add: release_publication_def put_room_ok one slots)
  show "ledger_ok c (release_publisher ch u g)"
    using ok by (cases "hm_get g ch") (simp_all add: release_publisher_def put_room_ok both slots)
  show "ledger_ok c (forget_room ch g)" using ok by (simp add: forget_room_def ledger_ok_iff)
qed

datatype ledger_op =
    Claim i64 uuid "publication_source list"
  | ReleaseOne i64 uuid publication_source
  | ReleaseAll i64 uuid
  | ForgetRoom i64

fun ledger_step :: "room_config \<Rightarrow> ledger_op \<Rightarrow> grants \<Rightarrow> grants" where
  "ledger_step c (Claim ch u w) g = fst (claim_publications c ch u w g)"
| "ledger_step c (ReleaseOne ch u s) g = release_publication ch u s g"
| "ledger_step c (ReleaseAll ch u) g = release_publisher ch u g"
| "ledger_step c (ForgetRoom ch) g = forget_room ch g"

lemma ledger_run_ok: "ledger_ok c g \<Longrightarrow> ledger_ok c (fold (ledger_step c) ops g)"
proof (induction ops arbitrary: g)
  case (Cons op ops)
  have "ledger_ok c (ledger_step c op g)" using Cons.prems by (cases op) (simp_all add: claim_ok releases_ok)
  with Cons show ?case by simp
qed simp

text \<open>
  C11.  The ceiling holds (RNF-05): after any sequence of claims, renewals and releases, in any order and by
  anyone, no room holds more screens than \<open>max_publishers\<close> nor more cameras than \<open>max_cameras\<close>.
\<close>
theorem ledger_capacity:
  "publisher_slots_taken ch s (fold (ledger_step c) ops []) \<le> ceiling_of c s"
proof -
  have "ledger_ok c (fold (ledger_step c) ops [])" by (rule ledger_run_ok) (simp add: ledger_ok_def)
  then show ?thesis by (auto simp: publisher_slots_taken_def ledger_ok_def split: option.split)
qed

lemma publisher_suffix_absent: "CHR ''~'' \<notin> set s \<Longrightarrow> strip_suffix PUBLISHER_SUFFIX s = None"
  by (cases "strip_suffix PUBLISHER_SUFFIX s") (auto simp: strip_suffix_Some PUBLISHER_SUFFIX_def)

text \<open>
  A token is bound to one room, one person and one direction: every token issued names the room of its
  channel and no other channel's, lives at most an hour, allows publishing exactly when asked to and
  then only the product's sources, never allows data, and its identity reads back as the person, on
  the publishing connection exactly when it may publish.  The uuid crate is relied on to parse what it
  prints and never to print the suffix character.
\<close>
theorem token_scoped:
  assumes uuid: "\<And>u. parse_uuid (show_uuid u) = Some u" and tilde: "\<And>u. CHR ''~'' \<notin> set (show_uuid u)"
    and signed: "issue_token show_uuid (\<lambda>t. Some (enc t)) c ch u name publish = Inr tok"
  shows "\<exists>t. tok = enc t \<and> channel_of_room (vg_room (tc_grants t)) = Some ch \<and> tc_ttl t \<le> 3600 \<and>
     vg_can_publish (tc_grants t) = publish \<and> \<not> vg_can_publish_data (tc_grants t) \<and>
     (vg_can_publish_sources (tc_grants t) = (if publish then PUBLISHABLE_SOURCES else [])) \<and>
     (\<forall>ev. we_participant_identity ev = Some (tc_identity t) \<longrightarrow>
        we_user parse_uuid ev = Some u \<and> is_publisher_connection ev = publish)"
  using signed uuid publisher_suffix_absent [OF tilde]
  by (auto simp: issue_token_def Let_def channel_of_room_def room_name_def MAX_TOKEN_TTL_SECONDS_def we_user_def
      is_publisher_connection_def ends_with_def publisher_identity_def)

text \<open>An instance of the uuid crate's contract, for the witnesses: ids in decimal.\<close>

definition decimal_show_uuid :: "uuid \<Rightarrow> string" where
  "decimal_show_uuid u = show_nat (unat u)"

definition decimal_parse_uuid :: "string \<Rightarrow> uuid option" where
  "decimal_parse_uuid s = map_option of_nat (parse_digits 0 s)"

lemma decimal_uuid: "decimal_parse_uuid (decimal_show_uuid u) = Some u" "CHR ''~'' \<notin> set (decimal_show_uuid u)"
proof -
  show "decimal_parse_uuid (decimal_show_uuid u) = Some u"
    by (simp add: decimal_parse_uuid_def decimal_show_uuid_def parse_show_nat)
  show "CHR ''~'' \<notin> set (decimal_show_uuid u)"
    using show_nat_digits [of "unat u"] by (auto simp: decimal_show_uuid_def is_digit_def char_code_def)
qed

definition sample_room_config :: room_config where
  "sample_room_config = \<lparr>rc_url = ''wss://sfu.example'', rc_token_ttl_seconds = 7200, rc_max_publishers = 2, rc_max_cameras = 4\<rparr>"

theorem token_scoped_witness:
  "\<exists>t. issue_token decimal_show_uuid (\<lambda>t. Some (tc_identity t)) sample_room_config 900 7 ''ana'' True = Inr t \<and>
     is_publisher_connection \<lparr>we_event = ''track_published'', we_room = None, we_participant_identity = Some t, we_track_source = None\<rparr>"
proof -
  obtain t where t: "issue_token decimal_show_uuid (\<lambda>t. Some (tc_identity t)) sample_room_config 900 7 ''ana'' True = Inr t"
    by (simp add: issue_token_def Let_def)
  from token_scoped [where enc = tc_identity, OF decimal_uuid t]
  obtain cl :: token_claims where "t = tc_identity cl"
    "\<forall>ev. we_participant_identity ev = Some (tc_identity cl) \<longrightarrow> is_publisher_connection ev = True" by metis
  with t show ?thesis by simp
qed

lemma room_name_inj: "room_name a = room_name b \<Longrightarrow> a = b"
  by (auto simp: room_name_def dest: show_i64_inj)

end
