(* ===== verification/Session.thy ===== *)
theory Session
  imports Wire
begin

text \<open>
  \<^verbatim>\<open>crates/api/src/gateway/session.rs\<close>: one gateway session.  A socket (\<^verbatim>\<open>Outbox\<close>, the sending half of
  an unbounded channel) is a number; the frames an operation queues are returned with the socket
  they go to.  The reference is the whole history of dispatches: \<open>replay_after\<close> is exactly the part
  of it the client has not seen, or \<open>None\<close> when some of that part has been evicted.
\<close>

type_synonym socket = nat
type_synonym outgoing = "(socket \<times> server_frame) list"

record session =
  ses_id :: uuid
  ses_user_id :: uuid
  ses_seq :: u64
  ses_buffer :: "dispatch_frame list"
  ses_buffer_capacity :: nat
  ses_evicted_through :: u64
  ses_outbox :: "socket option"
  ses_connected :: bool
  ses_disconnected_at :: "instant option"

text \<open>\<open>sid\<close> is the value of \<^verbatim>\<open>Uuid::now_v7()\<close>.\<close>

definition session_new :: "uuid \<Rightarrow> uuid \<Rightarrow> socket \<Rightarrow> nat \<Rightarrow> session" where
  "session_new sid user outbox cap =
     \<lparr>ses_id = sid, ses_user_id = user, ses_seq = 0, ses_buffer = [], ses_buffer_capacity = cap,
      ses_evicted_through = 0, ses_outbox = Some outbox, ses_connected = True, ses_disconnected_at = None\<rparr>"

definition ses_disconnect :: "instant \<Rightarrow> session \<Rightarrow> session" where
  "ses_disconnect now s =
     s\<lparr>ses_connected := False, ses_outbox := None, ses_disconnected_at := Some now\<rparr>"

definition ses_reconnect :: "socket \<Rightarrow> session \<Rightarrow> session" where
  "ses_reconnect outbox s =
     s\<lparr>ses_outbox := Some outbox, ses_disconnected_at := None, ses_connected := True\<rparr>"

definition send_text :: "server_frame \<Rightarrow> session \<Rightarrow> outgoing" where
  "send_text f s = (case ses_outbox s of Some tx \<Rightarrow> [(tx, f)] | None \<Rightarrow> [])"

definition push_frame :: "dispatch_frame \<Rightarrow> session \<Rightarrow> session" where
  "push_frame f s =
    (let s1 = (if length (ses_buffer s) = ses_buffer_capacity s then
                 (case ses_buffer s of
                    [] \<Rightarrow> s
                  | d # ds \<Rightarrow> s\<lparr>ses_buffer := ds, ses_evicted_through := df_s d\<rparr>)
               else s)
     in s1\<lparr>ses_buffer := ses_buffer s1 @ [f]\<rparr>)"

definition ses_dispatch :: "dispatch_event \<Rightarrow> session \<Rightarrow> session \<times> outgoing" where
  "ses_dispatch e s =
    (let seq = ses_seq s + 1;
         frame = dispatch_frame_new seq e;
         s' = push_frame frame (s\<lparr>ses_seq := seq\<rparr>)
     in (s', send_text (Dispatch frame) s'))"

definition replay_after :: "u64 \<Rightarrow> session \<Rightarrow> dispatch_frame list option" where
  "replay_after last_seq s =
    (if last_seq > ses_seq s then None
     else if last_seq < ses_evicted_through s then None
     else Some (filter (\<lambda>f. df_s f > last_seq) (ses_buffer s)))"

section \<open>The session over its history\<close>

text \<open>Everything that happens to a session, in order.\<close>

datatype session_op = OpDispatch dispatch_event | OpDisconnect instant | OpReconnect socket

fun ses_step :: "session_op \<Rightarrow> session \<Rightarrow> session" where
  "ses_step (OpDispatch e) s = fst (ses_dispatch e s)"
| "ses_step (OpDisconnect now) s = ses_disconnect now s"
| "ses_step (OpReconnect tx) s = ses_reconnect tx s"

fun dispatched :: "session_op list \<Rightarrow> dispatch_event list" where
  "dispatched [] = []"
| "dispatched (OpDispatch e # ops) = e # dispatched ops"
| "dispatched (_ # ops) = dispatched ops"

text \<open>The frames of a history: event number \<open>i\<close> (from 0) got sequence \<open>i + 1\<close>.\<close>

definition frame_at :: "dispatch_event list \<Rightarrow> nat \<Rightarrow> dispatch_frame" where
  "frame_at h i = dispatch_frame_new (of_nat (Suc i)) (h ! i)"

definition frames_from :: "nat \<Rightarrow> dispatch_event list \<Rightarrow> dispatch_frame list" where
  "frames_from k h = map (frame_at h) [k..<length h]"

text \<open>The session \<open>s\<close> holds exactly what is left of the history \<open>h\<close> after eviction.\<close>

definition evicted :: "nat \<Rightarrow> dispatch_event list \<Rightarrow> nat" where
  "evicted cap h = length h - cap"

definition holds_history :: "nat \<Rightarrow> dispatch_event list \<Rightarrow> session \<Rightarrow> bool" where
  "holds_history cap h s \<longleftrightarrow>
     ses_buffer_capacity s = cap \<and> ses_seq s = of_nat (length h) \<and>
     ses_evicted_through s = of_nat (evicted cap h) \<and> ses_buffer s = frames_from (evicted cap h) h"

lemma frame_at_append: "i < length h \<Longrightarrow> frame_at (h @ [e]) i = frame_at h i"
  by (simp add: frame_at_def nth_append)

lemma frames_from_append:
  "k \<le> length h \<Longrightarrow> frames_from k (h @ [e]) = frames_from k h @ [dispatch_frame_new (of_nat (Suc (length h))) e]"
  by (auto simp: frames_from_def frame_at_append) (simp add: frame_at_def)

lemma frames_from_Cons: "k < length h \<Longrightarrow> frames_from k h = frame_at h k # frames_from (Suc k) h"
  by (simp add: frames_from_def upt_conv_Cons)

lemma length_frames_from: "length (frames_from k h) = length h - k"
  by (simp add: frames_from_def)

lemma holds_history_new: "holds_history cap [] (session_new sid user tx cap)"
  by (simp add: holds_history_def session_new_def evicted_def frames_from_def)

lemma holds_history_dispatch:
  assumes "holds_history cap h s" and cap: "0 < cap"
  shows "holds_history cap (h @ [e]) (fst (ses_dispatch e s))"
proof -
  let ?n = "length h" and ?k = "evicted cap h"
  let ?f = "dispatch_frame_new (of_nat (Suc ?n)) e"
  have s: "ses_buffer_capacity s = cap" "ses_seq s = of_nat ?n" "ses_evicted_through s = of_nat ?k"
    "ses_buffer s = frames_from ?k h"
    using assms(1) by (simp_all add: holds_history_def)
  have k: "?k \<le> ?n" by (simp add: evicted_def)
  show ?thesis
  proof (cases "?n < cap")
    case True
    then have "?k = 0" "evicted cap (h @ [e]) = 0" by (simp_all add: evicted_def)
    then show ?thesis using True s
      by (simp add: holds_history_def ses_dispatch_def Let_def push_frame_def length_frames_from
          frames_from_append add.commute)
  next
    case False
    then have lt: "?k < ?n" and k': "evicted cap (h @ [e]) = Suc ?k"
      using cap by (auto simp: evicted_def)
    have len: "length (frames_from ?k h) = cap" using False by (simp add: length_frames_from evicted_def)
    have "frames_from (Suc ?k) (h @ [e]) = frames_from (Suc ?k) h @ [?f]"
      using lt by (simp add: frames_from_append)
    then show ?thesis using s len k' frames_from_Cons [OF lt]
      by (simp add: holds_history_def ses_dispatch_def Let_def push_frame_def add.commute
          frame_at_def dispatch_frame_new_def)
  qed
qed

lemma holds_history_frame:
  "holds_history cap h s \<Longrightarrow> holds_history cap h (ses_disconnect now s)"
  "holds_history cap h s \<Longrightarrow> holds_history cap h (ses_reconnect tx s)"
  by (simp_all add: holds_history_def ses_disconnect_def ses_reconnect_def)

lemma holds_history_run:
  "holds_history cap h s \<Longrightarrow> 0 < cap \<Longrightarrow> holds_history cap (h @ dispatched ops) (fold ses_step ops s)"
proof (induction ops arbitrary: h s)
  case (Cons op ops)
  then show ?case
  proof (cases op)
    case (OpDispatch e)
    from holds_history_dispatch [OF Cons.prems, of e] Cons.IH [of "h @ [e]"] Cons.prems(2) OpDispatch
    show ?thesis by simp
  qed (simp_all add: holds_history_frame)
qed simp

section \<open>Replay\<close>

lemma filter_frames_from:
  assumes "length h < 2 ^ 64" and "k \<le> j" and "j \<le> length h"
  shows "filter (\<lambda>f. df_s f > of_nat j) (frames_from k h) = frames_from j h"
proof -
  have lt: "(of_nat j < (of_nat (Suc i) :: u64)) \<longleftrightarrow> j \<le> i" if "i < length h" for i
    using that assms by (simp add: word_less_nat_alt unat_of_nat less_Suc_eq_le del: of_nat_Suc)
  have "filter (\<lambda>f. df_s f > of_nat j) (frames_from k h) = map (frame_at h) (filter (\<lambda>i. j \<le> i) [k..<length h])"
    unfolding frames_from_def filter_map
    by (rule arg_cong [where f = "map (frame_at h)"], rule filter_cong [OF refl])
      (simp add: frame_at_def dispatch_frame_new_def lt del: of_nat_Suc)
  also have "filter (\<lambda>i. j \<le> i) [k..<length h] = [j..<length h]"
  proof -
    have "[k..<length h] = [k..<j] @ [j..<length h]"
      using assms(2,3) by (metis le_add_diff_inverse upt_add_eq_append)
    moreover have "filter (\<lambda>i. j \<le> i) [k..<j] = []" by (simp add: filter_empty_conv)
    moreover have "filter (\<lambda>i. j \<le> i) [j..<length h] = [j..<length h]" by (simp add: filter_id_conv)
    ultimately show ?thesis by simp
  qed
  finally show ?thesis by (simp add: frames_from_def)
qed

lemma replay_holds_history:
  assumes "holds_history cap h s" and "length h < 2 ^ 64" and "j < 2 ^ 64"
  shows "replay_after (of_nat j) s =
     (if length h < j \<or> j < evicted cap h then None else Some (frames_from j h))"
proof -
  have e: "evicted cap h < 2 ^ 64" using assms(2) by (simp add: evicted_def)
  have "(of_nat (length h) < (of_nat j :: u64)) \<longleftrightarrow> length h < j"
    and "(of_nat j < (of_nat (evicted cap h) :: u64)) \<longleftrightarrow> j < evicted cap h"
    using assms(2,3) e by (simp_all add: word_less_nat_alt unat_of_nat)
  with assms(1) filter_frames_from [OF assms(2), of "evicted cap h" j]
  show ?thesis by (auto simp: replay_after_def holds_history_def)
qed

text \<open>
  C8.  Resume is complete or refused.  Through any run of dispatches, disconnections and reconnections
  from a new session, a client that has seen \<open>j\<close> frames is replayed exactly the later frames of the
  whole history, in order and with their original sequence numbers; \<open>None\<close> comes back only when the
  client claims more than was sent or a frame it misses is older than the last \<open>cap\<close> ones.
\<close>
theorem replay_complete:
  assumes "0 < cap" and "length (dispatched ops) < 2 ^ 64" and "j < 2 ^ 64"
  shows "replay_after (of_nat j) (fold ses_step ops (session_new sid user tx cap)) =
    (if length (dispatched ops) < j \<or> j < length (dispatched ops) - cap then None
     else Some (map (\<lambda>i. dispatch_frame_new (of_nat (Suc i)) (dispatched ops ! i)) [j..<length (dispatched ops)]))"
proof -
  have "holds_history cap (dispatched ops) (fold ses_step ops (session_new sid user tx cap))"
    using holds_history_run [OF holds_history_new assms(1)] by simp
  from replay_holds_history [OF this assms(2,3)] show ?thesis
    by (simp add: evicted_def frames_from_def frame_at_def [abs_def])
qed

theorem replay_complete_witness:
  "replay_after 2 (fold ses_step [OpDispatch (Resumed 0), OpDispatch (Resumed 1), OpDisconnect 7, OpDispatch (Resumed 2),
      OpReconnect 5, OpDispatch (Resumed 3)] (session_new 1 2 3 2))
    = Some [dispatch_frame_new 3 (Resumed 2), dispatch_frame_new 4 (Resumed 3)]"
proof -
  let ?ops = "[OpDispatch (Resumed 0), OpDispatch (Resumed 1), OpDisconnect 7, OpDispatch (Resumed 2),
      OpReconnect 5, OpDispatch (Resumed 3)]"
  have "length (dispatched ?ops) < 2 ^ 64" "(2::nat) < 2 ^ 64" "(0::nat) < 2" by simp_all
  then have "replay_after (of_nat 2) (fold ses_step ?ops (session_new 1 2 3 2)) =
    Some (map (\<lambda>i. dispatch_frame_new (of_nat (Suc i)) (dispatched ?ops ! i)) [2..<length (dispatched ?ops)])"
    using replay_complete [of 2 ?ops 2 1 2 3] by simp
  then show ?thesis by (simp add: upt_conv_Cons numeral_nat)
qed

text \<open>The buffer never exceeds its capacity, whatever happens.\<close>

lemma buffer_bounded:
  "0 < cap \<Longrightarrow> length (ses_buffer (fold ses_step ops (session_new sid user tx cap))) \<le> cap"
  using holds_history_run [OF holds_history_new, of cap ops sid user tx]
  by (simp add: holds_history_def length_frames_from evicted_def)

end
