(* ===== verification/Hub.thy ===== *)
theory Hub
  imports Session
begin

text \<open>
  \<^verbatim>\<open>crates/api/src/gateway/hub.rs\<close>: the session registry and the publish surface.  \<^verbatim>\<open>Arc<Session>\<close> is
  shared between the registry and the connection that serves it, so the sessions live in a heap
  (\<open>hb_heap\<close>, by session id) and the registry holds ids: \<open>hb_sessions\<close> is the key set of
  \<^verbatim>\<open>Registry.sessions\<close>, \<open>hb_by_user\<close> is \<^verbatim>\<open>Registry.by_user\<close>.  \<open>hb_out\<close> is everything queued on sockets so
  far, oldest first.
\<close>

section \<open>State\<close>

record gateway_config =
  gc_heartbeat_interval_ms :: int
  gc_session_ttl_ms :: int
  gc_resume_buffer_size :: nat
  gc_max_connections_per_user :: nat

record hub =
  hb_config :: gateway_config
  hb_heap :: "(uuid, session) hmap"
  hb_sessions :: "uuid hset"
  hb_by_user :: "(uuid, uuid list) hmap"
  hb_out :: outgoing

definition hub_new :: "gateway_config \<Rightarrow> hub" where
  "hub_new c = \<lparr>hb_config = c, hb_heap = [], hb_sessions = [], hb_by_user = [], hb_out = []\<rparr>"

text \<open>An operation on the session behind an \<^verbatim>\<open>Arc\<close>.\<close>

definition on_session :: "uuid \<Rightarrow> (session \<Rightarrow> session) \<Rightarrow> hub \<Rightarrow> hub" where
  "on_session sid f h = h\<lparr>hb_heap := hm_alter sid f (hb_heap h)\<rparr>"

definition send_to_session :: "uuid \<Rightarrow> server_frame \<Rightarrow> hub \<Rightarrow> hub" where
  "send_to_session sid f h =
     (case hm_get (hb_heap h) sid of None \<Rightarrow> h | Some s \<Rightarrow> h\<lparr>hb_out := hb_out h @ send_text f s\<rparr>)"

definition dispatch_to_session :: "uuid \<Rightarrow> dispatch_event \<Rightarrow> hub \<Rightarrow> hub" where
  "dispatch_to_session sid e h =
     (case hm_get (hb_heap h) sid of None \<Rightarrow> h
      | Some s \<Rightarrow> (let (s', out) = ses_dispatch e s
                  in h\<lparr>hb_heap := hm_insert sid s' (hb_heap h), hb_out := hb_out h @ out\<rparr>))"

section \<open>Sessions\<close>

definition registered :: "hub \<Rightarrow> uuid \<Rightarrow> session option" where
  "registered h sid = (if sid \<in> set (hb_sessions h) then hm_get (hb_heap h) sid else None)"

definition create_session :: "uuid \<Rightarrow> uuid \<Rightarrow> socket \<Rightarrow> hub \<Rightarrow> hub" where
  "create_session sid user outbox h =
     h\<lparr>hb_heap := hm_insert sid (session_new sid user outbox (gc_resume_buffer_size (hb_config h))) (hb_heap h)\<rparr>"

text \<open>\<^verbatim>\<open>while owned.len() > max { evicted.push(owned.remove(0)) }\<close>: what is evicted and what is kept.\<close>

definition evict_oldest :: "nat \<Rightarrow> uuid list \<Rightarrow> uuid list \<times> uuid list" where
  "evict_oldest cap owned = (take (length owned - cap) owned, drop (length owned - cap) owned)"

definition drop_session :: "instant \<Rightarrow> uuid \<Rightarrow> hub \<Rightarrow> hub" where
  "drop_session now sid h =
     (if sid \<in> set (hb_sessions h) then
        on_session sid (ses_disconnect now)
          (send_to_session sid (Control op_RECONNECT) (h\<lparr>hb_sessions := hs_remove sid (hb_sessions h)\<rparr>))
      else h)"

definition attach :: "instant \<Rightarrow> uuid \<Rightarrow> hub \<Rightarrow> hub" where
  "attach now sid h =
     (case hm_get (hb_heap h) sid of None \<Rightarrow> h
      | Some s \<Rightarrow>
         (let user = ses_user_id s;
              owned = (case hm_get (hb_by_user h) user of None \<Rightarrow> [] | Some ids \<Rightarrow> ids) @ [sid];
              (evicted, kept) = evict_oldest (gc_max_connections_per_user (hb_config h)) owned;
              h1 = fold (drop_session now) evicted (h\<lparr>hb_by_user := hm_insert user kept (hb_by_user h)\<rparr>)
          in h1\<lparr>hb_sessions := hs_insert sid (hb_sessions h1)\<rparr>))"

definition register :: "instant \<Rightarrow> uuid \<Rightarrow> uuid \<Rightarrow> socket \<Rightarrow> hub \<Rightarrow> hub" where
  "register now sid user outbox h = attach now sid (create_session sid user outbox h)"

definition resumable :: "uuid \<Rightarrow> uuid \<Rightarrow> hub \<Rightarrow> session option" where
  "resumable sid user h =
     (case registered h sid of None \<Rightarrow> None
      | Some s \<Rightarrow> if ses_user_id s = user then Some s else None)"

text \<open>Removal of one session from the registry; also says whether its user has none left.\<close>

definition unregister :: "uuid \<Rightarrow> hub \<Rightarrow> hub \<times> uuid option" where
  "unregister sid h =
     (case registered h sid of None \<Rightarrow> (h, None)
      | Some s \<Rightarrow>
         (let h1 = h\<lparr>hb_sessions := hs_remove sid (hb_sessions h)\<rparr> in
          case hm_get (hb_by_user h) (ses_user_id s) of
            None \<Rightarrow> (h1, None)
          | Some owned \<Rightarrow>
             (let owned' = filter (\<lambda>x. x \<noteq> sid) owned in
              if owned' = [] then (h1\<lparr>hb_by_user := hm_remove (ses_user_id s) (hb_by_user h)\<rparr>, Some (ses_user_id s))
              else (h1\<lparr>hb_by_user := hm_insert (ses_user_id s) owned' (hb_by_user h)\<rparr>, None))))"

definition forget :: "uuid \<Rightarrow> hub \<Rightarrow> hub" where
  "forget sid h = fst (unregister sid h)"

definition ms :: "int \<Rightarrow> int" where
  "ms k = k * 1000000"

definition is_expired :: "instant \<Rightarrow> session \<Rightarrow> bool" where
  "is_expired cutoff s \<longleftrightarrow> \<not> ses_connected s \<and>
     (case ses_disconnected_at s of None \<Rightarrow> False | Some at \<Rightarrow> at \<le> cutoff)"

definition expired_ids :: "instant \<Rightarrow> hub \<Rightarrow> uuid list" where
  "expired_ids cutoff h =
     filter (\<lambda>sid. case hm_get (hb_heap h) sid of None \<Rightarrow> False | Some s \<Rightarrow> is_expired cutoff s) (hb_sessions h)"

fun sweep_ids :: "uuid list \<Rightarrow> hub \<Rightarrow> hub \<times> uuid list" where
  "sweep_ids [] h = (h, [])"
| "sweep_ids (i # is) h =
     (let (h1, t) = unregister i h; (h2, ts) = sweep_ids is h1
      in (h2, (case t of None \<Rightarrow> ts | Some u \<Rightarrow> u # ts)))"

definition sweep_expired :: "instant \<Rightarrow> hub \<Rightarrow> hub \<times> uuid list" where
  "sweep_expired now h = sweep_ids (expired_ids (now - ms (gc_session_ttl_ms (hb_config h))) h) h"

definition sessions_of :: "hub \<Rightarrow> uuid \<Rightarrow> uuid list" where
  "sessions_of h user = (case hm_get (hb_by_user h) user of None \<Rightarrow> [] | Some ids \<Rightarrow> ids)"

definition is_online :: "uuid \<Rightarrow> hub \<Rightarrow> bool" where
  "is_online user h =
     list_ex (\<lambda>sid. case registered h sid of None \<Rightarrow> False | Some s \<Rightarrow> ses_connected s) (sessions_of h user)"

section \<open>Publication\<close>

definition publish_to_session :: "dispatch_event \<Rightarrow> uuid \<Rightarrow> hub \<Rightarrow> hub" where
  "publish_to_session e sid h = (case registered h sid of None \<Rightarrow> h | Some _ \<Rightarrow> dispatch_to_session sid e h)"

definition publish_to_users :: "uuid list \<Rightarrow> dispatch_event \<Rightarrow> hub \<Rightarrow> hub" where
  "publish_to_users users e h =
     fold (\<lambda>user h1. fold (publish_to_session e) (sessions_of h1 user) h1) users h"

definition publish_to_user :: "uuid \<Rightarrow> dispatch_event \<Rightarrow> hub \<Rightarrow> hub" where
  "publish_to_user user e h = publish_to_users [user] e h"

definition broadcast_reconnect :: "hub \<Rightarrow> hub" where
  "broadcast_reconnect h = fold (\<lambda>sid. send_to_session sid (Control op_RECONNECT)) (hb_sessions h) h"

section \<open>Invariant\<close>

text \<open>
  Each registered session is in the heap under its own id and listed exactly once under its user,
  nothing else is listed, and no user has an empty list or more than the limit.
\<close>

definition hub_ok :: "hub \<Rightarrow> bool" where
  "hub_ok h \<longleftrightarrow> hm_ok (hb_by_user h) \<and> distinct (hb_sessions h) \<and> 0 < gc_max_connections_per_user (hb_config h) \<and>
     (\<forall>sid s. hm_get (hb_heap h) sid = Some s \<longrightarrow> ses_id s = sid) \<and>
     (\<forall>sid \<in> set (hb_sessions h). hm_get (hb_heap h) sid \<noteq> None) \<and>
     (\<forall>sid s. hm_get (hb_heap h) sid = Some s \<longrightarrow>
        (sid \<in> set (hb_sessions h) \<longleftrightarrow> sid \<in> set (sessions_of h (ses_user_id s)))) \<and>
     (\<forall>u sid. sid \<in> set (sessions_of h u) \<longrightarrow>
        (\<exists>s. hm_get (hb_heap h) sid = Some s \<and> ses_user_id s = u)) \<and>
     (\<forall>u. distinct (sessions_of h u) \<and> length (sessions_of h u) \<le> gc_max_connections_per_user (hb_config h)) \<and>
     (\<forall>u. hm_get (hb_by_user h) u \<noteq> Some [])"

lemma hub_okD:
  assumes "hub_ok h"
  shows "hm_ok (hb_by_user h)" and "distinct (hb_sessions h)" and "0 < gc_max_connections_per_user (hb_config h)"
    and "hm_get (hb_heap h) sid = Some s \<Longrightarrow> ses_id s = sid"
    and "sid \<in> set (hb_sessions h) \<Longrightarrow> \<exists>s. hm_get (hb_heap h) sid = Some s"
    and "hm_get (hb_heap h) sid = Some s \<Longrightarrow> sid \<in> set (hb_sessions h) \<longleftrightarrow> sid \<in> set (sessions_of h (ses_user_id s))"
    and "sid \<in> set (sessions_of h u) \<Longrightarrow> \<exists>s. hm_get (hb_heap h) sid = Some s \<and> ses_user_id s = u"
    and "distinct (sessions_of h u)" and "length (sessions_of h u) \<le> gc_max_connections_per_user (hb_config h)"
    and "hm_get (hb_by_user h) u \<noteq> Some []"
  using assms unfolding hub_ok_def by (auto simp: hub_ok_def)

text \<open>The invariant reads the heap only through the identity of each session.\<close>

definition identity_of :: "hub \<Rightarrow> uuid \<Rightarrow> (uuid \<times> uuid) option" where
  "identity_of h sid = map_option (\<lambda>s. (ses_id s, ses_user_id s)) (hm_get (hb_heap h) sid)"

definition same_registry :: "hub \<Rightarrow> hub \<Rightarrow> bool" where
  "same_registry h h' \<longleftrightarrow> hb_config h' = hb_config h \<and> hb_sessions h' = hb_sessions h \<and>
     hb_by_user h' = hb_by_user h \<and> (\<forall>sid. identity_of h' sid = identity_of h sid)"

lemma hub_ok_identity:
  "hub_ok h \<longleftrightarrow> hm_ok (hb_by_user h) \<and> distinct (hb_sessions h) \<and> 0 < gc_max_connections_per_user (hb_config h) \<and>
     (\<forall>sid i u. identity_of h sid = Some (i, u) \<longrightarrow> i = sid) \<and>
     (\<forall>sid \<in> set (hb_sessions h). identity_of h sid \<noteq> None) \<and>
     (\<forall>sid i u. identity_of h sid = Some (i, u) \<longrightarrow>
        (sid \<in> set (hb_sessions h) \<longleftrightarrow> sid \<in> set (sessions_of h u))) \<and>
     (\<forall>u sid. sid \<in> set (sessions_of h u) \<longrightarrow> (\<exists>i. identity_of h sid = Some (i, u))) \<and>
     (\<forall>u. distinct (sessions_of h u) \<and> length (sessions_of h u) \<le> gc_max_connections_per_user (hb_config h)) \<and>
     (\<forall>u. hm_get (hb_by_user h) u \<noteq> Some [])"
  unfolding hub_ok_def identity_of_def by auto

lemma same_registry_ok: "same_registry h h' \<Longrightarrow> hub_ok h \<Longrightarrow> hub_ok h'"
  by (simp add: hub_ok_identity same_registry_def sessions_of_def)

lemma same_registry_refl [simp]: "same_registry h h"
  by (simp add: same_registry_def)

lemma same_registry_trans: "same_registry h h' \<Longrightarrow> same_registry h' h'' \<Longrightarrow> same_registry h h''"
  by (simp add: same_registry_def)

lemma same_registry_fold:
  "(\<And>x h. same_registry h (f x h)) \<Longrightarrow> same_registry h (fold f xs h)"
  by (induction xs arbitrary: h) (auto intro: same_registry_trans)

lemma ses_identity [simp]:
  "ses_id (ses_disconnect now s) = ses_id s" "ses_user_id (ses_disconnect now s) = ses_user_id s"
  "ses_id (ses_reconnect tx s) = ses_id s" "ses_user_id (ses_reconnect tx s) = ses_user_id s"
  by (simp_all add: ses_disconnect_def ses_reconnect_def)

lemma push_frame_identity [simp]:
  "ses_id (push_frame f s) = ses_id s" "ses_user_id (push_frame f s) = ses_user_id s"
  "ses_outbox (push_frame f s) = ses_outbox s" "ses_connected (push_frame f s) = ses_connected s"
  "ses_disconnected_at (push_frame f s) = ses_disconnected_at s" "ses_seq (push_frame f s) = ses_seq s"
  by (simp_all add: push_frame_def Let_def split: list.split)

lemma ses_dispatch_identity [simp]:
  "ses_id (fst (ses_dispatch e s)) = ses_id s" "ses_user_id (fst (ses_dispatch e s)) = ses_user_id s"
  "ses_outbox (fst (ses_dispatch e s)) = ses_outbox s" "ses_connected (fst (ses_dispatch e s)) = ses_connected s"
  "ses_disconnected_at (fst (ses_dispatch e s)) = ses_disconnected_at s"
  by (simp_all add: ses_dispatch_def Let_def)

lemma same_registry_on_session:
  "(\<And>s. ses_id (f s) = ses_id s \<and> ses_user_id (f s) = ses_user_id s) \<Longrightarrow> same_registry h (on_session sid f h)"
  by (auto simp: same_registry_def on_session_def identity_of_def option.map_comp o_def)

lemma same_registry_send: "same_registry h (send_to_session sid f h)"
  by (simp add: same_registry_def send_to_session_def identity_of_def split: option.split)

lemma same_registry_dispatch: "same_registry h (dispatch_to_session sid e h)"
  by (auto simp: same_registry_def dispatch_to_session_def identity_of_def case_prod_beta split: option.split)

lemma same_registry_publish: "same_registry h (publish_to_users users e h)"
  unfolding publish_to_users_def
  by (intro same_registry_fold) (simp add: publish_to_session_def same_registry_dispatch split: option.split)

section \<open>Attaching: the connection limit\<close>

definition drop_all :: "uuid list \<Rightarrow> uuid hset \<Rightarrow> uuid hset" where
  "drop_all ids s = filter (\<lambda>x. x \<notin> set ids) s"

lemma drop_session_effect:
  "hb_config (drop_session now sid h) = hb_config h \<and> hb_by_user (drop_session now sid h) = hb_by_user h \<and>
   hb_sessions (drop_session now sid h) = drop_all [sid] (hb_sessions h) \<and>
   identity_of (drop_session now sid h) x = identity_of h x"
proof (cases "sid \<in> set (hb_sessions h)")
  case True
  let ?h1 = "h\<lparr>hb_sessions := hs_remove sid (hb_sessions h)\<rparr>"
  have "same_registry ?h1 (drop_session now sid h)"
    using True same_registry_on_session [of "ses_disconnect now" "send_to_session sid (Control op_RECONNECT) ?h1" sid]
      same_registry_send [of ?h1 sid "Control op_RECONNECT"]
    by (auto simp: drop_session_def intro: same_registry_trans)
  then show ?thesis
    by (simp add: same_registry_def identity_of_def hs_remove_def drop_all_def)
next
  case False
  then have "filter (\<lambda>x. x \<noteq> sid) (hb_sessions h) = hb_sessions h" by (auto intro: filter_True)
  with False show ?thesis by (simp add: drop_session_def drop_all_def)
qed

lemma drop_sessions_effect:
  "hb_config (fold (drop_session now) ids h) = hb_config h \<and>
   hb_by_user (fold (drop_session now) ids h) = hb_by_user h \<and>
   hb_sessions (fold (drop_session now) ids h) = drop_all ids (hb_sessions h) \<and>
   identity_of (fold (drop_session now) ids h) x = identity_of h x"
proof (induction ids arbitrary: h)
  case (Cons i ids)
  have "drop_all ids (drop_all [i] s) = drop_all (i # ids) s" for s
    by (auto simp: drop_all_def intro: filter_cong)
  with Cons [of "drop_session now i h"] drop_session_effect [of now i h] show ?case by simp
qed (simp add: drop_all_def)

lemma attach_effect:
  assumes "identity_of h sid = Some (sid, u)" and "sid \<notin> set (hb_sessions h)"
    and cap: "0 < gc_max_connections_per_user (hb_config h)"
  defines "owned \<equiv> sessions_of h u @ [sid]"
  defines "n \<equiv> length owned - gc_max_connections_per_user (hb_config h)"
  shows "hb_config (attach now sid h) = hb_config h"
    and "hb_by_user (attach now sid h) = hm_insert u (drop n owned) (hb_by_user h)"
    and "set (hb_sessions (attach now sid h)) = insert sid (set (hb_sessions h) - set (take n owned))"
    and "distinct (hb_sessions h) \<Longrightarrow> distinct (hb_sessions (attach now sid h))"
    and "identity_of (attach now sid h) x = identity_of h x"
proof -
  obtain s where s: "hm_get (hb_heap h) sid = Some s" "ses_user_id s = u"
    using assms(1) by (auto simp: identity_of_def)
  let ?reg = "h\<lparr>hb_by_user := hm_insert u (drop n owned) (hb_by_user h)\<rparr>"
  let ?h1 = "fold (drop_session now) (take n owned) ?reg"
  have at: "attach now sid h = ?h1\<lparr>hb_sessions := hs_insert sid (hb_sessions ?h1)\<rparr>"
    using s by (simp add: attach_def evict_oldest_def Let_def owned_def n_def sessions_of_def)
  note eff = drop_sessions_effect [of now "take n owned" ?reg]
  show "hb_config (attach now sid h) = hb_config h"
    "hb_by_user (attach now sid h) = hm_insert u (drop n owned) (hb_by_user h)"
    using eff by (simp_all add: at)
  show "set (hb_sessions (attach now sid h)) = insert sid (set (hb_sessions h) - set (take n owned))"
    using eff by (auto simp: at drop_all_def)
  show "distinct (hb_sessions h) \<Longrightarrow> distinct (hb_sessions (attach now sid h))"
    using eff by (simp add: at drop_all_def)
  show "identity_of (attach now sid h) x = identity_of h x"
    using eff [of x] by (simp add: at identity_of_def)
qed

lemma hub_ok_identityD:
  assumes "hub_ok h"
  shows "identity_of h x = Some (i, v) \<Longrightarrow> i = x"
    and "identity_of h x = Some (i, v) \<Longrightarrow> x \<in> set (hb_sessions h) \<longleftrightarrow> x \<in> set (sessions_of h v)"
    and "x \<in> set (sessions_of h v) \<Longrightarrow> identity_of h x = Some (x, v)"
    and "x \<in> set (hb_sessions h) \<Longrightarrow> identity_of h x \<noteq> None"
  using assms unfolding hub_ok_identity by (blast, blast, blast, blast)

lemma take_drop_parts:
  assumes "distinct xs"
  shows "x \<in> set (drop n xs) \<longleftrightarrow> x \<in> set xs \<and> x \<notin> set (take n xs)"
proof -
  have "distinct (take n xs @ drop n xs)" using assms by simp
  then have "set (take n xs) \<inter> set (drop n xs) = {}" by (simp only: distinct_append)
  moreover have "set xs = set (take n xs) \<union> set (drop n xs)"
    by (metis append_take_drop_id set_append)
  ultimately show ?thesis by blast
qed

lemma attach_sessions_of:
  assumes "hub_ok h" and "identity_of h sid = Some (sid, u)" and "sid \<notin> set (hb_sessions h)"
  defines "owned \<equiv> sessions_of h u @ [sid]"
  defines "n \<equiv> length owned - gc_max_connections_per_user (hb_config h)"
  shows "sessions_of (attach now sid h) v = (if v = u then drop n owned else sessions_of h v)"
    and "distinct owned" and "sid \<in> set (drop n owned)" and "sid \<notin> set (take n owned)"
proof -
  have cap: "0 < gc_max_connections_per_user (hb_config h)" using assms(1) by (rule hub_okD)
  show "sessions_of (attach now sid h) v = (if v = u then drop n owned else sessions_of h v)"
    using attach_effect(2) [OF assms(2,3) cap] by (simp add: sessions_of_def owned_def n_def)
  have "sid \<notin> set (sessions_of h u)"
    using hub_ok_identityD(2) [OF assms(1,2)] assms(3) by simp
  then show d: "distinct owned" using hub_okD(8) [OF assms(1)] by (simp add: owned_def)
  have "n \<le> length (sessions_of h u)" using cap by (simp add: n_def owned_def)
  then show "sid \<in> set (drop n owned)" by (simp add: owned_def)
  then show "sid \<notin> set (take n owned)" using take_drop_parts [OF d] by blast
qed

lemma attach_ok:
  assumes ok: "hub_ok h" and id: "identity_of h sid = Some (sid, u)" and fresh: "sid \<notin> set (hb_sessions h)"
  shows "hub_ok (attach now sid h)"
proof -
  let ?owned = "sessions_of h u @ [sid]"
  let ?n = "length ?owned - gc_max_connections_per_user (hb_config h)"
  have cap: "0 < gc_max_connections_per_user (hb_config h)" using ok by (rule hub_okD)
  note eff = attach_effect [OF id fresh cap]
  note own = attach_sessions_of [OF ok id fresh]
  have owned: "x \<in> set ?owned \<longleftrightarrow> x = sid \<or> x \<in> set (sessions_of h u)" for x by auto
  have parts: "x \<in> set (drop ?n ?owned) \<longleftrightarrow> x \<in> set ?owned \<and> x \<notin> set (take ?n ?owned)" for x
    by (rule take_drop_parts [OF own(2)])
  have taken: "x \<in> set (take ?n ?owned) \<Longrightarrow> x \<in> set (sessions_of h u)" for x
    using own(4) owned [of x] by (metis in_set_takeD)
  have user: "x \<in> set ?owned \<Longrightarrow> identity_of h x = Some (x, u)" for x
    using id hub_ok_identityD(3) [OF ok] by (auto simp: owned)
  have listed: "x \<in> set (hb_sessions (attach now sid h)) \<longleftrightarrow> x \<in> set (sessions_of (attach now sid h) v)"
    if x: "identity_of h x = Some (i, v)" for x i v
  proof (cases "v = u")
    case True
    then show ?thesis
      using hub_ok_identityD(2) [OF ok x] own(1,4) parts [of x] owned [of x] eff(3) by auto
  next
    case False
    then have "x \<noteq> sid" "x \<notin> set (take ?n ?owned)"
      using x id user [of x] taken [of x] owned [of x] by auto
    then show ?thesis using False hub_ok_identityD(2) [OF ok x] own(1) eff(3) by simp
  qed
  show ?thesis
    unfolding hub_ok_identity eff(5)
  proof (intro conjI allI impI ballI)
    show "hm_ok (hb_by_user (attach now sid h))" using hub_okD(1) [OF ok] eff(2) by simp
    show "distinct (hb_sessions (attach now sid h))" using eff(4) hub_okD(2) [OF ok] by simp
    show "0 < gc_max_connections_per_user (hb_config (attach now sid h))" using cap eff(1) by simp
    show "i = x" if "identity_of h x = Some (i, v)" for x i v using hub_ok_identityD(1) [OF ok that] .
    show "identity_of h x \<noteq> None" if "x \<in> set (hb_sessions (attach now sid h))" for x
      using that eff(3) id hub_ok_identityD(4) [OF ok] by auto
    show "x \<in> set (hb_sessions (attach now sid h)) \<longleftrightarrow> x \<in> set (sessions_of (attach now sid h) v)"
      if "identity_of h x = Some (i, v)" for x i v using that by (rule listed)
    show "\<exists>i. identity_of h x = Some (i, v)" if "x \<in> set (sessions_of (attach now sid h) v)" for x v
      using that own(1) [where v = v] user parts hub_ok_identityD(3) [OF ok] by (auto split: if_splits)
    show "distinct (sessions_of (attach now sid h) v)" for v
      using own(1) [where v = v] distinct_drop [OF own(2), of ?n] hub_okD(8) [OF ok, of v]
      by (simp del: drop_append)
    show "length (sessions_of (attach now sid h) v) \<le> gc_max_connections_per_user (hb_config (attach now sid h))" for v
      using own(1) [where v = v] hub_okD(9) [OF ok, of v] eff(1) by auto
    show "hm_get (hb_by_user (attach now sid h)) v \<noteq> Some []" for v
      using eff(2) own(3) hub_okD(10) [OF ok, of v] by auto
  qed
qed

lemma create_session_ok:
  assumes "hub_ok h" and "hm_get (hb_heap h) sid = None"
  shows "hub_ok (create_session sid user tx h)"
    and "identity_of (create_session sid user tx h) sid = Some (sid, user)"
    and "sid \<notin> set (hb_sessions (create_session sid user tx h))"
    and "sessions_of (create_session sid user tx h) u = sessions_of h u"
    and "hb_config (create_session sid user tx h) = hb_config h"
    and "hb_sessions (create_session sid user tx h) = hb_sessions h"
proof -
  have n: "sid \<notin> set (hb_sessions h)" "sid \<notin> set (sessions_of h v)" for v
    using hub_okD(5,7) [OF assms(1)] assms(2) by fastforce+
  have i: "identity_of (create_session sid user tx h) x = (if x = sid then Some (sid, user) else identity_of h x)" for x
    by (simp add: create_session_def identity_of_def session_new_def)
  have so: "sessions_of (create_session sid user tx h) v = sessions_of h v" for v
    by (simp add: create_session_def sessions_of_def)
  show "hub_ok (create_session sid user tx h)"
    using assms(1) n unfolding hub_ok_identity i so by (auto simp: create_session_def split: if_splits)
  show "identity_of (create_session sid user tx h) sid = Some (sid, user)" using i by simp
  show "sid \<notin> set (hb_sessions (create_session sid user tx h))" using n by (simp add: create_session_def)
  show "sessions_of (create_session sid user tx h) u = sessions_of h u" by (rule so)
  show "hb_config (create_session sid user tx h) = hb_config h"
    "hb_sessions (create_session sid user tx h) = hb_sessions h" by (simp_all add: create_session_def)
qed

lemma register_ok: "hub_ok h \<Longrightarrow> hm_get (hb_heap h) sid = None \<Longrightarrow> hub_ok (register now sid user tx h)"
  unfolding register_def by (rule attach_ok [OF create_session_ok(1,2,3)])

lemma resumable_iff:
  "resumable sid user h \<noteq> None \<longleftrightarrow> sid \<in> set (hb_sessions h) \<and> (\<exists>i. identity_of h sid = Some (i, user))"
  by (auto simp: resumable_def registered_def identity_of_def split: option.splits)

lemma resumable_iff_listed: "hub_ok h \<Longrightarrow> resumable sid user h \<noteq> None \<longleftrightarrow> sid \<in> set (sessions_of h user)"
  unfolding resumable_iff using hub_ok_identityD(2,3) [of h] by blast

text \<open>
  C9.  Connection limit: registering a fresh connection keeps the registry consistent, leaves at most
  \<open>max_connections_per_user\<close> sessions to the user, which are the most recent ones in order of
  connection and include the new one, and leaves every other user's sessions as they were.  A
  session is resumable exactly by the user it is listed under.
\<close>
theorem register_connection_limit:
  assumes "hub_ok h" and "hm_get (hb_heap h) sid = None"
  shows "let h' = register now sid user tx h; owned = sessions_of h user @ [sid];
             cap = gc_max_connections_per_user (hb_config h)
         in hub_ok h' \<and> sessions_of h' user = drop (length owned - cap) owned \<and>
            length (sessions_of h' user) \<le> cap \<and> sid \<in> set (sessions_of h' user) \<and>
            (\<forall>v. v \<noteq> user \<longrightarrow> sessions_of h' v = sessions_of h v) \<and>
            (\<forall>x v. resumable x v h' \<noteq> None \<longleftrightarrow> x \<in> set (sessions_of h' v))"
proof -
  let ?h = "create_session sid user tx h"
  note c = create_session_ok [OF assms, of user tx]
  have ok: "hub_ok (register now sid user tx h)" by (rule register_ok [OF assms])
  note so = attach_sessions_of [OF c(1,2,3)]
  have "sessions_of (register now sid user tx h) v =
      (if v = user then drop (length (sessions_of h user @ [sid]) - gc_max_connections_per_user (hb_config h)) (sessions_of h user @ [sid])
       else sessions_of h v)" for v
    unfolding register_def using so(1) c(4,5) by simp
  moreover have "sid \<in> set (sessions_of (register now sid user tx h) user)"
    unfolding register_def using so(1,3) by simp
  ultimately show ?thesis
    using ok resumable_iff_listed [OF ok] hub_okD(9) [OF ok, of user] assms
      attach_effect(1) [OF c(2,3)] hub_okD(3) [OF c(1)] c(5)
    by (auto simp: Let_def register_def)
qed

definition sample_config :: gateway_config where
  "sample_config = \<lparr>gc_heartbeat_interval_ms = 30000, gc_session_ttl_ms = 90000,
     gc_resume_buffer_size = 3, gc_max_connections_per_user = 1\<rparr>"

lemma hub_new_ok: "0 < gc_max_connections_per_user c \<Longrightarrow> hub_ok (hub_new c)"
  by (simp add: hub_ok_def hub_new_def sessions_of_def)

lemma sample_hub_ok: "hub_ok (hub_new sample_config)"
  by (simp add: hub_new_ok sample_config_def)

theorem register_connection_limit_witness:
  "let h' = register 5 12 7 1 (register 0 11 7 0 (hub_new sample_config))
   in hub_ok h' \<and> sessions_of h' 7 = [12] \<and> resumable 11 7 h' = None \<and> resumable 12 8 h' = None"
proof -
  let ?h1 = "register 0 11 7 0 (hub_new sample_config)" and ?h2 = "register 5 12 7 1 (register 0 11 7 0 (hub_new sample_config))"
  have e: "hm_get (hb_heap (hub_new sample_config)) 11 = None" "sessions_of (hub_new sample_config) 7 = []"
    "gc_max_connections_per_user (hb_config (hub_new sample_config)) = 1"
    by (simp_all add: hub_new_def sessions_of_def sample_config_def)
  have h1: "hub_ok ?h1" "sessions_of ?h1 7 = [11]"
    using register_connection_limit [OF sample_hub_ok e(1), of 0 7 0] e(2,3) by (simp_all add: Let_def)
  have h1': "gc_max_connections_per_user (hb_config ?h1) = 1" "hm_get (hb_heap ?h1) 12 = None"
    by code_simp+
  have h2: "hub_ok ?h2" "sessions_of ?h2 7 = [12]"
    "\<And>x v. resumable x v ?h2 \<noteq> None \<longleftrightarrow> x \<in> set (sessions_of ?h2 v)"
    using register_connection_limit [OF h1(1) h1'(2), of 5 7 1] h1(2) h1'(1) by (simp_all add: Let_def)
  have "resumable 11 7 ?h2 = None" using h2(2) h2(3) [of 11 7] by auto
  moreover have "sessions_of ?h2 8 = []" by code_simp
  then have "resumable 12 8 ?h2 = None" using h2(3) [of 12 8] by auto
  ultimately show ?thesis using h2(1,2) by (simp add: Let_def)
qed

section \<open>Publishing\<close>

text \<open>\<open>delivered h h'\<close>: the frames queued between two states.\<close>

definition delivered :: "hub \<Rightarrow> hub \<Rightarrow> outgoing" where
  "delivered h h' = drop (length (hb_out h)) (hb_out h')"

text \<open>The socket a registered session of a user currently writes to.\<close>

definition listens :: "hub \<Rightarrow> uuid \<Rightarrow> socket \<Rightarrow> bool" where
  "listens h user tx \<longleftrightarrow> (\<exists>sid \<in> set (sessions_of h user). \<exists>s. registered h sid = Some s \<and> ses_outbox s = Some tx)"

definition same_outboxes :: "hub \<Rightarrow> hub \<Rightarrow> bool" where
  "same_outboxes h h' \<longleftrightarrow> (\<forall>sid. map_option ses_outbox (hm_get (hb_heap h') sid) = map_option ses_outbox (hm_get (hb_heap h) sid))"

definition is_event_frame :: "dispatch_event \<Rightarrow> server_frame \<Rightarrow> bool" where
  "is_event_frame e f \<longleftrightarrow> (\<exists>s. f = Dispatch (dispatch_frame_new s e))"

text \<open>What publishing to a list of sessions adds to the sockets.\<close>

lemma publish_to_session_out:
  "\<exists>out. hb_out (publish_to_session e sid h) = hb_out h @ out \<and>
     map fst out = (case registered h sid of None \<Rightarrow> [] | Some s \<Rightarrow> (case ses_outbox s of None \<Rightarrow> [] | Some tx \<Rightarrow> [tx])) \<and>
     list_all (\<lambda>(tx, f). is_event_frame e f) out"
  by (auto simp: publish_to_session_def registered_def dispatch_to_session_def ses_dispatch_def send_text_def
      is_event_frame_def Let_def split: option.splits)

lemma publish_to_session_same:
  "same_registry h (publish_to_session e sid h)" "same_outboxes h (publish_to_session e sid h)"
proof -
  show "same_registry h (publish_to_session e sid h)"
    by (simp add: publish_to_session_def same_registry_dispatch split: option.split)
  have "map_option ses_outbox (hm_get (hb_heap (dispatch_to_session sid e h)) x) = map_option ses_outbox (hm_get (hb_heap h) x)" for x
    by (auto simp: dispatch_to_session_def case_prod_beta split: option.split)
  then show "same_outboxes h (publish_to_session e sid h)"
    by (simp add: same_outboxes_def publish_to_session_def split: option.split)
qed

definition outbox_of :: "hub \<Rightarrow> uuid \<Rightarrow> socket list" where
  "outbox_of h sid =
     (case registered h sid of None \<Rightarrow> [] | Some s \<Rightarrow> (case ses_outbox s of None \<Rightarrow> [] | Some tx \<Rightarrow> [tx]))"

lemma same_outbox_of: "same_registry h h' \<Longrightarrow> same_outboxes h h' \<Longrightarrow> outbox_of h' sid = outbox_of h sid"
  by (auto simp: same_registry_def same_outboxes_def outbox_of_def registered_def split: option.splits)
    (metis map_option_eq_Some option.distinct(1) option.inject option.map_disc_iff)+

definition publishes :: "dispatch_event \<Rightarrow> socket list \<Rightarrow> hub \<Rightarrow> hub \<Rightarrow> bool" where
  "publishes e txs h h' \<longleftrightarrow> same_registry h h' \<and> same_outboxes h h' \<and>
     (\<exists>out. hb_out h' = hb_out h @ out \<and> map fst out = txs \<and> list_all (\<lambda>(tx, f). is_event_frame e f) out)"

lemma publishes_refl: "publishes e [] h h"
  by (simp add: publishes_def same_outboxes_def)

lemma publishes_trans: "publishes e xs h h1 \<Longrightarrow> publishes e ys h1 h2 \<Longrightarrow> publishes e (xs @ ys) h h2"
  by (auto simp: publishes_def same_outboxes_def intro: same_registry_trans)

lemma publish_to_session_publishes: "publishes e (outbox_of h sid) h (publish_to_session e sid h)"
  using publish_to_session_out [of e sid h] publish_to_session_same [of h e sid]
  by (simp add: publishes_def outbox_of_def)

lemma publishes_outbox_of: "publishes e xs h h' \<Longrightarrow> outbox_of h' = outbox_of h \<and> sessions_of h' = sessions_of h"
  by (auto simp: publishes_def same_outbox_of fun_eq_iff sessions_of_def same_registry_def)

lemma publish_sessions:
  "publishes e (concat (map (outbox_of h) sids)) h (fold (publish_to_session e) sids h)"
proof (induction sids arbitrary: h)
  case (Cons i sids)
  have p: "publishes e (outbox_of h i) h (publish_to_session e i h)" by (rule publish_to_session_publishes)
  from publishes_trans [OF p Cons.IH] publishes_outbox_of [OF p] show ?case by simp
qed (simp add: publishes_refl)

lemma publish_to_users_publishes:
  "publishes e (concat (map (\<lambda>u. concat (map (outbox_of h) (sessions_of h u))) users)) h (publish_to_users users e h)"
  unfolding publish_to_users_def
proof (induction users arbitrary: h)
  case (Cons u users)
  have p: "publishes e (concat (map (outbox_of h) (sessions_of h u))) h (fold (publish_to_session e) (sessions_of h u) h)"
    by (rule publish_sessions)
  from publishes_trans [OF p Cons.IH] publishes_outbox_of [OF p] show ?case by simp
qed (simp add: publishes_refl)

lemma publishes_delivered:
  "publishes e txs h h' \<Longrightarrow> map fst (delivered h h') = txs \<and>
     list_all (\<lambda>(tx, f). is_event_frame e f) (delivered h h') \<and> same_registry h h' \<and> same_outboxes h h'"
  by (auto simp: publishes_def delivered_def)

text \<open>
  Fan-out is exact: publishing an event to a list of users queues one frame, carrying that event,
  on the socket of each connected registered session of each listed user, in order, and on no other
  socket; the registry and the sockets stay as they were.
\<close>
theorem publish_reaches_exactly:
  "let h' = publish_to_users users e h
   in map fst (delivered h h') = concat (map (\<lambda>u. concat (map (outbox_of h) (sessions_of h u))) users) \<and>
      list_all (\<lambda>(tx, f). is_event_frame e f) (delivered h h') \<and> same_registry h h' \<and> same_outboxes h h'"
  unfolding Let_def by (rule publishes_delivered [OF publish_to_users_publishes])

section \<open>Expiry\<close>

lemma unregister_heap: "hb_heap (fst (unregister i h)) = hb_heap h \<and> hb_config (fst (unregister i h)) = hb_config h"
  by (simp add: unregister_def Let_def split: option.split)

lemma unregister_sessions: "registered h i \<noteq> None \<Longrightarrow> hb_sessions (fst (unregister i h)) = hs_remove i (hb_sessions h)"
  by (auto simp: unregister_def Let_def split: option.split)

lemma unregister_listed:
  assumes "hub_ok h" and "registered h i \<noteq> None"
  shows "sessions_of (fst (unregister i h)) u = filter (\<lambda>x. x \<noteq> i) (sessions_of h u)"
proof -
  obtain s where s: "registered h i = Some s" using assms(2) by blast
  then have id: "identity_of h i = Some (i, ses_user_id s)" and mem: "i \<in> set (hb_sessions h)"
    using hub_okD(4) [OF assms(1)] by (auto simp: registered_def identity_of_def split: if_splits)
  have owner: "i \<in> set (sessions_of h (ses_user_id s))"
    using hub_ok_identityD(2) [OF assms(1) id] mem by simp
  then obtain owned where o: "hm_get (hb_by_user h) (ses_user_id s) = Some owned" "i \<in> set owned"
    by (cases "hm_get (hb_by_user h) (ses_user_id s)") (auto simp: sessions_of_def)
  have other: "u \<noteq> ses_user_id s \<Longrightarrow> filter (\<lambda>x. x \<noteq> i) (sessions_of h u) = sessions_of h u"
    using hub_ok_identityD(3) [OF assms(1), of i u] id by (intro filter_True) auto
  show ?thesis
    using s o other by (auto simp: unregister_def Let_def sessions_of_def split: option.splits)
qed

lemma filter_empty_iff: "filter (\<lambda>x. x \<noteq> i) xs = [] \<longleftrightarrow> set xs \<subseteq> {i}"
  by (auto simp: filter_empty_conv)

lemma unregister_ok:
  assumes ok: "hub_ok h" and "registered h i \<noteq> None"
  shows "hub_ok (fst (unregister i h))"
proof -
  let ?h = "fst (unregister i h)"
  have id: "identity_of ?h = identity_of h" by (simp add: fun_eq_iff identity_of_def unregister_heap)
  have so: "sessions_of ?h u = filter (\<lambda>x. x \<noteq> i) (sessions_of h u)" for u
    by (rule unregister_listed [OF assms])
  have se: "hb_sessions ?h = hs_remove i (hb_sessions h)" by (rule unregister_sessions [OF assms(2)])
  have bu: "hm_ok (hb_by_user ?h) \<and> hm_get (hb_by_user ?h) u \<noteq> Some []" for u
    using hub_okD(1) [OF ok] hub_okD(10) [OF ok, of u]
    by (auto simp: unregister_def Let_def split: option.splits)
  have len: "length (sessions_of ?h u) \<le> gc_max_connections_per_user (hb_config h)" for u
    using hub_okD(9) [OF ok, of u] so [of u] by (metis length_filter_le order_trans)
  show ?thesis
    using ok bu len unfolding hub_ok_identity id so se by (auto simp: unregister_heap)
qed

lemma sweep_ids_effect:
  "hub_ok h \<Longrightarrow> set ids \<subseteq> set (hb_sessions h) \<Longrightarrow> distinct ids \<Longrightarrow>
     hub_ok (fst (sweep_ids ids h)) \<and> hb_heap (fst (sweep_ids ids h)) = hb_heap h \<and>
     set (hb_sessions (fst (sweep_ids ids h))) = set (hb_sessions h) - set ids"
proof (induction ids arbitrary: h)
  case (Cons i ids)
  have reg: "registered h i \<noteq> None"
    using Cons.prems hub_okD(5) [OF Cons.prems(1), of i] by (auto simp: registered_def)
  have "hub_ok (fst (unregister i h))" by (rule unregister_ok [OF Cons.prems(1) reg])
  moreover have "set ids \<subseteq> set (hb_sessions (fst (unregister i h)))"
    using Cons.prems unregister_sessions [OF reg] by auto
  ultimately have "hub_ok (fst (sweep_ids ids (fst (unregister i h)))) \<and>
     hb_heap (fst (sweep_ids ids (fst (unregister i h)))) = hb_heap (fst (unregister i h)) \<and>
     set (hb_sessions (fst (sweep_ids ids (fst (unregister i h))))) = set (hb_sessions (fst (unregister i h))) - set ids"
    using Cons.IH [of "fst (unregister i h)"] Cons.prems by simp
  then show ?case
    using unregister_heap [of i h] unregister_sessions [OF reg]
    by (auto simp: case_prod_beta split: prod.splits)
qed simp

text \<open>
  The TTL sweep removes exactly the registered sessions whose socket has been gone for at least the
  TTL: a connected session and one that dropped more recently stay resumable, an expired one does
  not, and the registry stays consistent.
\<close>
theorem sweep_removes_exactly_expired:
  assumes "hub_ok h"
  shows "hub_ok (fst (sweep_expired now h)) \<and>
    (\<forall>sid. registered (fst (sweep_expired now h)) sid =
       (case registered h sid of None \<Rightarrow> None
        | Some s \<Rightarrow> if is_expired (now - ms (gc_session_ttl_ms (hb_config h))) s then None else Some s))"
proof -
  let ?cut = "now - ms (gc_session_ttl_ms (hb_config h))"
  let ?ids = "expired_ids ?cut h"
  have "set ?ids \<subseteq> set (hb_sessions h)" "distinct ?ids"
    using hub_okD(2) [OF assms] by (auto simp: expired_ids_def)
  note eff = sweep_ids_effect [OF assms this]
  have "registered (fst (sweep_expired now h)) sid =
       (case registered h sid of None \<Rightarrow> None | Some s \<Rightarrow> if is_expired ?cut s then None else Some s)" for sid
    using eff hub_okD(5) [OF assms, of sid]
    by (auto simp: sweep_expired_def registered_def expired_ids_def split: option.splits)
  with eff show ?thesis by (simp add: sweep_expired_def)
qed

theorem sweep_removes_exactly_expired_witness:
  "let h = on_session 11 (ses_disconnect 0) (register 0 11 7 0 (hub_new sample_config))
   in registered (fst (sweep_expired (ms 90000) h)) 11 = None \<and> registered (fst (sweep_expired (ms 89999) h)) 11 \<noteq> None"
proof -
  let ?reg = "register 0 11 7 0 (hub_new sample_config)" and ?h = "on_session 11 (ses_disconnect 0) (register 0 11 7 0 (hub_new sample_config))"
  have "hm_get (hb_heap (hub_new sample_config)) 11 = None" by (simp add: hub_new_def)
  then have "hub_ok ?reg"
    by (rule register_ok [OF sample_hub_ok])
  moreover have "same_registry ?reg ?h" by (rule same_registry_on_session) simp
  ultimately have ok: "hub_ok ?h" using same_registry_ok by blast
  obtain s where s: "registered ?h 11 = Some s" "ses_connected s = False" "ses_disconnected_at s = Some 0"
    by (simp add: registered_def on_session_def register_def attach_def create_session_def hub_new_def sample_config_def
        evict_oldest_def session_new_def ses_disconnect_def drop_session_def Let_def)
  have "gc_session_ttl_ms (hb_config ?h) = 90000" by code_simp
  then show ?thesis
    using sweep_removes_exactly_expired [OF ok, of "ms 90000"] sweep_removes_exactly_expired [OF ok, of "ms 89999"] s
    by (simp add: Let_def is_expired_def ms_def)
qed

end
