(* ===== verification/Access.thy ===== *)
theory Access
  imports Replica Presence Share_Sessions Livekit Hub
begin

text \<open>
  \<^verbatim>\<open>crates/api/src/state.rs\<close>, \<^verbatim>\<open>permissions.rs\<close>, \<^verbatim>\<open>gateway/ready.rs\<close> and the room read of
  \<^verbatim>\<open>routes/rooms.rs\<close>: the shared state of the server (each table of the pool, the hub, the publisher
  ledger, the replica and the announcements sent so far), the two route guards, and the room a client
  is told about when it connects.  The locale \<open>authority\<close> is what the guards need to know of the
  replica.
\<close>

section \<open>State\<close>

record room_broadcast =
  rb_discord_channel_id :: i64
  rb_publishers :: "i64 list"
  rb_viewers :: nat

definition rb_is_idle :: "room_broadcast \<Rightarrow> bool" where
  "rb_is_idle b \<longleftrightarrow> rb_publishers b = []"

record app_state =
  ap_users :: users
  ap_presence :: presence
  ap_shares :: share_sessions
  ap_hub :: hub
  ap_room_config :: room_config
  ap_grants :: grants
  ap_replica :: replica
  ap_announced :: "room_broadcast list"

definition app_state_new :: "users \<Rightarrow> gateway_config \<Rightarrow> room_config \<Rightarrow> int \<Rightarrow> app_state" where
  "app_state_new us gc rc grace =
     \<lparr>ap_users = us, ap_presence = [], ap_shares = [], ap_hub = hub_new gc, ap_room_config = rc, ap_grants = [],
      ap_replica = replica_new grace, ap_announced = []\<rparr>"

definition announce :: "room_broadcast \<Rightarrow> app_state \<Rightarrow> app_state" where
  "announce b s = s\<lparr>ap_announced := ap_announced s @ [b]\<rparr>"

section \<open>Guards (permissions.rs)\<close>

record room_access =
  ra_user :: user_row
  ra_permissions :: discord_permissions
  ra_discord_guild_id :: i64
  ra_channel_name :: string

definition room_access :: "instant \<Rightarrow> app_state \<Rightarrow> uuid \<Rightarrow> i64 \<Rightarrow> app_error + room_access" where
  "room_access now s u ch =
    (if staleness now (ap_replica s) = Stale then Inl ReplicaStale
     else case users_find_by_id (ap_users s) u of
       Inl e \<Rightarrow> Inl (app_of_db e)
     | Inr user \<Rightarrow>
       (case u64_try_from ch of
          None \<Rightarrow> Inl (invisible ''room'')
        | Some channel \<Rightarrow>
          (case u64_try_from (ur_discord_user_id user) of
             None \<Rightarrow> Inl (Internal ''discord_user_id negativo no banco'')
           | Some discord_user \<Rightarrow>
             (case permissions (ap_replica s) discord_user channel of
                None \<Rightarrow> Inl (invisible ''room'')
              | Some p \<Rightarrow>
                (if \<not> can_view p then Inl (invisible ''room'')
                 else if \<not> can_join_room p then Inl Forbidden
                 else case channel_info (ap_replica s) channel of
                   None \<Rightarrow> Inl (invisible ''room'')
                 | Some (guild, name) \<Rightarrow>
                     Inr \<lparr>ra_user = user, ra_permissions = p, ra_discord_guild_id = i64_or_default guild,
                          ra_channel_name = name\<rparr>)))))"

definition publish_access :: "instant \<Rightarrow> app_state \<Rightarrow> uuid \<Rightarrow> i64 \<Rightarrow> app_error + room_access" where
  "publish_access now s u ch =
     res_bind (room_access now s u ch) (\<lambda>access.
       if \<not> can_publish (ra_permissions access) then Inl Forbidden else Inr access)"

section \<open>What a client sees of a room (routes/rooms.rs, gateway/ready.rs)\<close>

definition state_of :: "app_state \<Rightarrow> i64 \<Rightarrow> i64 \<Rightarrow> string \<Rightarrow> room_state" where
  "state_of s ch guild name =
     \<lparr>rst_discord_channel_id = ch, rst_discord_guild_id = guild, rst_channel_name = name,
      rst_participants = map participant_to_wire (list_by_channel (ap_users s) (ap_presence s) ch)\<rparr>"

definition get_room :: "instant \<Rightarrow> uuid \<Rightarrow> i64 \<Rightarrow> app_state \<Rightarrow> app_error + room_state" where
  "get_room now u ch s =
     res_bind (room_access now s u ch) (\<lambda>a. Inr (state_of s ch (ra_discord_guild_id a) (ra_channel_name a)))"

definition voice_room :: "app_state \<Rightarrow> u64 \<Rightarrow> i64 option" where
  "voice_room s discord_user =
     Option.bind (voice_channel_of (ap_replica s) discord_user) (\<lambda>channel.
       if may_join (ap_replica s) discord_user channel then i64_try_from channel else None)"

definition current_room :: "app_state \<Rightarrow> uuid \<Rightarrow> u64 option \<Rightarrow> room_state option" where
  "current_room s u discord_user =
     (let in_voice = Option.bind discord_user (voice_room s);
          channel = (case in_voice of Some c \<Rightarrow> Some c | None \<Rightarrow> channel_of (ap_presence s) u)
      in Option.bind channel (\<lambda>ch.
         Option.bind (u64_try_from ch) (\<lambda>c.
         Option.bind (channel_info (ap_replica s) c) (\<lambda>(guild, name).
           Some (state_of s ch (i64_or_default guild) name)))))"

definition placeholder_user :: "uuid \<Rightarrow> current_user" where
  "placeholder_user i = \<lparr>us_id = i, us_discord_user_id = 0, us_username = '''', us_display_name = None,
     us_avatar_url = None, cu_created_at = 0\<rparr>"

definition ready_build :: "app_state \<Rightarrow> uuid \<Rightarrow> uuid \<Rightarrow> ready" where
  "ready_build s u sid =
     (case users_find_by_id (ap_users s) u of
        Inr row \<Rightarrow>
          \<lparr>rdy_session_id = sid, rdy_user = user_to_current row,
           rdy_room = current_room s u (u64_try_from (ur_discord_user_id row)),
           rdy_heartbeat_interval_ms = nat (gc_heartbeat_interval_ms (hb_config (ap_hub s)))\<rparr>
      | Inl _ \<Rightarrow>
          \<lparr>rdy_session_id = sid, rdy_user = placeholder_user u, rdy_room = None,
           rdy_heartbeat_interval_ms = nat (gc_heartbeat_interval_ms (hb_config (ap_hub s)))\<rparr>)"

section \<open>The contract of the replica\<close>

text \<open>
  A source of Discord rights: whoever has rights on a channel can be told which channel it is, joining
  is stronger than seeing, and someone removed from a guild has no rights on its channels.
\<close>

locale authority =
  fixes rights :: "'r \<Rightarrow> u64 \<Rightarrow> u64 \<Rightarrow> discord_permissions option"
    and info :: "'r \<Rightarrow> u64 \<Rightarrow> (u64 \<times> string) option"
    and expel :: "u64 \<Rightarrow> u64 \<Rightarrow> 'r \<Rightarrow> 'r"
  assumes rights_known: "rights r u c = Some p \<Longrightarrow> info r c \<noteq> None"
    and expelled: "info r c = Some (g, n) \<Longrightarrow> rights (expel g u r) u c = None"
    and bystander: "v \<noteq> u \<Longrightarrow> rights (expel g u r) v c = rights r v c"
begin

definition enters :: "'r \<Rightarrow> u64 \<Rightarrow> u64 \<Rightarrow> bool" where
  "enters r u c \<longleftrightarrow> (case rights r u c of None \<Rightarrow> False | Some p \<Rightarrow> can_join_room p)"

lemma enters_info: "enters r u c \<Longrightarrow> \<exists>g n. info r c = Some (g, n)"
  by (auto simp: enters_def split: option.splits dest: rights_known)

lemma unknown_no_rights: "info r c = None \<Longrightarrow> rights r u c = None"
  using rights_known by (cases "rights r u c") auto

lemma expelled_cannot_enter: "info r c = Some (g, n) \<Longrightarrow> \<not> enters (expel g u r) u c"
  by (simp add: enters_def expelled)

lemma expel_spares_others: "v \<noteq> u \<Longrightarrow> enters (expel g u r) v c \<longleftrightarrow> enters r v c"
  by (simp add: enters_def bystander)

end

interpretation replica: authority permissions channel_info remove_member
  rewrites "authority.enters permissions = may_join"
proof -
  show a: "authority permissions channel_info remove_member"
  proof
    fix r u c p and g n v
    show "permissions r u c = Some p \<Longrightarrow> channel_info r c \<noteq> None"
      using permissions_Some_channel_info by fastforce
    show "channel_info r c = Some (g, n) \<Longrightarrow> permissions (remove_member g u r) u c = None"
      by (auto simp: permissions_remove_member channel_info_def bind_eq_Some_conv)
    show "v \<noteq> u \<Longrightarrow> permissions (remove_member g u r) v c = permissions r v c"
      by (simp add: permissions_remove_member)
  qed
  show "authority.enters permissions = may_join"
    by (simp add: fun_eq_iff authority.enters_def [OF a] may_join_def)
qed

section \<open>Decisions\<close>

text \<open>The Discord id and channel a request resolves to, and the rights the replica gives it.\<close>

definition request_rights :: "app_state \<Rightarrow> uuid \<Rightarrow> i64 \<Rightarrow> discord_permissions option" where
  "request_rights s u ch =
     Option.bind (hm_get (ap_users s) u) (\<lambda>row.
     Option.bind (u64_try_from ch) (\<lambda>c.
     Option.bind (u64_try_from (ur_discord_user_id row)) (\<lambda>d. permissions (ap_replica s) d c)))"

lemma request_rights_Some:
  "request_rights s u ch = Some p \<longleftrightarrow> (\<exists>row c d. hm_get (ap_users s) u = Some row \<and> u64_try_from ch = Some c \<and>
     u64_try_from (ur_discord_user_id row) = Some d \<and> permissions (ap_replica s) d c = Some p)"
  by (auto simp: request_rights_def bind_eq_Some_conv)

lemma room_access_fresh:
  assumes "staleness now (ap_replica s) = Fresh" and "request_rights s u ch = Some p"
  shows "if can_join_room p then \<exists>a. room_access now s u ch = Inr a \<and> ra_permissions a = p
         else room_access now s u ch = Inl (if can_view p then Forbidden else invisible ''room'')"
proof -
  obtain row c d where r: "hm_get (ap_users s) u = Some row" "u64_try_from ch = Some c"
    "u64_try_from (ur_discord_user_id row) = Some d" "permissions (ap_replica s) d c = Some p"
    using assms(2) by (auto simp: request_rights_Some)
  obtain g n where i: "channel_info (ap_replica s) c = Some (g, n)"
    using replica.rights_known [OF r(4)] by fastforce
  have "can_join_room p \<Longrightarrow> can_view p" by (simp add: question_bits)
  with assms(1) r i show ?thesis by (auto simp: room_access_def users_find_by_id_def)
qed

lemma room_access_hidden:
  assumes "staleness now (ap_replica s) = Fresh" and "request_rights s u ch = None"
  shows "\<exists>e. room_access now s u ch = Inl e \<and> app_status e \<in> {404, 500}"
  using assms by (auto simp: room_access_def users_find_by_id_def request_rights_def invisible_def
      split: option.splits)

lemma room_access_stale: "room_access now s u ch = Inl ReplicaStale \<longleftrightarrow> staleness now (ap_replica s) = Stale"
proof (cases "staleness now (ap_replica s)")
  case Fresh
  have "room_access now s u ch \<noteq> Inl ReplicaStale"
  proof (cases "request_rights s u ch")
    case None
    show ?thesis using room_access_hidden [OF Fresh None] by auto
  next
    case (Some p)
    show ?thesis using room_access_fresh [OF Fresh Some] by (auto simp: invisible_def split: if_splits)
  qed
  with Fresh show ?thesis by simp
qed (simp add: room_access_def)

lemma admitted_rights:
  "room_access now s u ch = Inr a \<Longrightarrow> staleness now (ap_replica s) = Fresh \<and>
     (\<exists>p. request_rights s u ch = Some p \<and> can_join_room p \<and> ra_permissions a = p)"
  "publish_access now s u ch = Inr a \<Longrightarrow> staleness now (ap_replica s) = Fresh \<and>
     (\<exists>p. request_rights s u ch = Some p \<and> can_join_room p \<and> can_publish p)"
proof -
  show r: "staleness now (ap_replica s) = Fresh \<and>
     (\<exists>p. request_rights s u ch = Some p \<and> can_join_room p \<and> ra_permissions a = p)"
    if "room_access now s u ch = Inr a" for a
  proof -
    have f: "staleness now (ap_replica s) = Fresh"
      using that by (cases "staleness now (ap_replica s)") (simp_all add: room_access_def)
    with that room_access_hidden [OF f, of u ch] room_access_fresh [OF f, of u ch] show ?thesis
      by (cases "request_rights s u ch") (auto split: if_splits)
  qed
  show "publish_access now s u ch = Inr a \<Longrightarrow> staleness now (ap_replica s) = Fresh \<and>
     (\<exists>p. request_rights s u ch = Some p \<and> can_join_room p \<and> can_publish p)"
    by (auto simp: publish_access_def res_bind_Inr_iff split: if_splits dest: r)
qed

lemma admits_iff:
  "(\<exists>a. room_access now s u ch = Inr a) \<longleftrightarrow> staleness now (ap_replica s) = Fresh \<and>
      (\<exists>p. request_rights s u ch = Some p \<and> can_join_room p)"
  "(\<exists>a. publish_access now s u ch = Inr a) \<longleftrightarrow> staleness now (ap_replica s) = Fresh \<and>
      (\<exists>p. request_rights s u ch = Some p \<and> can_publish p)"
proof -
  have pj: "can_publish p \<Longrightarrow> can_join_room p" for p by (simp add: question_bits)
  show "(\<exists>a. room_access now s u ch = Inr a) \<longleftrightarrow> staleness now (ap_replica s) = Fresh \<and>
      (\<exists>p. request_rights s u ch = Some p \<and> can_join_room p)"
    using admitted_rights(1) [of now s u ch] room_access_fresh [of now s u ch] by (auto split: if_splits)
  show "(\<exists>a. publish_access now s u ch = Inr a) \<longleftrightarrow> staleness now (ap_replica s) = Fresh \<and>
      (\<exists>p. request_rights s u ch = Some p \<and> can_publish p)"
  proof
    assume "staleness now (ap_replica s) = Fresh \<and> (\<exists>p. request_rights s u ch = Some p \<and> can_publish p)"
    then obtain p where p: "staleness now (ap_replica s) = Fresh" "request_rights s u ch = Some p" "can_publish p" by blast
    obtain a where "room_access now s u ch = Inr a" "ra_permissions a = p"
      using room_access_fresh [OF p(1,2)] pj [OF p(3)] by auto
    with p(3) show "\<exists>a. publish_access now s u ch = Inr a" by (simp add: publish_access_def)
  qed (auto dest: admitted_rights(2))
qed

lemma access_cong:
  assumes "ap_users s' = ap_users s" and "ap_replica s' = ap_replica s"
  shows "room_access now s' u ch = room_access now s u ch \<and> publish_access now s' u ch = publish_access now s u ch"
  unfolding publish_access_def room_access_def assms by (rule conjI) (rule refl)+

text \<open>
  C2.  The order of the guard: it answers \<^verbatim>\<open>503\<close> exactly when the replica is stale; otherwise it admits
  exactly the callers the replica lets join (and, for publishing, exactly those who also have the
  streaming right), and it answers \<^verbatim>\<open>403\<close> exactly to callers who see the channel but may not do what
  they ask.  So a \<^verbatim>\<open>403\<close> never confirms a channel the caller does not see.
\<close>
theorem access_decision:
  "(room_access now s u ch = Inl ReplicaStale \<longleftrightarrow> staleness now (ap_replica s) = Stale) \<and>
   ((\<exists>a. room_access now s u ch = Inr a) \<longleftrightarrow> staleness now (ap_replica s) = Fresh \<and>
      (\<exists>p. request_rights s u ch = Some p \<and> can_join_room p)) \<and>
   (room_access now s u ch = Inl Forbidden \<longleftrightarrow> staleness now (ap_replica s) = Fresh \<and>
      (\<exists>p. request_rights s u ch = Some p \<and> can_view p \<and> \<not> can_join_room p)) \<and>
   ((\<exists>a. publish_access now s u ch = Inr a) \<longleftrightarrow> staleness now (ap_replica s) = Fresh \<and>
      (\<exists>p. request_rights s u ch = Some p \<and> can_publish p)) \<and>
   (publish_access now s u ch = Inl Forbidden \<longleftrightarrow> staleness now (ap_replica s) = Fresh \<and>
      (\<exists>p. request_rights s u ch = Some p \<and> can_view p \<and> \<not> can_publish p))"
proof (cases "staleness now (ap_replica s)")
  case Stale
  then show ?thesis by (simp add: room_access_def publish_access_def)
next
  case Fresh
  have pj: "can_publish p \<Longrightarrow> can_join_room p" "can_join_room p \<Longrightarrow> can_view p" for p
    by (simp_all add: question_bits)
  show ?thesis
  proof (cases "request_rights s u ch")
    case None
    obtain e where "room_access now s u ch = Inl e" "app_status e \<in> {404, 500}"
      using room_access_hidden [OF Fresh None] by blast
    with Fresh None show ?thesis by (auto simp: publish_access_def)
  next
    case (Some p)
    show ?thesis
      using room_access_fresh [OF Fresh Some] Fresh Some pj
      by (auto simp: publish_access_def res_bind_Inr_iff res_bind_Inl_iff invisible_def split: if_splits)
  qed
qed

text \<open>
  C21.  A room the caller does not see answers exactly as a room that does not exist: the guard's whole
  answer is the one it gives after the channel has been deleted from the replica.
\<close>
theorem hidden_room_indistinguishable:
  assumes "\<not> (\<exists>p. request_rights s u ch = Some p \<and> can_view p)"
  shows "room_access now s u ch = room_access now (s\<lparr>ap_replica := remove_channel g ch (ap_replica s)\<rparr>) u ch"
proof -
  have "staleness now (remove_channel g ch (ap_replica s)) = staleness now (ap_replica s)"
    by (simp add: staleness_def remove_channel_def alter_guild_def split: option.split)
  with assms show ?thesis
    by (auto simp: room_access_def users_find_by_id_def request_rights_def permissions_remove_channel u64_try_from_def
        split: option.splits)
qed

text \<open>
  \<^verbatim>\<open>READY\<close> puts a client in the call it is in: someone in a Discord voice channel whose room they may
  enter is told that room with its current participants, whatever \<^verbatim>\<open>room_presence\<close> says about them.
\<close>
theorem ready_follows_voice:
  assumes "hm_get (ap_users s) u = Some row" and "u64_try_from (ur_discord_user_id row) = Some d"
    and "voice_channel_of (ap_replica s) d = Some c" and "may_join (ap_replica s) d c" and "i64_try_from c = Some ch"
  shows "\<exists>guild name. rdy_room (ready_build s u sid) = Some (state_of s ch guild name) \<and>
           rst_participants (state_of s ch guild name) = map participant_to_wire (list_by_channel (ap_users s) (ap_presence s) ch)"
proof -
  obtain g n where "channel_info (ap_replica s) c = Some (g, n)"
    using replica.enters_info [OF assms(4)] by blast
  moreover have "u64_try_from ch = Some c" using assms(5) by (auto simp: ldk_conv)
  ultimately show ?thesis
    using assms by (simp add: ready_build_def users_find_by_id_def current_room_def voice_room_def Let_def state_of_def)
qed

section \<open>A sample server\<close>

definition sample_users :: users where
  "sample_users =
     [(7, \<lparr>ur_id = 7, ur_discord_user_id = 2, ur_username = ''ana'', ur_display_name = Some ''Ana'',
           ur_avatar_url = None, ur_created_at = 0\<rparr>),
      (8, \<lparr>ur_id = 8, ur_discord_user_id = 5, ur_username = ''bia'', ur_display_name = None,
           ur_avatar_url = None, ur_created_at = 0\<rparr>)]"

definition sample_app :: app_state where
  "sample_app = (app_state_new sample_users sample_config sample_room_config 60)\<lparr>ap_replica := sample_replica\<rparr>"

theorem hidden_room_indistinguishable_witness:
  "request_rights sample_app 7 900 \<noteq> None \<and> request_rights sample_app 8 900 = None \<and>
   room_access 0 sample_app 8 900 = room_access 0 (sample_app\<lparr>ap_replica := remove_channel 100 900 (ap_replica sample_app)\<rparr>) 8 900"
proof -
  have "request_rights sample_app 7 900 \<noteq> None" by code_simp
  moreover have n: "request_rights sample_app 8 900 = None" by code_simp
  ultimately show ?thesis using hidden_room_indistinguishable [of sample_app 8 900 0 100] by simp
qed

theorem ready_follows_voice_witness:
  "\<exists>guild name. rdy_room (ready_build sample_app 7 1) = Some (state_of sample_app 900 guild name)"
proof -
  obtain row where "hm_get (ap_users sample_app) 7 = Some row" "ur_discord_user_id row = 2"
    by (simp add: sample_app_def app_state_new_def sample_users_def hm_get_def)
  moreover have "u64_try_from 2 = Some 2" "voice_channel_of (ap_replica sample_app) 2 = Some 900"
    "may_join (ap_replica sample_app) 2 900" "i64_try_from 900 = Some 900"
    by code_simp+
  ultimately show ?thesis using ready_follows_voice [of sample_app 7 row 2 900 900 1] by fastforce
qed

end
