(* ===== verification/Rooms_Service.thy ===== *)
theory Rooms_Service
  imports Access
begin

text \<open>
  \<^verbatim>\<open>crates/api/src/routes/rooms.rs\<close>, \<^verbatim>\<open>announce.rs\<close> and the room fan-out of \<^verbatim>\<open>gateway/hub.rs\<close>: the token
  route and the LiveKit webhook with each of its handlers.  A handler is a function of the server's
  state that returns the new state and its \<^verbatim>\<open>Result\<close>; an early return keeps the writes made before it.
  Each request runs to completion before the next.  \<open>now\<close> is the clock the statements of one request
  read; \<open>sid\<close> the value of \<^verbatim>\<open>Uuid::now_v7()\<close>.
\<close>

section \<open>Fan-out to a room (gateway/hub.rs)\<close>

definition room_members :: "app_state \<Rightarrow> i64 \<Rightarrow> uuid list" where
  "room_members s ch = map pa_user_id (list_by_channel (ap_users s) (ap_presence s) ch)"

definition app_publish :: "uuid list \<Rightarrow> dispatch_event \<Rightarrow> app_state \<Rightarrow> app_state" where
  "app_publish users e s = s\<lparr>ap_hub := publish_to_users users e (ap_hub s)\<rparr>"

definition publish_to_room :: "i64 \<Rightarrow> dispatch_event \<Rightarrow> app_state \<Rightarrow> app_state" where
  "publish_to_room ch e s = app_publish (room_members s ch) e s"

section \<open>Room observation\<close>

text \<open>\<^verbatim>\<open>viewers as i32\<close> keeps the low 32 bits.\<close>

definition observe_room :: "i64 \<Rightarrow> app_state \<Rightarrow> app_state" where
  "observe_room ch s =
    (let participants = list_by_channel (ap_users s) (ap_presence s) ch;
         viewers = length (filter (\<lambda>p. \<not> pa_publishing p) participants)
     in announce \<lparr>rb_discord_channel_id = ch,
                  rb_publishers = map pa_discord_user_id (filter pa_publishing participants),
                  rb_viewers = viewers\<rparr>
          (s\<lparr>ap_shares := observe_viewers ch (sint (of_nat viewers :: 32 word)) (ap_shares s)\<rparr>))"

section \<open>Webhook handlers\<close>

type_synonym outcome = "app_state \<times> (app_error + unit)"

definition on_join :: "instant \<Rightarrow> i64 \<Rightarrow> uuid \<Rightarrow> app_state \<Rightarrow> outcome" where
  "on_join now ch u s =
    (case presence_join now (ap_users s) u ch (ap_presence s) of
       Inl e \<Rightarrow> (s, Inl (app_of_db e))
     | Inr p \<Rightarrow>
       (let s1 = s\<lparr>ap_presence := p\<rparr> in
        case users_find_by_id (ap_users s1) u of
          Inl e \<Rightarrow> (s1, Inl (app_of_db e))
        | Inr row \<Rightarrow>
            (publish_to_room ch
               (RoomParticipantAdd ch \<lparr>rpt_user = user_to_summary row, rpt_publications = []\<rparr>)
               (observe_room ch s1), Inr ())))"

definition on_leave :: "instant \<Rightarrow> i64 \<Rightarrow> uuid \<Rightarrow> app_state \<Rightarrow> outcome" where
  "on_leave now ch u s =
    (let members = room_members s ch;
         recipients = (if u \<in> set members then members else members @ [u]);
         s1 = s\<lparr>ap_presence := fst (presence_leave u (ap_presence s))\<rparr>;
         s2 = s1\<lparr>ap_shares := fst (sessions_close ch u now (ap_shares s1))\<rparr>;
         s3 = s2\<lparr>ap_grants := release_publisher ch u (ap_grants s2)\<rparr>
     in (app_publish recipients (RoomParticipantRemove ch u) (observe_room ch s3), Inr ()))"

definition on_share_start :: "instant \<Rightarrow> uuid \<Rightarrow> i64 \<Rightarrow> uuid \<Rightarrow> publication_source \<Rightarrow> app_state \<Rightarrow> outcome" where
  "on_share_start now sid ch u src s =
    (case start_publication now u src (ap_presence s) of
       (_, None) \<Rightarrow> (s, Inr ())
     | (p, Some started) \<Rightarrow>
       (let s1 = s\<lparr>ap_presence := p\<rparr>;
            s2 = s1\<lparr>ap_shares := fst (sessions_open now sid ch u (ap_shares s1))\<rparr>
        in (publish_to_room ch (ShareStart ch u src (stp_since started)) (observe_room ch s2), Inr ())))"

definition on_publisher_gone :: "instant \<Rightarrow> i64 \<Rightarrow> uuid \<Rightarrow> app_state \<Rightarrow> outcome" where
  "on_publisher_gone now ch u s =
    (case clear_publications u (ap_presence s) of
       (_, None) \<Rightarrow> (s, Inr ())
     | (p, Some cleared) \<Rightarrow>
       (let s1 = s\<lparr>ap_presence := p\<rparr>;
            s2 = s1\<lparr>ap_shares := fst (sessions_close ch u now (ap_shares s1))\<rparr>;
            s3 = s2\<lparr>ap_grants := release_publisher ch u (ap_grants s2)\<rparr>
        in (fold (\<lambda>src. publish_to_room ch (ShareStop ch u src)) (cleared_sources cleared) (observe_room ch s3),
            Inr ())))"

definition on_share_stop :: "instant \<Rightarrow> i64 \<Rightarrow> uuid \<Rightarrow> publication_source \<Rightarrow> app_state \<Rightarrow> outcome" where
  "on_share_stop now ch u src s =
    (case stop_publication u src (ap_presence s) of
       (_, None) \<Rightarrow> (s, Inr ())
     | (p, Some stopped) \<Rightarrow>
       (let s1 = s\<lparr>ap_presence := p\<rparr>;
            s2 = (if \<not> spp_still_publishing stopped
                  then s1\<lparr>ap_shares := fst (sessions_close ch u now (ap_shares s1))\<rparr> else s1);
            s3 = s2\<lparr>ap_grants := release_publication ch u src (ap_grants s2)\<rparr>
        in (publish_to_room ch (ShareStop ch u src) (observe_room ch s3), Inr ())))"

definition room_finished :: "i64 \<Rightarrow> app_state \<Rightarrow> outcome" where
  "room_finished ch s =
    (let s1 = s\<lparr>ap_presence := fst (clear_channel ch (ap_presence s))\<rparr>;
         s2 = s1\<lparr>ap_grants := forget_room ch (ap_grants s1)\<rparr>
     in (announce \<lparr>rb_discord_channel_id = ch, rb_publishers = [], rb_viewers = 0\<rparr> s2, Inr ()))"

text \<open>
  The route.  \<open>verified\<close> is what \<^verbatim>\<open>Rooms::verify_webhook\<close> made of the signed body; an event of a room
  that is not ours, and one the server does not use, is acknowledged and changes nothing.
\<close>

definition webhook :: "(string \<Rightarrow> uuid option) \<Rightarrow> instant \<Rightarrow> uuid \<Rightarrow> webhook_event option \<Rightarrow> app_state \<Rightarrow> outcome" where
  "webhook parse_uuid now sid verified s =
    (case verified of
       None \<Rightarrow> (s, Inl Unauthorized)
     | Some ev \<Rightarrow>
       (case we_channel ev of
          None \<Rightarrow> (s, Inr ())
        | Some ch \<Rightarrow>
          if we_event ev = ''participant_joined'' \<and> \<not> is_publisher_connection ev then
            (case we_user parse_uuid ev of Some u \<Rightarrow> on_join now ch u s | None \<Rightarrow> (s, Inr ()))
          else if we_event ev = ''participant_left'' \<and> is_publisher_connection ev then
            (case we_user parse_uuid ev of Some u \<Rightarrow> on_publisher_gone now ch u s | None \<Rightarrow> (s, Inr ()))
          else if we_event ev = ''participant_left'' then
            (case we_user parse_uuid ev of Some u \<Rightarrow> on_leave now ch u s | None \<Rightarrow> (s, Inr ()))
          else if we_event ev = ''track_published'' then
            (case (we_user parse_uuid ev, published_source ev) of
               (Some u, Some src) \<Rightarrow> on_share_start now sid ch u src s | _ \<Rightarrow> (s, Inr ()))
          else if we_event ev = ''track_unpublished'' then
            (case (we_user parse_uuid ev, published_source ev) of
               (Some u, Some src) \<Rightarrow> on_share_stop now ch u src s | _ \<Rightarrow> (s, Inr ()))
          else if we_event ev = ''room_finished'' then room_finished ch s
          else (s, Inr ())))"

section \<open>The token route\<close>

definition token_route ::
  "(uuid \<Rightarrow> string) \<Rightarrow> (token_claims \<Rightarrow> string option) \<Rightarrow> instant \<Rightarrow> uuid \<Rightarrow> i64 \<Rightarrow> publication_source list \<Rightarrow>
     app_state \<Rightarrow> app_state \<times> (app_error + room_token_response)" where
  "token_route show_uuid sign now u ch publish s =
    (let publishes = publish \<noteq> [] in
     case (if publishes then publish_access now s u ch else room_access now s u ch) of
       Inl e \<Rightarrow> (s, Inl e)
     | Inr access \<Rightarrow>
       (case claim_publications (ap_room_config s) ch u publish (ap_grants s) of
          (g, Inl e) \<Rightarrow> (s\<lparr>ap_grants := g\<rparr>, Inl e)
        | (g, Inr _) \<Rightarrow>
          (let s1 = s\<lparr>ap_grants := g\<rparr>;
               display = coalesce (ur_display_name (ra_user access)) (ur_username (ra_user access))
           in case issue_token show_uuid sign (ap_room_config s1) ch u display publishes of
                Inl e \<Rightarrow> (s1, Inl e)
              | Inr t \<Rightarrow>
                  (s1, Inr \<lparr>rtr_token = t, rtr_url = rc_url (ap_room_config s1), rtr_room = room_name ch,
                         rtr_expires_in = of_nat (token_ttl_seconds (ap_room_config s1))\<rparr>))))"

section \<open>What each part of the state becomes\<close>

lemma app_publish_frame [simp]:
  "ap_users (app_publish us e s) = ap_users s" "ap_presence (app_publish us e s) = ap_presence s"
  "ap_shares (app_publish us e s) = ap_shares s" "ap_grants (app_publish us e s) = ap_grants s"
  "ap_announced (app_publish us e s) = ap_announced s" "ap_replica (app_publish us e s) = ap_replica s"
  "ap_room_config (app_publish us e s) = ap_room_config s"
  by (simp_all add: app_publish_def)

lemma publish_to_room_frame [simp]:
  "ap_users (publish_to_room ch e s) = ap_users s" "ap_presence (publish_to_room ch e s) = ap_presence s"
  "ap_shares (publish_to_room ch e s) = ap_shares s" "ap_grants (publish_to_room ch e s) = ap_grants s"
  "ap_announced (publish_to_room ch e s) = ap_announced s" "ap_replica (publish_to_room ch e s) = ap_replica s"
  "ap_room_config (publish_to_room ch e s) = ap_room_config s"
  by (simp_all add: publish_to_room_def)

lemma fold_publish_frame [simp]:
  "ap_users (fold (\<lambda>x. publish_to_room ch (e x)) xs s) = ap_users s"
  "ap_presence (fold (\<lambda>x. publish_to_room ch (e x)) xs s) = ap_presence s"
  "ap_shares (fold (\<lambda>x. publish_to_room ch (e x)) xs s) = ap_shares s"
  "ap_grants (fold (\<lambda>x. publish_to_room ch (e x)) xs s) = ap_grants s"
  "ap_announced (fold (\<lambda>x. publish_to_room ch (e x)) xs s) = ap_announced s"
  "ap_replica (fold (\<lambda>x. publish_to_room ch (e x)) xs s) = ap_replica s"
  "ap_room_config (fold (\<lambda>x. publish_to_room ch (e x)) xs s) = ap_room_config s"
  by (induction xs arbitrary: s) simp_all

lemma observe_room_frame [simp]:
  "ap_users (observe_room ch s) = ap_users s" "ap_presence (observe_room ch s) = ap_presence s"
  "ap_grants (observe_room ch s) = ap_grants s" "ap_hub (observe_room ch s) = ap_hub s"
  "ap_replica (observe_room ch s) = ap_replica s" "ap_room_config (observe_room ch s) = ap_room_config s"
  "has_open c p (ap_shares (observe_room ch s)) = has_open c p (ap_shares s)"
  "open_count c p (ap_shares (observe_room ch s)) = open_count c p (ap_shares s)"
  by (simp_all add: observe_room_def announce_def Let_def has_open_ops open_counts)

text \<open>The snapshot of a room, the specification of what is announced.\<close>

definition snapshot :: "app_state \<Rightarrow> i64 \<Rightarrow> room_broadcast" where
  "snapshot s ch =
     (let ps = list_by_channel (ap_users s) (ap_presence s) ch
      in \<lparr>rb_discord_channel_id = ch, rb_publishers = map pa_discord_user_id (filter pa_publishing ps),
          rb_viewers = length ps - length (filter pa_publishing ps)\<rparr>)"

lemma observe_room_announces: "ap_announced (observe_room ch s) = ap_announced s @ [snapshot s ch]"
proof -
  have "length (filter (\<lambda>p. \<not> pa_publishing p) ps) = length ps - length (filter pa_publishing ps)"
    for ps :: "participant_row list"
    using sum_length_filter_compl [of pa_publishing ps] by simp
  then show ?thesis by (simp add: observe_room_def announce_def Let_def snapshot_def)
qed

lemma snapshot_cong: "ap_users s = ap_users t \<Longrightarrow> ap_presence s = ap_presence t \<Longrightarrow> snapshot s ch = snapshot t ch"
  by (simp add: snapshot_def)

lemma list_by_channel_cleared: "list_by_channel us (fst (clear_channel ch t)) ch = []"
proof -
  have "filter (\<lambda>(u, r). pr_discord_channel_id r = ch) (hm_retain (\<lambda>_ r. pr_discord_channel_id r \<noteq> ch) t) = []"
    by (auto simp: hm_retain_def filter_empty_conv)
  then show ?thesis by (simp add: list_by_channel_def clear_channel_def Let_def map_filter_def)
qed

lemmas handler_defs = on_join_def on_leave_def on_share_start_def on_publisher_gone_def on_share_stop_def room_finished_def

text \<open>\<open>keeps_announced ch s s'\<close>: from \<open>s\<close> to \<open>s'\<close>, either the room's current snapshot was announced or nobody moved.\<close>

definition keeps_announced :: "i64 \<Rightarrow> app_state \<Rightarrow> app_state \<Rightarrow> bool" where
  "keeps_announced ch s s' \<longleftrightarrow>
     ap_announced s' = ap_announced s @ [snapshot s' ch] \<or>
     ap_announced s' = ap_announced s \<and> ap_presence s' = ap_presence s \<and> ap_users s' = ap_users s"

lemma keeps_announcedI:
  "ap_announced s' = ap_announced t \<Longrightarrow> ap_users s' = ap_users t \<Longrightarrow> ap_presence s' = ap_presence t \<Longrightarrow>
     ap_announced t = ap_announced s @ [snapshot t ch] \<Longrightarrow> keeps_announced ch s s'"
  using snapshot_cong [of s' t ch] by (simp add: keeps_announced_def)

lemma keeps_announced_observe:
  "ap_announced t = ap_announced s \<Longrightarrow> ap_announced s' = ap_announced (observe_room ch t) \<Longrightarrow>
     ap_users s' = ap_users t \<Longrightarrow> ap_presence s' = ap_presence t \<Longrightarrow> keeps_announced ch s s'"
  using snapshot_cong [of s' t ch] by (simp add: keeps_announced_def observe_room_announces)

lemma keeps_announced_published:
  "ap_announced t = ap_announced s \<Longrightarrow> keeps_announced ch s (app_publish us e (observe_room ch t))"
  "ap_announced t = ap_announced s \<Longrightarrow> keeps_announced ch s (publish_to_room c e (observe_room ch t))"
  by (rule keeps_announced_observe; simp)+

lemma keeps_announced_refl: "keeps_announced ch s s"
  by (simp add: keeps_announced_def)

lemma join_announced: "keeps_announced ch s (fst (on_join now ch u s))"
proof (cases "presence_join now (ap_users s) u ch (ap_presence s)")
  case (Inr p)
  then obtain row where "users_find_by_id (ap_users s) u = Inr row"
    by (auto simp: presence_join_def users_find_by_id_def split: if_splits)
  with Inr show ?thesis
    by (auto simp: on_join_def Let_def intro!: keeps_announced_observe [where t = "s\<lparr>ap_presence := p\<rparr>"])
qed (simp add: on_join_def keeps_announced_refl)

lemma leave_announced: "keeps_announced ch s (fst (on_leave now ch u s))"
  unfolding on_leave_def Let_def fst_conv
  by (rule keeps_announced_published) simp

lemma share_start_announced: "keeps_announced ch s (fst (on_share_start now sid ch u src s))"
proof (cases "start_publication now u src (ap_presence s)")
  case (Pair p st)
  then show ?thesis
    by (cases st) (auto simp: on_share_start_def Let_def keeps_announced_refl intro!: keeps_announced_observe
        [where t = "s\<lparr>ap_presence := p, ap_shares := fst (sessions_open now sid ch u (ap_shares s))\<rparr>"])
qed

lemma publisher_gone_announced: "keeps_announced ch s (fst (on_publisher_gone now ch u s))"
proof (cases "clear_publications u (ap_presence s)")
  case (Pair p st)
  then show ?thesis
    by (cases st) (auto simp: on_publisher_gone_def Let_def keeps_announced_refl intro!: keeps_announced_observe
        [where t = "s\<lparr>ap_presence := p, ap_shares := fst (sessions_close ch u now (ap_shares s)),
                      ap_grants := release_publisher ch u (ap_grants s)\<rparr>"])
qed

lemma share_stop_announced: "keeps_announced ch s (fst (on_share_stop now ch u src s))"
proof (cases "stop_publication u src (ap_presence s)")
  case (Pair p st)
  show ?thesis
  proof (cases st)
    case (Some x)
    show ?thesis
      unfolding on_share_stop_def Pair Some Let_def prod.case option.case fst_conv
      by (rule keeps_announced_published) simp
  qed (use Pair in \<open>simp add: on_share_stop_def keeps_announced_refl\<close>)
qed

lemma room_finished_announced: "keeps_announced ch s (fst (room_finished ch s))"
  by (simp add: keeps_announced_def room_finished_def Let_def announce_def snapshot_def list_by_channel_cleared)

text \<open>
  A consumer of the announcements converges: every webhook handler either ends by announcing the
  snapshot of its room in exactly the state it leaves behind (people publishing in join order, everyone
  else as a viewer), or changes nobody's presence and announces nothing.
\<close>
theorem announcements_current:
  "keeps_announced ch s (fst (on_join now ch u s)) \<and> keeps_announced ch s (fst (on_leave now ch u s)) \<and>
   keeps_announced ch s (fst (on_share_start now sid ch u src s)) \<and>
   keeps_announced ch s (fst (on_publisher_gone now ch u s)) \<and>
   keeps_announced ch s (fst (on_share_stop now ch u src s)) \<and> keeps_announced ch s (fst (room_finished ch s))"
  by (intro conjI join_announced leave_announced share_start_announced publisher_gone_announced
      share_stop_announced room_finished_announced)

section \<open>Leaving\<close>

lemma on_leave_parts:
  "ap_users (fst (on_leave now ch u s)) = ap_users s"
  "ap_presence (fst (on_leave now ch u s)) = fst (presence_leave u (ap_presence s))"
  "has_open c p (ap_shares (fst (on_leave now ch u s))) \<longleftrightarrow> \<not> (c = ch \<and> p = u) \<and> has_open c p (ap_shares s)"
  "ap_grants (fst (on_leave now ch u s)) = release_publisher ch u (ap_grants s)"
  "ap_hub (fst (on_leave now ch u s)) =
     publish_to_users (if u \<in> set (room_members s ch) then room_members s ch else room_members s ch @ [u])
       (RoomParticipantRemove ch u) (ap_hub s)"
  by (simp_all add: on_leave_def Let_def has_open_ops app_publish_def)

text \<open>
  C7.  Leaving a room leaves nothing behind: afterwards the person is in no room, their open session in that
  room is closed and no other, they hold no slot there and everyone else's slots are untouched, and
  the departure is queued exactly once on each connected session of everyone who was in the room and
  of the person who left.
\<close>
theorem leave_cleans_up:
  "let s' = fst (on_leave now ch u s); members = room_members s ch;
       recipients = (if u \<in> set members then members else members @ [u])
   in snd (on_leave now ch u s) = Inr () \<and>
      (\<forall>v. channel_of (ap_presence s') v = (if v = u then None else channel_of (ap_presence s) v)) \<and>
      (\<forall>c p. has_open c p (ap_shares s') \<longleftrightarrow> \<not> (c = ch \<and> p = u) \<and> has_open c p (ap_shares s)) \<and>
      (\<forall>c src. held (ap_grants s') c src = (if c = ch then held (ap_grants s) c src - {u} else held (ap_grants s) c src)) \<and>
      map fst (delivered (ap_hub s) (ap_hub s')) =
        concat (map (\<lambda>v. concat (map (outbox_of (ap_hub s)) (sessions_of (ap_hub s) v))) recipients) \<and>
      list_all (\<lambda>(tx, f). is_event_frame (RoomParticipantRemove ch u) f) (delivered (ap_hub s) (ap_hub s'))"
proof -
  let ?r = "if u \<in> set (room_members s ch) then room_members s ch else room_members s ch @ [u]"
  have p: "publishes (RoomParticipantRemove ch u)
      (concat (map (\<lambda>v. concat (map (outbox_of (ap_hub s)) (sessions_of (ap_hub s) v))) ?r)) (ap_hub s)
      (ap_hub (fst (on_leave now ch u s)))"
    unfolding on_leave_parts by (rule publish_to_users_publishes)
  have "snd (on_leave now ch u s) = Inr ()" by (simp add: on_leave_def Let_def)
  then show ?thesis
    unfolding Let_def using publishes_delivered [OF p]
    by (simp add: on_leave_parts pres.channel_leave ledger.holds_all)
qed

section \<open>Open sessions cover the live publications\<close>

text \<open>
  \<open>A\<close> is the set of the people whose streams are accounted for: whoever of them is live has an open session in the room
  they are in.
\<close>

definition room_inv :: "uuid set \<Rightarrow> app_state \<Rightarrow> bool" where
  "room_inv A s \<longleftrightarrow> presence_ok (ap_presence s) \<and> one_open (ap_shares s) \<and>
     (\<forall>u ch. u \<in> A \<and> channel_of (ap_presence s) u = Some ch \<and> live_in (ap_presence s) u \<longrightarrow> has_open ch u (ap_shares s))"

lemma room_invD:
  assumes "room_inv A s"
  shows "presence_ok (ap_presence s)" and "one_open (ap_shares s)"
    and "u \<in> A \<Longrightarrow> channel_of (ap_presence s) u = Some ch \<Longrightarrow> live_in (ap_presence s) u \<Longrightarrow> has_open ch u (ap_shares s)"
  using assms by (simp_all add: room_inv_def)

lemma room_inv_mono: "room_inv A s \<Longrightarrow> B \<subseteq> A \<Longrightarrow> room_inv B s"
  by (auto simp: room_inv_def)

lemma room_inv_cong:
  "ap_presence s' = ap_presence s \<Longrightarrow> (\<And>c p. open_count c p (ap_shares s') = open_count c p (ap_shares s)) \<Longrightarrow>
     room_inv A s \<Longrightarrow> room_inv A s'"
  by (simp add: room_inv_def one_open_def has_open_iff_count)

lemma room_inv_observe: "room_inv A t \<Longrightarrow> room_inv A (observe_room ch t)"
  "room_inv A t \<Longrightarrow> room_inv A (publish_to_room ch e t)" "room_inv A t \<Longrightarrow> room_inv A (app_publish us e t)"
  by (rule room_inv_cong; simp)+

lemma room_inv_fold_publish: "room_inv A t \<Longrightarrow> room_inv A (fold (\<lambda>x. publish_to_room ch (e x)) xs t)"
  by (rule room_inv_cong [of _ t]) simp_all

lemma room_inv_grants: "room_inv A (t\<lparr>ap_grants := g\<rparr>) = room_inv A t"
  by (simp add: room_inv_def)

lemma one_open_close: "one_open t \<Longrightarrow> one_open (fst (sessions_close ch pub now t))"
  "one_open t \<Longrightarrow> one_open (fst (sessions_open now i ch pub t))"
  by (simp_all add: one_open_def open_counts)

text \<open>Taking one person off the air, and out of the table or not, needs no open session of theirs.\<close>

lemma room_inv_off_air:
  assumes inv: "room_inv A s" and ok: "presence_ok p" and off: "\<not> live_in p u"
    and frame: "\<And>v. v \<noteq> u \<Longrightarrow> channel_of p v = channel_of (ap_presence s) v \<and> live_in p v = live_in (ap_presence s) v"
  shows "room_inv A (s\<lparr>ap_presence := p, ap_shares := fst (sessions_close ch u now (ap_shares s))\<rparr>)"
    and "room_inv A (s\<lparr>ap_presence := p\<rparr>)"
proof -
  have "has_open c v (ap_shares s) \<and> v \<noteq> u" if "v \<in> A" "channel_of p v = Some c" "live_in p v" for v c
  proof -
    have "v \<noteq> u" using that(3) off by auto
    with frame [OF this] that room_invD(3) [OF inv, of v c] show ?thesis by simp
  qed
  with ok room_invD(2) [OF inv]
  show "room_inv A (s\<lparr>ap_presence := p, ap_shares := fst (sessions_close ch u now (ap_shares s))\<rparr>)"
    "room_inv A (s\<lparr>ap_presence := p\<rparr>)"
    by (auto simp: room_inv_def has_open_ops one_open_close)
qed

lemma room_inv_shrink:
  assumes "room_inv A s" and "presence_ok p"
    and "\<And>v c. channel_of p v = Some c \<Longrightarrow> live_in p v \<Longrightarrow>
      channel_of (ap_presence s) v = Some c \<and> live_in (ap_presence s) v"
  shows "room_inv A (s\<lparr>ap_presence := p\<rparr>)"
  using assms room_invD(2,3) [OF assms(1)] by (auto simp: room_inv_def)

lemma join_inv:
  assumes "room_inv A s"
  shows "room_inv A (fst (on_join now ch u s))"
proof (cases "presence_join now (ap_users s) u ch (ap_presence s)")
  case (Inr p)
  have p: "hm_get p v = (if v = u then Some \<lparr>pr_discord_channel_id = ch, pr_publishing = False, pr_joined_at = now,
                  pr_screen_since = None, pr_camera_since = None\<rparr> else hm_get (ap_presence s) v)" for v
    using Inr by (auto simp: presence_join_def split: if_splits)
  have "room_inv A (s\<lparr>ap_presence := p\<rparr>)"
    by (rule room_inv_off_air(2) [OF assms presence_join_ok [OF room_invD(1) [OF assms] Inr], of u])
      (simp_all add: p live_in_def channel_of_def)
  with Inr show ?thesis
    by (auto simp: on_join_def Let_def split: sum.split intro!: room_inv_observe)
qed (use assms in \<open>simp add: on_join_def\<close>)

lemma leave_inv:
  assumes "room_inv A s"
  shows "room_inv A (fst (on_leave now ch u s))"
proof -
  note ok = room_invD(1) [OF assms]
  let ?p = "fst (presence_leave u (ap_presence s))"
  have "room_inv A (s\<lparr>ap_presence := ?p, ap_shares := fst (sessions_close ch u now (ap_shares s))\<rparr>)"
    by (rule room_inv_off_air(1) [OF assms pres.ok_leave [OF ok]])
      (simp_all add: pres.leave_not_live [OF ok] pres.channel_leave pres.frame_other [OF ok])
  then show ?thesis
    unfolding on_leave_def Let_def fst_conv by (intro room_inv_observe) (simp add: room_inv_grants)
qed

lemma publisher_gone_inv:
  assumes "room_inv A s"
  shows "room_inv A (fst (on_publisher_gone now ch u s))"
proof (cases "clear_publications u (ap_presence s)")
  case (Pair p st)
  note ok = room_invD(1) [OF assms]
  have p: "p = fst (clear_publications u (ap_presence s))" using Pair by simp
  have "room_inv A (s\<lparr>ap_presence := p, ap_shares := fst (sessions_close ch u now (ap_shares s))\<rparr>)"
    unfolding p by (rule room_inv_off_air(1) [OF assms pres.ok_clear [OF ok]])
      (simp_all add: pres.clear_not_live [OF ok] pres.channel_clear pres.frame_other [OF ok])
  with Pair assms show ?thesis
    by (cases st) (auto simp: on_publisher_gone_def Let_def room_inv_grants intro!: room_inv_fold_publish room_inv_observe)
qed

lemma stop_publication_still:
  "stop_publication u src t = (p, Some stopped) \<Longrightarrow>
     spp_still_publishing stopped = live_in p u \<and> channel_of t u = Some (spp_discord_channel_id stopped)"
  by (cases "hm_get t u"; cases src)
    (auto simp: stop_publication_def Let_def live_in_def channel_of_def)

lemma share_stop_inv:
  assumes "room_inv A s"
  shows "room_inv A (fst (on_share_stop now ch u src s))"
proof (cases "stop_publication u src (ap_presence s)")
  case (Pair p st)
  note ok = room_invD(1) [OF assms]
  have p: "p = fst (stop_publication u src (ap_presence s))" using Pair by simp
  have okp: "presence_ok p" unfolding p by (rule pres.ok_stop [OF ok])
  show ?thesis
  proof (cases st)
    case None
    with Pair assms show ?thesis by (simp add: on_share_stop_def)
  next
    case (Some x)
    have still: "spp_still_publishing x = live_in p u"
      using stop_publication_still [of u src "ap_presence s" p x] Pair Some by simp
    have shrink: "live_in p v \<Longrightarrow> live_in (ap_presence s) v" for v
      unfolding p pres.live_iff [OF pres.ok_stop [OF ok]] pres.live_iff [OF ok] pres.since_stop by (auto split: if_splits)
    have "room_inv A (s\<lparr>ap_presence := p\<rparr>)"
      by (rule room_inv_shrink [OF assms okp]) (auto simp: shrink, simp add: p pres.channel_stop)
    moreover have "room_inv A (s\<lparr>ap_presence := p, ap_shares := fst (sessions_close ch u now (ap_shares s))\<rparr>)"
      if "\<not> live_in p u"
      by (rule room_inv_off_air(1) [OF assms okp that]) (simp_all add: p pres.channel_stop pres.frame_other [OF ok])
    ultimately show ?thesis
      unfolding on_share_stop_def Pair Some Let_def prod.case option.case fst_conv
      by (intro room_inv_observe) (simp add: room_inv_grants still)
  qed
qed

lemma room_finished_inv:
  assumes "room_inv A s"
  shows "room_inv A (fst (room_finished ch s))"
proof -
  note ok = room_invD(1) [OF assms]
  have g: "hm_get (fst (clear_channel ch (ap_presence s))) v =
      (case hm_get (ap_presence s) v of None \<Rightarrow> None | Some r \<Rightarrow> if pr_discord_channel_id r \<noteq> ch then Some r else None)" for v
    using ok by (simp add: clear_channel_def Let_def presence_ok_def)
  have "room_inv A (s\<lparr>ap_presence := fst (clear_channel ch (ap_presence s))\<rparr>)"
    by (rule room_inv_shrink [OF assms clear_channel_ok [OF ok]])
      (auto simp: channel_of_def live_in_def g split: option.splits if_splits)
  then show ?thesis by (simp add: room_finished_def Let_def announce_def room_inv_def)
qed

lemma share_start_inv:
  assumes inv: "room_inv A s" and place: "u \<in> A \<Longrightarrow> channel_of (ap_presence s) u \<in> {None, Some ch}"
  shows "room_inv A (fst (on_share_start now sid ch u src s))"
proof (cases "start_publication now u src (ap_presence s)")
  case (Pair p st)
  note ok = room_invD(1) [OF inv]
  have p: "p = fst (start_publication now u src (ap_presence s))" using Pair by simp
  have "has_open c v (fst (sessions_open now sid ch u (ap_shares s)))"
    if "v \<in> A" "channel_of p v = Some c" "live_in p v" for v c
  proof (cases "v = u")
    case True
    with that(1,2) place have "c = ch" by (auto simp: p pres.channel_start)
    with True show ?thesis by (simp add: has_open_ops)
  next
    case False
    with that room_invD(3) [OF inv, of v c] show ?thesis
      by (simp add: p pres.channel_start pres.frame_other [OF ok] has_open_ops)
  qed
  then have "room_inv A (s\<lparr>ap_presence := p, ap_shares := fst (sessions_open now sid ch u (ap_shares s))\<rparr>)"
    using pres.ok_start [OF ok] room_invD(2) [OF inv] by (auto simp: room_inv_def one_open_close p)
  with Pair inv show ?thesis
    by (cases st) (auto simp: on_share_start_def Let_def intro!: room_inv_observe)
qed

lemmas handler_inv = join_inv leave_inv publisher_gone_inv share_stop_inv room_finished_inv

text \<open>
  The person of a publication that is reported for another room than the one they are in, which the code does not
  compare.
\<close>

definition misplaced :: "(string \<Rightarrow> uuid option) \<Rightarrow> webhook_event option \<Rightarrow> app_state \<Rightarrow> uuid set" where
  "misplaced parse_uuid verified s =
     {u. \<exists>ev ch. verified = Some ev \<and> we_event ev = ''track_published'' \<and> published_source ev \<noteq> None \<and>
        we_channel ev = Some ch \<and> we_user parse_uuid ev = Some u \<and>
        channel_of (ap_presence s) u \<noteq> None \<and> channel_of (ap_presence s) u \<noteq> Some ch}"

text \<open>
  C1.  Metering covers what is on the air: every webhook, whatever it is and in whatever order they come, keeps the
  publishing flag equal to "some source has a start time" and at most one open session per room and publisher;
  and everyone who was accounted for, that is, had an open session in their room while live, still is, but for
  the person of a publication reported for another room than the one they are in.
\<close>
theorem webhook_keeps_sessions:
  assumes "room_inv A s"
  shows "room_inv (A - misplaced parse_uuid verified s) (fst (webhook parse_uuid now sid verified s))"
proof (cases verified)
  case (Some ev)
  let ?A = "A - misplaced parse_uuid verified s"
  have inv: "room_inv ?A s" by (rule room_inv_mono [OF assms]) blast
  show ?thesis
  proof (cases "we_channel ev")
    case (Some ch)
    have "room_inv ?A (fst (on_share_start now sid ch u src s))"
      if "we_event ev = ''track_published''" "we_user parse_uuid ev = Some u" "published_source ev = Some src" for u src
      using that Some \<open>verified = Some ev\<close> by (intro share_start_inv [OF inv]) (auto simp: misplaced_def)
    with inv Some \<open>verified = Some ev\<close> show ?thesis
      by (simp add: webhook_def handler_inv split: option.split)
  qed (use inv Some in \<open>simp add: webhook_def\<close>)
qed (use room_inv_mono [OF assms] in \<open>simp add: webhook_def\<close>)

text \<open>
  The exception is one: a publication of a person who is in another room makes them live where they are, and opens
  their session in the room that was reported.
\<close>

lemma misplaced_publication:
  assumes "channel_of (ap_presence s) u = Some here" and "here \<noteq> ch" and "\<not> has_open here u (ap_shares s)"
  shows "let s' = fst (on_share_start now sid ch u src s)
    in channel_of (ap_presence s') u = Some here \<and> has_open ch u (ap_shares s') \<and> \<not> has_open here u (ap_shares s')"
  using assms
  by (cases src) (auto simp: on_share_start_def start_publication_def channel_of_def Let_def has_open_ops split: option.splits)

definition sample_event :: "string \<Rightarrow> i64 \<Rightarrow> string \<Rightarrow> string option \<Rightarrow> webhook_event" where
  "sample_event name ch who track = \<lparr>we_event = name, we_room = Some (room_name ch),
     we_participant_identity = Some who, we_track_source = track\<rparr>"

definition sample_joined :: app_state where
  "sample_joined = fst (webhook decimal_parse_uuid 10 1
     (Some (sample_event ''participant_joined'' 900 ''7'' None)) sample_app)"

lemma sample_app_inv: "room_inv UNIV sample_app"
  by (simp add: room_inv_def sample_app_def app_state_new_def presence_ok_def hm_ok_def channel_of_def hm_get_def
      one_open_def open_count_def)

theorem webhook_keeps_sessions_witness:
  "let s' = fst (webhook decimal_parse_uuid 20 2
       (Some (sample_event ''track_published'' 900 ''7~pub'' (Some ''camera''))) sample_joined)
   in has_open 900 7 (ap_shares s') \<and> live_in (ap_presence s') 7"
proof -
  let ?ev = "sample_event ''track_published'' 900 ''7~pub'' (Some ''camera'')"
  let ?s = "fst (webhook decimal_parse_uuid 20 2 (Some ?ev) sample_joined)"
  have none: "misplaced decimal_parse_uuid (Some (sample_event ''participant_joined'' 900 ''7'' None)) sample_app = {}"
    by (simp add: misplaced_def sample_event_def)
  have "room_inv UNIV sample_joined"
    using webhook_keeps_sessions [OF sample_app_inv, of decimal_parse_uuid "Some (sample_event ''participant_joined'' 900 ''7'' None)" 10 1]
    by (simp add: sample_joined_def none)
  then have "room_inv (UNIV - misplaced decimal_parse_uuid (Some ?ev) sample_joined) ?s" by (rule webhook_keeps_sessions)
  moreover have here: "we_channel ?ev = channel_of (ap_presence sample_joined) 7" "we_user decimal_parse_uuid ?ev = Some 7"
    by code_simp+
  then have "7 \<notin> misplaced decimal_parse_uuid (Some ?ev) sample_joined" by (auto simp: misplaced_def)
  moreover have "channel_of (ap_presence ?s) 7 = Some 900" "live_in (ap_presence ?s) 7" by code_simp+
  ultimately show ?thesis using room_invD(3) by (auto simp: Let_def)
qed

section \<open>Stopping one source\<close>

lemma on_share_start_parts:
  "ap_users (fst (on_share_start now sid ch u src s)) = ap_users s"
  "ap_presence (fst (on_share_start now sid ch u src s)) = fst (start_publication now u src (ap_presence s))"
  "channel_of (ap_presence s) u \<noteq> None \<Longrightarrow> has_open c v (ap_shares (fst (on_share_start now sid ch u src s))) \<longleftrightarrow>
     (c = ch \<and> v = u) \<or> has_open c v (ap_shares s)"
  "ap_grants (fst (on_share_start now sid ch u src s)) = ap_grants s"
  by (auto simp: on_share_start_def start_publication_def channel_of_def Let_def has_open_ops split: option.split)

lemma on_share_stop_parts:
  assumes "channel_of (ap_presence s) u \<noteq> None"
  shows "ap_presence (fst (on_share_stop now ch u src s)) = fst (stop_publication u src (ap_presence s))"
    and "ap_grants (fst (on_share_stop now ch u src s)) = release_publication ch u src (ap_grants s)"
    and "has_open c v (ap_shares (fst (on_share_stop now ch u src s))) \<longleftrightarrow>
      has_open c v (ap_shares s) \<and> (c \<noteq> ch \<or> v \<noteq> u \<or> live_in (fst (stop_publication u src (ap_presence s))) u)"
proof -
  obtain p st where Pair: "stop_publication u src (ap_presence s) = (p, st)" by fastforce
  have "hm_get (ap_presence s) u \<noteq> None" using assms by (auto simp: channel_of_def)
  with Pair obtain x where x: "st = Some x"
    by (auto simp: stop_publication_def Let_def split: option.splits)
  have still: "spp_still_publishing x = live_in p u"
    using stop_publication_still [of u src "ap_presence s" p x] Pair x by simp
  show "ap_presence (fst (on_share_stop now ch u src s)) = fst (stop_publication u src (ap_presence s))"
    "ap_grants (fst (on_share_stop now ch u src s)) = release_publication ch u src (ap_grants s)"
    using Pair x by (simp_all add: on_share_stop_def Let_def)
  show "has_open c v (ap_shares (fst (on_share_stop now ch u src s))) \<longleftrightarrow>
      has_open c v (ap_shares s) \<and> (c \<noteq> ch \<or> v \<noteq> u \<or> live_in (fst (stop_publication u src (ap_presence s))) u)"
    using Pair x still by (auto simp: on_share_stop_def Let_def has_open_ops)
qed

text \<open>
  Stopping one source leaves the other alone: that source's clock is cleared and no other clock of
  anyone moves, the person's slot for it is given back and no other slot, and their open session in the
  room survives exactly when something of theirs is still on the air.
\<close>
theorem share_stop_is_local:
  assumes "channel_of (ap_presence s) u = Some ch"
  shows "let s' = fst (on_share_stop now ch u src s) in
    (\<forall>v src'. since_of (ap_presence s') v src' = (if v = u \<and> src' = src then None else since_of (ap_presence s) v src')) \<and>
    (\<forall>v. channel_of (ap_presence s') v = channel_of (ap_presence s) v) \<and>
    (\<forall>c src'. held (ap_grants s') c src' =
       (if c = ch \<and> src' = src then held (ap_grants s) c src' - {u} else held (ap_grants s) c src')) \<and>
    (\<forall>c v. has_open c v (ap_shares s') \<longleftrightarrow> has_open c v (ap_shares s) \<and> (c \<noteq> ch \<or> v \<noteq> u \<or> live_in (ap_presence s') u))"
proof -
  have "channel_of (ap_presence s) u \<noteq> None" using assms by simp
  note parts = on_share_stop_parts [OF this, where now = now and ch = ch and src = src]
  show ?thesis
    unfolding Let_def parts by (simp add: pres.since_stop pres.channel_stop ledger.holds_one)
qed

theorem share_stop_is_local_witness:
  "let s = fst (on_share_start 30 3 900 7 Screen (fst (on_share_start 20 2 900 7 Camera sample_joined)));
       s' = fst (on_share_stop 40 900 7 Camera s)
   in since_of (ap_presence s') 7 Screen = Some 30 \<and> since_of (ap_presence s') 7 Camera = None \<and> has_open 900 7 (ap_shares s')"
proof -
  let ?s1 = "fst (on_share_start 20 2 900 7 Camera sample_joined)"
  let ?s = "fst (on_share_start 30 3 900 7 Screen ?s1)" and ?s' = "fst (on_share_stop 40 900 7 Camera (fst (on_share_start 30 3 900 7 Screen (fst (on_share_start 20 2 900 7 Camera sample_joined)))))"
  have j: "channel_of (ap_presence sample_joined) 7 = Some 900" by code_simp
  then have c1: "channel_of (ap_presence ?s1) 7 = Some 900"
    unfolding on_share_start_parts by (simp add: pres.channel_start)
  then have c: "channel_of (ap_presence ?s) 7 = Some 900"
    unfolding on_share_start_parts(2) [of 30] by (simp add: pres.channel_start)
  have p: "ap_presence ?s = fst (start_publication 30 7 Screen (fst (start_publication 20 7 Camera (ap_presence sample_joined))))"
    unfolding on_share_start_parts(2) ..
  have "since_of (ap_presence ?s) 7 Screen = Some 30" unfolding p by code_simp
  moreover have "has_open 900 7 (ap_shares ?s)"
    using c1 by (subst on_share_start_parts(3)) simp_all
  moreover have "live_in (ap_presence ?s') 7"
  proof -
    have "channel_of (ap_presence ?s) 7 \<noteq> None" using c by simp
    then show ?thesis unfolding on_share_stop_parts(1) [OF \<open>channel_of (ap_presence ?s) 7 \<noteq> None\<close>] p by code_simp
  qed
  ultimately show ?thesis
    using share_stop_is_local [OF c, of 40 Camera] by (simp add: Let_def)
qed

section \<open>Tokens\<close>

lemma card_held: "ledger_ok c g \<Longrightarrow> card (held g ch src) = length (holders (room_of g ch) src)"
proof -
  assume ok: "ledger_ok c g"
  have "distinct (holders (room_of g ch) src)"
    using room_of_ok [OF ok, of ch] by (simp add: slots_ok_def)
  then show ?thesis using distinct_card set_room_of by metis
qed

lemma claim_succeeds_iff:
  assumes "ledger_ok c g"
  shows "snd (claim_publications c ch u wanted g) = Inr () \<longleftrightarrow>
     (\<forall>src \<in> set wanted. u \<in> held g ch src \<or> card (held g ch src) < ceiling_of c src)"
proof -
  have "snd (claim_publications c ch u wanted g) = Inr () \<longleftrightarrow> \<not> (\<exists>e. check_slots c (room_of g ch) u wanted = Inl e)"
    by (cases "check_slots c (room_of g ch) u wanted") (simp_all add: claim_publications_def Let_def del: fold_simps)
  moreover have "card (set (holders (room_of g ch) src)) = length (holders (room_of g ch) src)" for src
    using card_held [OF assms, of ch src] by (simp add: set_room_of)
  ultimately show ?thesis
    unfolding set_room_of [symmetric] by (auto simp: check_slots_iff not_less)
qed

lemma issue_token_signed:
  assumes "\<And>t. sign t \<noteq> None"
  shows "\<exists>t. issue_token show_uuid sign c ch u name p = Inr t"
proof -
  have "sign t = None \<Longrightarrow> False" for t using assms by blast
  then show ?thesis by (auto simp: issue_token_def Let_def split: option.split)
qed

lemma issue_token_error: "issue_token show_uuid sign c ch u name p = Inl e \<Longrightarrow> app_status e = 502"
  by (auto simp: issue_token_def Let_def split: option.splits)

lemma token_route_frame:
  "ap_presence (fst (token_route su sign now u ch pub s)) = ap_presence s \<and>
   ap_users (fst (token_route su sign now u ch pub s)) = ap_users s \<and>
   ap_replica (fst (token_route su sign now u ch pub s)) = ap_replica s \<and>
   ap_room_config (fst (token_route su sign now u ch pub s)) = ap_room_config s"
  by (auto simp: token_route_def Let_def split: sum.splits prod.splits)

lemma token_route_admitted:
  assumes "(if pub \<noteq> [] then publish_access now s u ch else room_access now s u ch) = Inr a"
  shows "fst (token_route su sign now u ch pub s) = s\<lparr>ap_grants := fst (claim_publications (ap_room_config s) ch u pub (ap_grants s))\<rparr>"
    and "snd (claim_publications (ap_room_config s) ch u pub (ap_grants s)) = Inl e \<Longrightarrow> snd (token_route su sign now u ch pub s) = Inl e"
    and "snd (claim_publications (ap_room_config s) ch u pub (ap_grants s)) = Inr () \<Longrightarrow> (\<And>t. sign t \<noteq> None) \<Longrightarrow>
      \<exists>r. snd (token_route su sign now u ch pub s) = Inr r \<and> rtr_room r = room_name ch"
proof -
  show "fst (token_route su sign now u ch pub s) = s\<lparr>ap_grants := fst (claim_publications (ap_room_config s) ch u pub (ap_grants s))\<rparr>"
    using assms by (auto simp: token_route_def Let_def split: sum.split prod.split)
  show "snd (claim_publications (ap_room_config s) ch u pub (ap_grants s)) = Inl e \<Longrightarrow> snd (token_route su sign now u ch pub s) = Inl e"
    using assms by (auto simp: token_route_def Let_def split: sum.split prod.split)
  assume g: "snd (claim_publications (ap_room_config s) ch u pub (ap_grants s)) = Inr ()" and "\<And>t. sign t \<noteq> None"
  from issue_token_signed [where sign = sign, OF this(2)] obtain t where
    "issue_token su sign (ap_room_config s) ch u (coalesce (ur_display_name (ra_user a)) (ur_username (ra_user a))) (pub \<noteq> []) = Inr t"
    by blast
  with assms g show "\<exists>r. snd (token_route su sign now u ch pub s) = Inr r \<and> rtr_room r = room_name ch"
    by (auto simp: token_route_def Let_def split: sum.split prod.split)
qed

text \<open>
  C13.  A token is a decision: the route returns one only to a caller the replica lets in (and, to publish,
  lets stream) while it is fresh, and then the ledger says the caller holds exactly the sources they
  declared in that room; the ceiling of each source still holds afterwards, granted or refused.
\<close>
theorem token_only_when_admitted:
  assumes "ledger_ok (ap_room_config s) (ap_grants s)"
  shows "ledger_ok (ap_room_config s) (ap_grants (fst (token_route su sign now u ch pub s))) \<and>
    (\<forall>r. snd (token_route su sign now u ch pub s) = Inr r \<longrightarrow>
       staleness now (ap_replica s) = Fresh \<and>
       (\<exists>p. request_rights s u ch = Some p \<and> can_join_room p \<and> (pub = [] \<or> can_publish p)) \<and>
       (\<forall>src. u \<in> held (ap_grants (fst (token_route su sign now u ch pub s))) ch src \<longleftrightarrow> src \<in> set pub))"
proof -
  let ?acc = "if pub \<noteq> [] then publish_access now s u ch else room_access now s u ch"
  let ?claim = "claim_publications (ap_room_config s) ch u pub (ap_grants s)"
  show ?thesis
  proof (cases ?acc)
    case (Inl e)
    then have "token_route su sign now u ch pub s = (s, Inl e)" by (simp add: token_route_def Let_def)
    with assms show ?thesis by simp
  next
    case (Inr a)
    note t = token_route_admitted [OF Inr, where su = su and sign = sign]
    have fst: "ap_grants (fst (token_route su sign now u ch pub s)) = fst ?claim" using t(1) by simp
    have rights: "staleness now (ap_replica s) = Fresh \<and>
        (\<exists>p. request_rights s u ch = Some p \<and> can_join_room p \<and> (pub = [] \<or> can_publish p))"
      using Inr admitted_rights [of now s u ch] by (auto split: if_splits)
    have "u \<in> held (fst ?claim) ch src \<longleftrightarrow> src \<in> set pub" if "snd (token_route su sign now u ch pub s) = Inr r" for r src
    proof -
      have "snd ?claim = Inr ()" using t(2) that by (cases "snd ?claim") auto
      then show ?thesis using claim_granted_ledger [of "ap_room_config s" ch u pub "ap_grants s" "fst ?claim" "()" ch src]
        by (metis Diff_iff insertCI prod.collapse singletonI)
    qed
    with rights fst claim_ok [OF assms, of ch u pub] show ?thesis by simp
  qed
qed

lemma sample_ledger_ok: "ledger_ok c (ap_grants sample_app)"
  by (simp add: ledger_ok_def sample_app_def app_state_new_def)

lemma sample_admitted: "\<exists>a. room_access 0 sample_app 7 900 = Inr a"
proof -
  have f: "staleness 0 (ap_replica sample_app) = Fresh" by code_simp
  obtain p where p: "request_rights sample_app 7 900 = Some p" "can_join_room p"
  proof -
    have "(case request_rights sample_app 7 900 of None \<Rightarrow> False | Some p \<Rightarrow> can_join_room p)" by code_simp
    then show ?thesis using that by (auto split: option.splits)
  qed
  then show ?thesis using room_access_fresh [OF f p(1)] by auto
qed

theorem token_only_when_admitted_witness:
  "\<exists>r. snd (token_route decimal_show_uuid (\<lambda>t. Some (tc_identity t)) 0 7 900 [] sample_app) = Inr r \<and>
       (\<forall>src. 7 \<notin> held (ap_grants (fst (token_route decimal_show_uuid (\<lambda>t. Some (tc_identity t)) 0 7 900 [] sample_app))) 900 src)"
proof -
  obtain a where a: "room_access 0 sample_app 7 900 = Inr a" using sample_admitted by blast
  have "(if ([] :: publication_source list) \<noteq> [] then publish_access 0 sample_app 7 900 else room_access 0 sample_app 7 900) = Inr a"
    using a by simp
  moreover have "snd (claim_publications (ap_room_config sample_app) 900 7 [] (ap_grants sample_app)) = Inr ()"
    unfolding claim_succeeds_iff [OF sample_ledger_ok] by simp
  ultimately obtain r where r: "snd (token_route decimal_show_uuid (\<lambda>t. Some (tc_identity t)) 0 7 900 [] sample_app) = Inr r"
    using token_route_admitted(3) [where sign = "\<lambda>t. Some (tc_identity t)" and su = decimal_show_uuid] by blast
  with token_only_when_admitted [OF sample_ledger_ok, of decimal_show_uuid "\<lambda>t. Some (tc_identity t)" 0 7 900 "[]"] r
  show ?thesis by auto
qed

text \<open>
  The ledger counts declarations, not publications: a viewer token asked for by someone who is live
  gives their slot back while they stay on the air, so the next person gets the seat the ceiling was
  refusing them a moment before.
\<close>
theorem viewer_token_frees_live_slot:
  assumes ok: "ledger_ok (ap_room_config s) (ap_grants s)" and total: "\<And>t. sign t \<noteq> None"
    and viewer: "room_access now s u ch = Inr a" and next_one: "publish_access now s v ch = Inr b"
    and other: "u \<noteq> v" "u \<in> held (ap_grants s) ch src" "v \<notin> held (ap_grants s) ch src"
    and full: "card (held (ap_grants s) ch src) = ceiling_of (ap_room_config s) src"
  shows "snd (token_route su sign now v ch [src] s) = Inl RoomCapacity \<and>
    (let s1 = fst (token_route su sign now u ch [] s)
     in (\<exists>r. snd (token_route su sign now v ch [src] s1) = Inr r) \<and> ap_presence s1 = ap_presence s)"
proof -
  let ?c = "ap_room_config s" and ?s1 = "fst (token_route su sign now u ch [] s)"
  have v: "(if [src] \<noteq> [] then publish_access now s v ch else room_access now s v ch) = Inr b" using next_one by simp
  have u: "(if ([] :: publication_source list) \<noteq> [] then publish_access now s u ch else room_access now s u ch) = Inr a" using viewer by simp
  have "snd (claim_publications ?c ch v [src] (ap_grants s)) \<noteq> Inr ()"
    using other full by (simp add: claim_succeeds_iff [OF ok])
  then obtain e where e: "snd (claim_publications ?c ch v [src] (ap_grants s)) = Inl e"
    by (cases "snd (claim_publications ?c ch v [src] (ap_grants s))") auto
  then have refused: "snd (token_route su sign now v ch [src] s) = Inl RoomCapacity"
    using token_route_admitted(2) [OF v e, of su sign] claim_refused_ledger [of ?c ch v "[src]" "ap_grants s"]
    by (metis prod.collapse)
  have g: "ap_grants ?s1 = fst (claim_publications ?c ch u [] (ap_grants s))"
    using token_route_admitted(1) [OF u, of su sign] by simp
  have ok1: "ledger_ok ?c (ap_grants ?s1)" unfolding g by (rule claim_ok [OF ok])
  have "snd (claim_publications ?c ch u [] (ap_grants s)) = Inr ()" by (simp add: claim_succeeds_iff [OF ok])
  then have held1: "held (ap_grants ?s1) ch src = held (ap_grants s) ch src - {u}"
    unfolding g using claim_granted_ledger [of ?c ch u "[]" "ap_grants s"] by (metis empty_iff list.set(1) prod.collapse)
  have "finite (held (ap_grants s) ch src)" by (simp add: held_def split: option.split)
  then have room: "card (held (ap_grants ?s1) ch src) < ceiling_of ?c src"
    using other(2) full unfolding held1 by (metis card_Diff1_less)
  have v1: "(if [src] \<noteq> [] then publish_access now ?s1 v ch else room_access now ?s1 v ch) = Inr b"
    using next_one access_cong [of ?s1 s now v ch] token_route_frame [of su sign now u ch "[]" s] by simp
  have "snd (claim_publications (ap_room_config ?s1) ch v [src] (ap_grants ?s1)) = Inr ()"
    using room token_route_frame [of su sign now u ch "[]" s] claim_succeeds_iff [OF ok1, of ch v "[src]"] by simp
  with token_route_admitted(3) [where sign = sign and su = su, OF v1 this total] refused token_route_frame [of su sign now u ch "[]" s]
  show ?thesis unfolding Let_def by blast
qed

text \<open>Two people who may stream, one screen at a time, and one of them holding it.\<close>

definition sample_stage :: app_state where
  "sample_stage = sample_app\<lparr>
     ap_users := hm_insert 9 \<lparr>ur_id = 9, ur_discord_user_id = 1, ur_username = ''caio'', ur_display_name = None,
                    ur_avatar_url = None, ur_created_at = 0\<rparr> sample_users,
     ap_room_config := sample_room_config\<lparr>rc_max_publishers := 1\<rparr>,
     ap_grants := [(900, \<lparr>rs_screens = [7], rs_cameras = []\<rparr>)]\<rparr>"

theorem viewer_token_frees_live_slot_witness:
  "snd (token_route decimal_show_uuid (\<lambda>t. Some (tc_identity t)) 0 9 900 [Screen] sample_stage) = Inl RoomCapacity \<and>
   (let s1 = fst (token_route decimal_show_uuid (\<lambda>t. Some (tc_identity t)) 0 7 900 [] sample_stage)
    in \<exists>r. snd (token_route decimal_show_uuid (\<lambda>t. Some (tc_identity t)) 0 9 900 [Screen] s1) = Inr r)"
proof -
  have f: "staleness 0 (ap_replica sample_stage) = Fresh" by code_simp
  have "\<exists>p. request_rights sample_stage 7 900 = Some p \<and> can_join_room p"
    "\<exists>p. request_rights sample_stage 9 900 = Some p \<and> can_publish p"
  proof -
    have "(case request_rights sample_stage 7 900 of None \<Rightarrow> False | Some p \<Rightarrow> can_join_room p)"
      "(case request_rights sample_stage 9 900 of None \<Rightarrow> False | Some p \<Rightarrow> can_publish p)" by code_simp+
    then show "\<exists>p. request_rights sample_stage 7 900 = Some p \<and> can_join_room p"
      "\<exists>p. request_rights sample_stage 9 900 = Some p \<and> can_publish p" by (auto split: option.splits)
  qed
  then obtain a b where ab: "room_access 0 sample_stage 7 900 = Inr a" "publish_access 0 sample_stage 9 900 = Inr b"
    using admits_iff [of 0 sample_stage 7 900] admits_iff [of 0 sample_stage 9 900] f by blast
  have ok: "ledger_ok (ap_room_config sample_stage) (ap_grants sample_stage)"
    by (auto simp: ledger_ok_def sample_stage_def hm_get_def all_source split: if_splits)
  have h: "held (ap_grants sample_stage) 900 Screen = {7}"
    by (simp add: held_def sample_stage_def hm_get_def)
  have "ceiling_of (ap_room_config sample_stage) Screen = 1" by (simp add: sample_stage_def)
  with viewer_token_frees_live_slot [OF ok, of "\<lambda>t. Some (tc_identity t)" 0 7 900 a 9 b Screen decimal_show_uuid] ab h
  show ?thesis by (simp add: Let_def)
qed

section \<open>Late webhooks\<close>

lemma on_join_parts:
  assumes "hm_get (ap_users s) u \<noteq> None"
  shows "ap_users (fst (on_join now ch u s)) = ap_users s"
    and "channel_of (ap_presence (fst (on_join now ch u s))) v = (if v = u then Some ch else channel_of (ap_presence s) v)"
    and "has_open c v (ap_shares (fst (on_join now ch u s))) = has_open c v (ap_shares s)"
    and "ap_grants (fst (on_join now ch u s)) = ap_grants s"
    and "since_of (ap_presence (fst (on_join now ch u s))) v src = (if v = u then None else since_of (ap_presence s) v src)"
  using assms
  by (auto simp: on_join_def presence_join_def users_find_by_id_def Let_def channel_of_def since_of_def pr_since_def
      split: option.split publication_source.split)

text \<open>
  The room of a departure is not compared with where the person is: when someone who moved from one
  room to another is reported in the new one before the departure from the old one arrives, that
  departure takes them out of the new room's presence, and only the people of the old room are told.
\<close>
theorem late_leave_evicts_from_new_room:
  assumes "hm_get (ap_users s) u \<noteq> None" and "old \<noteq> new"
  shows "let s1 = fst (on_join t1 new u s); s2 = fst (on_leave t2 old u s1)
    in channel_of (ap_presence s1) u = Some new \<and> channel_of (ap_presence s2) u = None \<and>
       (\<forall>p. has_open new p (ap_shares s2) = has_open new p (ap_shares s)) \<and>
       (\<forall>src. held (ap_grants s2) new src = held (ap_grants s) new src) \<and>
       list_all (\<lambda>(tx, f). is_event_frame (RoomParticipantRemove old u) f) (delivered (ap_hub s1) (ap_hub s2))"
  using assms(2) unfolding Let_def
  by (simp add: on_join_parts [OF assms(1)] on_leave_parts pres.channel_leave ledger.holds_all
      publishes_delivered [OF publish_to_users_publishes])

theorem late_leave_evicts_from_new_room_witness:
  "let s1 = fst (on_join 20 901 7 sample_joined); s2 = fst (on_leave 30 900 7 s1)
   in channel_of (ap_presence s1) 7 = Some 901 \<and> channel_of (ap_presence s2) 7 = None"
proof -
  have "hm_get (ap_users sample_joined) 7 \<noteq> None" by code_simp
  from late_leave_evicts_from_new_room [OF this, of 900 901 20 30] show ?thesis by (simp add: Let_def)
qed

text \<open>
  A viewer connection that comes back while its owner is streaming takes the stream off the air in the
  room's state: joining again clears the clocks of both sources, although the open session and the
  slots, which belong to the publishing connection, stay.
\<close>
theorem viewer_rejoin_hides_live_stream:
  assumes "hm_get (ap_users s) u \<noteq> None"
  shows "let s' = fst (on_join now ch u s)
    in (\<forall>src. since_of (ap_presence s') u src = None) \<and> (\<forall>c v. has_open c v (ap_shares s') = has_open c v (ap_shares s)) \<and>
       ap_grants s' = ap_grants s"
  unfolding Let_def by (simp add: on_join_parts [OF assms])

theorem viewer_rejoin_hides_live_stream_witness:
  "let s = fst (on_share_start 20 2 900 7 Screen sample_joined); s' = fst (on_join 30 900 7 s)
   in has_open 900 7 (ap_shares s') \<and> since_of (ap_presence s') 7 Screen = None"
proof -
  let ?s = "fst (on_share_start 20 2 900 7 Screen sample_joined)"
  have u: "hm_get (ap_users ?s) 7 \<noteq> None" unfolding on_share_start_parts by code_simp
  have "channel_of (ap_presence sample_joined) 7 \<noteq> None" by code_simp
  then have "has_open 900 7 (ap_shares ?s)" by (simp add: on_share_start_parts(3))
  with viewer_rejoin_hides_live_stream [OF u, of 30 900] show ?thesis by (simp add: Let_def)
qed

end
