(* ===== verification/Single_Use.thy ===== *)
theory Single_Use
  imports Ldk_Prelude
begin

text \<open>
  The contract of the credentials that work once: pairing codes (\<^verbatim>\<open>db/repo/pairing.rs\<close>) and refresh tokens
  (\<^verbatim>\<open>db/repo/refresh_tokens.rs\<close>).  Both are taken with one atomic statement that says whether it won.
\<close>

fun attempts :: "('i \<Rightarrow> 'k \<Rightarrow> 't \<Rightarrow> 't \<times> bool) \<Rightarrow> ('i \<times> 'k) list \<Rightarrow> 't \<Rightarrow> bool list" where
  "attempts spend [] t = []"
| "attempts spend ((now, k) # as) t = (case spend now k t of (t', won) \<Rightarrow> won # attempts spend as t')"

text \<open>How many attempts on the credential \<open>c\<close> succeeded; \<open>key\<close> is the credential a request presents.\<close>

definition wins :: "('k \<Rightarrow> 'c) \<Rightarrow> 'c \<Rightarrow> ('i \<times> 'k) list \<Rightarrow> bool list \<Rightarrow> nat" where
  "wins key c as rs = length (filter (\<lambda>(a, won). key (snd a) = c \<and> won) (zip as rs))"

lemma wins_simps [simp]:
  "wins key c [] rs = 0"
  "wins key c (a # as) (r # rs) = (if key (snd a) = c \<and> r then 1 else 0) + wins key c as rs"
  by (simp_all add: wins_def)

locale single_use =
  fixes ok :: "'t \<Rightarrow> bool"
    and pending :: "'t \<Rightarrow> 'c set"
    and key :: "'k \<Rightarrow> 'c"
    and spend :: "'i \<Rightarrow> 'k \<Rightarrow> 't \<Rightarrow> 't \<times> bool"
  assumes won_pending: "ok t \<Longrightarrow> snd (spend now k t) \<Longrightarrow> key k \<in> pending t"
    and won_spent: "ok t \<Longrightarrow> snd (spend now k t) \<Longrightarrow> key k \<notin> pending (fst (spend now k t))"
    and spend_pending: "ok t \<Longrightarrow> pending (fst (spend now k t)) \<subseteq> pending t"
    and spend_ok: "ok t \<Longrightarrow> ok (fst (spend now k t))"
begin

lemma no_wins_when_spent: "ok t \<Longrightarrow> c \<notin> pending t \<Longrightarrow> wins key c as (attempts spend as t) = 0"
proof (induction as arbitrary: t)
  case (Cons a as)
  obtain now j where a: "a = (now, j)" by (cases a)
  have "\<not> (key j = c \<and> snd (spend now j t))" using won_pending [OF Cons.prems(1)] Cons.prems(2) by blast
  moreover have "wins key c as (attempts spend as (fst (spend now j t))) = 0"
    using spend_pending [OF Cons.prems(1)] Cons.prems(2) by (intro Cons.IH spend_ok [OF Cons.prems(1)]) blast
  ultimately show ?case using a by (simp add: case_prod_beta)
qed simp

lemma at_most_one_win: "ok t \<Longrightarrow> wins key c as (attempts spend as t) \<le> 1"
proof (induction as arbitrary: t)
  case (Cons a as)
  obtain now j where a: "a = (now, j)" by (cases a)
  let ?t = "fst (spend now j t)"
  have ok: "ok ?t" by (rule spend_ok [OF Cons.prems])
  show ?case
  proof (cases "key j = c \<and> snd (spend now j t)")
    case True
    then have "c \<notin> pending ?t" using won_spent [OF Cons.prems] by blast
    from no_wins_when_spent [OF ok this] True a show ?thesis by (simp add: case_prod_beta)
  next
    case False
    with Cons.IH [OF ok] a show ?thesis by (auto simp: case_prod_beta)
  qed
qed simp

end

end
