(* ===== verification/Auth_Tokens.thy ===== *)
theory Auth_Tokens
  imports Presence Livekit Single_Use
begin

text \<open>
  \<^verbatim>\<open>crates/api/src/auth/token.rs\<close>, \<^verbatim>\<open>middleware/auth.rs\<close> and \<^verbatim>\<open>crates/db/src/repo/refresh_tokens.rs\<close>: access
  tokens, the bearer extractor, and the table \<^verbatim>\<open>refresh_tokens\<close> with the statements on it.  The
  \<^verbatim>\<open>jsonwebtoken\<close> crate is a parameter (\<open>encode\<close>, \<open>decode\<close>), as are SHA-256 and the random bytes.
  Instants are nanoseconds.
\<close>

section \<open>Access tokens\<close>

record access_claims =
  ac_sub :: string
  ac_jti :: string
  ac_iat :: int
  ac_exp :: int

datatype jwt_failure = JwtExpiredSignature | JwtOther
datatype token_error = TkExpired | TkInvalid

definition NANOS :: int where "NANOS = 1000000000"

definition unix_timestamp :: "instant \<Rightarrow> int" where
  "unix_timestamp now = now div NANOS"

definition issue_access ::
  "(string \<Rightarrow> access_claims \<Rightarrow> string option) \<Rightarrow> (uuid \<Rightarrow> string) \<Rightarrow> uuid \<Rightarrow> string \<Rightarrow> uuid \<Rightarrow> int \<Rightarrow> instant \<Rightarrow>
     token_error + string \<times> uuid" where
  "issue_access encode show_uuid jti key user ttl_seconds now =
    (case encode key \<lparr>ac_sub = show_uuid user, ac_jti = show_uuid jti, ac_iat = unix_timestamp now,
                      ac_exp = unix_timestamp now + ttl_seconds\<rparr> of
       None \<Rightarrow> Inl TkInvalid
     | Some token \<Rightarrow> Inr (token, jti))"

text \<open>\<open>decode key leeway now token\<close>, with \<^verbatim>\<open>exp\<close> and \<^verbatim>\<open>sub\<close> required; \<^verbatim>\<open>now\<close> in seconds.\<close>

type_synonym jwt_decode = "string \<Rightarrow> int \<Rightarrow> int \<Rightarrow> string \<Rightarrow> jwt_failure + access_claims"

definition verify_access :: "jwt_decode \<Rightarrow> string \<Rightarrow> instant \<Rightarrow> string \<Rightarrow> token_error + access_claims" where
  "verify_access decode key now token =
    (case decode key 5 (unix_timestamp now) token of
       Inr c \<Rightarrow> Inr c
     | Inl JwtExpiredSignature \<Rightarrow> Inl TkExpired
     | Inl JwtOther \<Rightarrow> Inl TkInvalid)"

text \<open>\<^verbatim>\<open>AuthUser::from_request_parts\<close>: \<open>header\<close> is the \<^verbatim>\<open>Authorization\<close> header when it is there and readable.\<close>

definition auth_user ::
  "jwt_decode \<Rightarrow> (string \<Rightarrow> uuid option) \<Rightarrow> string \<Rightarrow> instant \<Rightarrow> string option \<Rightarrow> app_error + uuid \<times> uuid" where
  "auth_user decode parse_uuid key now header =
    (case header of
       None \<Rightarrow> Inl Unauthorized
     | Some h \<Rightarrow>
       (case strip_prefix ''Bearer '' h of
          None \<Rightarrow> Inl Unauthorized
        | Some rest \<Rightarrow>
          (let presented = str_trim rest in
           if presented = [] then Inl Unauthorized
           else case verify_access decode key now presented of
             Inl TkExpired \<Rightarrow> Inl TokenExpired
           | Inl TkInvalid \<Rightarrow> Inl Unauthorized
           | Inr claims \<Rightarrow>
             (case parse_uuid (ac_sub claims) of
                None \<Rightarrow> Inl Unauthorized
              | Some i \<Rightarrow>
                (case parse_uuid (ac_jti claims) of
                   None \<Rightarrow> Inl Unauthorized
                 | Some jti \<Rightarrow> Inr (i, jti))))))"

text \<open>\<^verbatim>\<open>s.chars().take(n).collect()\<close>: bytes up to the start of character \<open>n + 1\<close>.\<close>

definition is_continuation :: "char \<Rightarrow> bool" where
  "is_continuation c \<longleftrightarrow> 128 \<le> char_code c \<and> char_code c < 192"

fun take_chars :: "nat \<Rightarrow> string \<Rightarrow> string" where
  "take_chars n [] = []"
| "take_chars n (c # cs) =
     (if is_continuation c then c # take_chars n cs
      else case n of 0 \<Rightarrow> [] | Suc k \<Rightarrow> c # take_chars k cs)"

definition user_agent :: "string option \<Rightarrow> string option" where
  "user_agent header = map_option (take_chars 200) header"

section \<open>Refresh tokens\<close>

text \<open>The secret is the random text handed to the client once; the digest is what is stored.\<close>

definition hash_refresh :: "(string \<Rightarrow> 8 word list) \<Rightarrow> string \<Rightarrow> string" where
  "hash_refresh sha256 secret = hex_lower (sha256 secret)"

record refresh_token =
  rtk_secret :: string
  rtk_hash :: string

definition issue_refresh :: "(string \<Rightarrow> 8 word list) \<Rightarrow> string \<Rightarrow> refresh_token" where
  "issue_refresh sha256 secret = \<lparr>rtk_secret = secret, rtk_hash = hash_refresh sha256 secret\<rparr>"

record refresh_row =
  rf_id :: uuid
  rf_family_id :: uuid
  rf_user_id :: uuid
  rf_token_hash :: string
  rf_user_agent :: "string option"
  rf_issued_at :: instant
  rf_expires_at :: instant
  rf_consumed_at :: "instant option"
  rf_revoked_at :: "instant option"

type_synonym refresh_tokens = "refresh_row list"

definition is_usable :: "instant \<Rightarrow> refresh_row \<Rightarrow> bool" where
  "is_usable now r \<longleftrightarrow> rf_consumed_at r = None \<and> rf_revoked_at r = None \<and> rf_expires_at r > now"

text \<open>The primary key, the unique digest and the reference to \<^verbatim>\<open>users\<close> can each refuse the row.\<close>

definition rt_insert ::
  "instant \<Rightarrow> users \<Rightarrow> uuid \<Rightarrow> uuid \<Rightarrow> uuid \<Rightarrow> string \<Rightarrow> string option \<Rightarrow> instant \<Rightarrow> refresh_tokens \<Rightarrow>
     db_error + refresh_tokens" where
  "rt_insert now us i fam u hash ua expires t =
    (if i \<in> set (map rf_id t) then Inl (DbSqlx ''refresh_tokens_pkey'')
     else if hash \<in> set (map rf_token_hash t) then Inl (DbSqlx ''refresh_tokens_token_hash_key'')
     else if hm_get us u = None then Inl (DbSqlx ''refresh_tokens_user_id_fkey'')
     else Inr (t @ [\<lparr>rf_id = i, rf_family_id = fam, rf_user_id = u, rf_token_hash = hash, rf_user_agent = ua,
                     rf_issued_at = now, rf_expires_at = expires, rf_consumed_at = None, rf_revoked_at = None\<rparr>]))"

definition rt_find_by_hash :: "string \<Rightarrow> refresh_tokens \<Rightarrow> refresh_row option" where
  "rt_find_by_hash hash t = find (\<lambda>r. rf_token_hash r = hash) t"

definition consumable :: "uuid \<Rightarrow> refresh_row \<Rightarrow> bool" where
  "consumable i r \<longleftrightarrow> rf_id r = i \<and> rf_consumed_at r = None \<and> rf_revoked_at r = None"

definition rt_consume :: "instant \<Rightarrow> uuid \<Rightarrow> refresh_tokens \<Rightarrow> refresh_tokens \<times> bool" where
  "rt_consume now i t =
    (map (\<lambda>r. if consumable i r then r\<lparr>rf_consumed_at := Some now\<rparr> else r) t, length (filter (consumable i) t) = 1)"

definition rt_revoke_where :: "(refresh_row \<Rightarrow> bool) \<Rightarrow> instant \<Rightarrow> refresh_tokens \<Rightarrow> refresh_tokens \<times> nat" where
  "rt_revoke_where p now t =
    (map (\<lambda>r. if p r \<and> rf_revoked_at r = None then r\<lparr>rf_revoked_at := Some now\<rparr> else r) t,
     length (filter (\<lambda>r. p r \<and> rf_revoked_at r = None) t))"

definition rt_revoke_family :: "instant \<Rightarrow> uuid \<Rightarrow> refresh_tokens \<Rightarrow> refresh_tokens \<times> nat" where
  "rt_revoke_family now fam t = rt_revoke_where (\<lambda>r. rf_family_id r = fam) now t"

definition rt_revoke_all_for_user :: "instant \<Rightarrow> uuid \<Rightarrow> refresh_tokens \<Rightarrow> refresh_tokens \<times> nat" where
  "rt_revoke_all_for_user now u t = rt_revoke_where (\<lambda>r. rf_user_id r = u) now t"

definition rt_list_family :: "uuid \<Rightarrow> refresh_tokens \<Rightarrow> refresh_row list" where
  "rt_list_family fam t = sort_key rf_id (filter (\<lambda>r. rf_family_id r = fam) t)"

definition days :: "int \<Rightarrow> int" where
  "days d = d * 86400 * NANOS"

definition rt_delete_expired :: "instant \<Rightarrow> int \<Rightarrow> refresh_tokens \<Rightarrow> refresh_tokens \<times> nat" where
  "rt_delete_expired now grace_days t =
    (let keep = filter (\<lambda>r. \<not> rf_expires_at r < now - days grace_days) t in (keep, length t - length keep))"

section \<open>The table's invariant\<close>

definition rt_ok :: "refresh_tokens \<Rightarrow> bool" where
  "rt_ok t \<longleftrightarrow> distinct (map rf_id t) \<and> distinct (map rf_token_hash t)"

text \<open>Which rows are still good, by digest.\<close>

definition live_tokens :: "instant \<Rightarrow> refresh_tokens \<Rightarrow> string set" where
  "live_tokens now t = rf_token_hash ` {r \<in> set t. is_usable now r}"

lemma map_keeps_ids [simp]:
  "map rf_id (fst (rt_consume now i t)) = map rf_id t"
  "map rf_token_hash (fst (rt_consume now i t)) = map rf_token_hash t"
  "map rf_id (fst (rt_revoke_where p now t)) = map rf_id t"
  "map rf_token_hash (fst (rt_revoke_where p now t)) = map rf_token_hash t"
  by (simp_all add: rt_consume_def rt_revoke_where_def)

lemma rt_ops_ok [simp]:
  "rt_ok (fst (rt_consume now i t)) = rt_ok t" "rt_ok (fst (rt_revoke_where p now t)) = rt_ok t"
  by (simp_all add: rt_ok_def)

lemma rt_insert_ok: "rt_ok t \<Longrightarrow> rt_insert now us i fam u hash ua e t = Inr t' \<Longrightarrow> rt_ok t'"
  by (auto simp: rt_insert_def rt_ok_def split: if_splits)

lemma rt_delete_ok: "rt_ok t \<Longrightarrow> rt_ok (fst (rt_delete_expired now g t))"
  by (simp add: rt_ok_def rt_delete_expired_def Let_def distinct_map_filter)

lemma rt_find_Some: "rt_find_by_hash h t = Some r \<Longrightarrow> r \<in> set t \<and> rf_token_hash r = h"
  unfolding rt_find_by_hash_def by (drule find_Some_in) simp

lemma rt_find_unique: "rt_ok t \<Longrightarrow> rt_find_by_hash h t = Some r \<longleftrightarrow> r \<in> set t \<and> rf_token_hash r = h"
proof
  assume ok: "rt_ok t" and r: "r \<in> set t \<and> rf_token_hash r = h"
  show "rt_find_by_hash h t = Some r"
  proof (cases "rt_find_by_hash h t")
    case None
    with r show ?thesis by (auto simp: rt_find_by_hash_def find_None_iff)
  next
    case (Some q)
    then have "q = r" using rt_find_Some [OF Some] r ok by (auto simp: rt_ok_def distinct_map inj_on_def)
    with Some show ?thesis by simp
  qed
qed (rule rt_find_Some)

lemma rt_consume_wins:
  assumes "rt_ok t" and "r \<in> set t" and "rf_id r = i"
  shows "snd (rt_consume now i t) \<longleftrightarrow> rf_consumed_at r = None \<and> rf_revoked_at r = None"
proof -
  have u: "q = r" if "q \<in> set t" "rf_id q = i" for q
    using that assms unfolding rt_ok_def distinct_map inj_on_def by blast
  have d: "distinct t" using assms(1) by (simp add: rt_ok_def distinct_map)
  show ?thesis
  proof (cases "consumable i r")
    case True
    have "filter (consumable i) t = [r]"
      by (rule filter_single [of t r "consumable i", OF d assms(2) True]) (rule u, simp_all add: consumable_def)
    with True show ?thesis by (simp add: rt_consume_def consumable_def)
  next
    case False
    have "\<not> consumable i q" if "q \<in> set t" for q
    proof
      assume c: "consumable i q"
      then have "q = r" by (intro u [OF that]) (simp add: consumable_def)
      with c False show False by simp
    qed
    then have "filter (consumable i) t = []" by (simp add: filter_empty_conv)
    with False assms(3) show ?thesis by (simp add: rt_consume_def consumable_def)
  qed
qed

interpretation tokens: single_use rt_ok "\<lambda>t. rf_id ` {r \<in> set t. consumable (rf_id r) r}" "\<lambda>i. i" rt_consume
proof unfold_locales
  fix t i and now :: instant
  assume ok: "rt_ok t"
  show "i \<in> rf_id ` {r \<in> set t. consumable (rf_id r) r}" if won: "snd (rt_consume now i t)"
  proof -
    obtain r where "r \<in> set (filter (consumable i) t)"
      using won by (cases "filter (consumable i) t") (auto simp: rt_consume_def)
    then show ?thesis by (auto simp: consumable_def image_iff)
  qed
  have after: "\<exists>q \<in> set t. \<not> consumable i q \<and> rf_id q = rf_id r \<and> consumable (rf_id q) q"
    if r: "r \<in> set (fst (rt_consume now i t))" "consumable (rf_id r) r" for r
  proof -
    obtain q where q: "q \<in> set t" "r = (if consumable i q then q\<lparr>rf_consumed_at := Some now\<rparr> else q)"
      using r(1) by (auto simp: rt_consume_def)
    with r(2) show ?thesis by (cases "consumable i q") (auto simp: consumable_def)
  qed
  show "i \<notin> rf_id ` {r \<in> set (fst (rt_consume now i t)). consumable (rf_id r) r}"
    using after by fastforce
  show "rf_id ` {r \<in> set (fst (rt_consume now i t)). consumable (rf_id r) r} \<subseteq> rf_id ` {r \<in> set t. consumable (rf_id r) r}"
  proof
    fix x assume "x \<in> rf_id ` {r \<in> set (fst (rt_consume now i t)). consumable (rf_id r) r}"
    then obtain r where r: "r \<in> set (fst (rt_consume now i t))" "consumable (rf_id r) r" "x = rf_id r" by blast
    from after [OF r(1,2)] obtain q where "q \<in> set t" "consumable (rf_id q) q" "rf_id q = x" using r(3) by auto
    then show "x \<in> rf_id ` {r \<in> set t. consumable (rf_id r) r}" by blast
  qed
qed simp

lemma live_map:
  "(\<And>q. rf_token_hash (f q) = rf_token_hash q) \<Longrightarrow>
     live_tokens later (map f t) = rf_token_hash ` {q \<in> set t. is_usable later (f q)}"
  unfolding live_tokens_def by (auto simp: image_iff) metis

lemma live_consume:
  assumes "rt_ok t" and "r \<in> set t"
  shows "live_tokens later (fst (rt_consume now (rf_id r) t)) = live_tokens later t - {rf_token_hash r}"
proof -
  have inj: "q \<in> set t \<Longrightarrow> rf_token_hash q = rf_token_hash r \<longleftrightarrow> rf_id q = rf_id r" for q
    using assms by (auto simp: rt_ok_def distinct_map inj_on_def)
  have "live_tokens later (fst (rt_consume now (rf_id r) t)) = rf_token_hash ` {q \<in> set t. is_usable later q \<and> rf_id q \<noteq> rf_id r}"
    unfolding rt_consume_def fst_conv
    by (subst live_map) (auto simp: consumable_def is_usable_def intro!: arg_cong [where f = "(`) rf_token_hash"])
  also have "\<dots> = live_tokens later t - {rf_token_hash r}"
    using inj by (auto simp: live_tokens_def)
  finally show ?thesis .
qed

lemma live_revoke:
  "live_tokens later (fst (rt_revoke_where p now t)) = rf_token_hash ` {r \<in> set t. is_usable later r \<and> \<not> p r}"
  unfolding rt_revoke_where_def fst_conv
  by (subst live_map) (auto simp: is_usable_def intro!: arg_cong [where f = "(`) rf_token_hash"])

lemma issue_access_total:
  assumes "\<And>k c. encode k c \<noteq> None"
  shows "\<exists>tok. issue_access encode show_uuid jti key user ttl now = Inr (tok, jti)"
proof -
  let ?c = "\<lparr>ac_sub = show_uuid user, ac_jti = show_uuid jti, ac_iat = unix_timestamp now, ac_exp = unix_timestamp now + ttl\<rparr>"
  obtain tok where "encode key ?c = Some tok" using assms [of key ?c] by blast
  then show ?thesis by (simp add: issue_access_def)
qed

section \<open>The life of an access token\<close>

lemma strip_prefix_same: "strip_prefix p (p @ s) = Some s"
  by (induction p) auto

text \<open>
  An access token is its user's for exactly its life: presented as a bearer token it authenticates the
  user and token id it was issued for, until \<open>ttl_seconds\<close> and the leeway of 5 s have passed, and from
  then on it is \<^verbatim>\<open>TOKEN_EXPIRED\<close> and never \<^verbatim>\<open>UNAUTHENTICATED\<close>, so the client refreshes instead of logging
  out.  The \<^verbatim>\<open>jsonwebtoken\<close> crate is relied on to give back the claims it signed unless \<^verbatim>\<open>exp\<close> plus the
  leeway is past, the uuid crate to parse what it prints, and a token to be free of blanks.
\<close>
theorem access_token_lifetime:
  assumes issued: "issue_access encode show_uuid jti key user ttl now = Inr (tok, jti')"
    and jwt: "\<And>c t. encode key c = Some tok \<Longrightarrow>
      decode key 5 t tok = (if ac_exp c + 5 < t then Inl JwtExpiredSignature else Inr c)"
    and uuid: "\<And>u. parse_uuid (show_uuid u) = Some u" and blank_free: "str_trim tok = tok" "tok \<noteq> []"
  shows "auth_user decode parse_uuid key later (Some (''Bearer '' @ tok)) =
    (if unix_timestamp now + ttl + 5 < unix_timestamp later then Inl TokenExpired else Inr (user, jti))"
proof -
  let ?c = "\<lparr>ac_sub = show_uuid user, ac_jti = show_uuid jti, ac_iat = unix_timestamp now, ac_exp = unix_timestamp now + ttl\<rparr>"
  have "encode key ?c = Some tok"
    using issued by (auto simp: issue_access_def split: option.splits)
  from jwt [OF this] show ?thesis
    by (simp add: auth_user_def strip_prefix_same verify_access_def blank_free uuid Let_def del: append.simps)
qed

theorem access_token_lifetime_witness:
  "let dec = (\<lambda>key leeway t tok. if 905 < t then Inl JwtExpiredSignature
                else Inr \<lparr>ac_sub = ''7'', ac_jti = ''3'', ac_iat = 0, ac_exp = 900\<rparr>)
   in auth_user dec decimal_parse_uuid ''k'' (905 * NANOS) (Some (''Bearer '' @ ''abc'')) = Inr (7, 3) \<and>
      auth_user dec decimal_parse_uuid ''k'' (906 * NANOS) (Some (''Bearer '' @ ''abc'')) = Inl TokenExpired"
proof -
  let ?claims = "\<lparr>ac_sub = ''7'', ac_jti = ''3'', ac_iat = 0, ac_exp = 900\<rparr>"
  let ?enc = "\<lambda>key c. if c = ?claims then Some ''abc'' else None"
  let ?dec = "\<lambda>(key :: string) (leeway :: int) t (tok :: string). if 905 < t then Inl JwtExpiredSignature else Inr ?claims"
  have i: "issue_access ?enc decimal_show_uuid 3 ''k'' 7 900 0 = Inr (''abc'', 3)" by code_simp
  have j: "?enc ''k'' c = Some ''abc'' \<Longrightarrow>
      ?dec ''k'' 5 t ''abc'' = (if ac_exp c + 5 < t then Inl JwtExpiredSignature else Inr c)" for c t
    by (simp split: if_splits)
  have t: "str_trim ''abc'' = ''abc''" by code_simp
  note th = access_token_lifetime [where decode = ?dec, OF i j decimal_uuid(1) t]
  show ?thesis
    using th [of "905 * NANOS"] th [of "906 * NANOS"] by (simp add: unix_timestamp_def NANOS_def)
qed

end
