(* ===== verification/Auth_Service.thy ===== *)
theory Auth_Service
  imports Auth_Tokens
begin

text \<open>
  \<^verbatim>\<open>crates/api/src/auth/session.rs\<close>: sessions, refresh rotation with reuse detection, and logout.  A rotation is
  written statement by statement (\<open>rot_step\<close>), one database statement per step, because two of them can
  run at once; \<open>rotate_refresh\<close> is the same rotation run alone.  What each rotation draws (the new
  token's id and secret, the access token's id, its clock) is part of its request.
\<close>

section \<open>State\<close>

record auth_config =
  au_jwt_signing_key :: string
  au_access_token_ttl_seconds :: int
  au_refresh_token_ttl_days :: int

record auth_deps =
  dp_encode :: "string \<Rightarrow> access_claims \<Rightarrow> string option"
  dp_show_uuid :: "uuid \<Rightarrow> string"
  dp_sha256 :: "string \<Rightarrow> 8 word list"

record auth_db =
  ad_users :: users
  ad_refresh :: refresh_tokens

record auth_response =
  ars_access_token :: string
  ars_refresh_token :: string
  ars_expires_in :: int
  ars_user :: current_user

text \<open>What one request draws from the clock and the generators.\<close>

record draws =
  dr_now :: instant
  dr_id :: uuid
  dr_jti :: uuid
  dr_secret :: string
  dr_user_agent :: "string option"

section \<open>Issuing\<close>

definition issue_pair ::
  "auth_deps \<Rightarrow> auth_config \<Rightarrow> draws \<Rightarrow> user_row \<Rightarrow> uuid \<Rightarrow> uuid \<Rightarrow> auth_db \<Rightarrow> auth_db \<times> (app_error + auth_response)" where
  "issue_pair dp cfg d user token_id family_id db =
    (case issue_access (dp_encode dp) (dp_show_uuid dp) (dr_jti d) (au_jwt_signing_key cfg) (ur_id user)
            (au_access_token_ttl_seconds cfg) (dr_now d) of
       Inl e \<Rightarrow> (db, Inl (Internal ''issuing access token''))
     | Inr (access_token, _) \<Rightarrow>
       (let refresh = issue_refresh (dp_sha256 dp) (dr_secret d) in
        case rt_insert (dr_now d) (ad_users db) token_id family_id (ur_id user) (rtk_hash refresh) (dr_user_agent d)
               (dr_now d + days (au_refresh_token_ttl_days cfg)) (ad_refresh db) of
          Inl e \<Rightarrow> (db, Inl (app_of_db e))
        | Inr t \<Rightarrow>
            (db\<lparr>ad_refresh := t\<rparr>,
             Inr \<lparr>ars_access_token = access_token, ars_refresh_token = rtk_secret refresh,
                  ars_expires_in = au_access_token_ttl_seconds cfg, ars_user = user_to_current user\<rparr>)))"

definition issue_session ::
  "auth_deps \<Rightarrow> auth_config \<Rightarrow> draws \<Rightarrow> user_row \<Rightarrow> auth_db \<Rightarrow> auth_db \<times> (app_error + auth_response)" where
  "issue_session dp cfg d user db = issue_pair dp cfg d user (dr_id d) (dr_id d) db"

section \<open>Rotation\<close>

datatype rot_phase =
    RotStart string draws
  | RotFound refresh_row draws
  | RotLost refresh_row draws
  | RotWon refresh_row draws
  | RotDone "app_error + auth_response"

fun rot_step :: "auth_deps \<Rightarrow> auth_config \<Rightarrow> rot_phase \<times> auth_db \<Rightarrow> rot_phase \<times> auth_db" where
  "rot_step dp cfg (RotStart secret d, db) =
     (case rt_find_by_hash (hash_refresh (dp_sha256 dp) secret) (ad_refresh db) of
        None \<Rightarrow> (RotDone (Inl Unauthorized), db)
      | Some row \<Rightarrow>
          if rf_consumed_at row \<noteq> None then (RotLost row d, db)
          else if rf_revoked_at row \<noteq> None \<or> rf_expires_at row \<le> dr_now d then (RotDone (Inl Unauthorized), db)
          else (RotFound row d, db))"
| "rot_step dp cfg (RotFound row d, db) =
     (case rt_consume (dr_now d) (rf_id row) (ad_refresh db) of
        (t, won) \<Rightarrow> ((if won then RotWon row d else RotLost row d), db\<lparr>ad_refresh := t\<rparr>))"
| "rot_step dp cfg (RotLost row d, db) =
     (RotDone (Inl TokenReused),
      db\<lparr>ad_refresh := fst (rt_revoke_family (dr_now d) (rf_family_id row) (ad_refresh db))\<rparr>)"
| "rot_step dp cfg (RotWon row d, db) =
     (case users_find_by_id (ad_users db) (rf_user_id row) of
        Inl e \<Rightarrow> (RotDone (Inl (app_of_db e)), db)
      | Inr user \<Rightarrow>
          (case issue_pair dp cfg d user (dr_id d) (rf_family_id row) db of
             (db', r) \<Rightarrow> (RotDone r, db')))"
| "rot_step dp cfg (RotDone r, db) = (RotDone r, db)"

text \<open>A rotation has at most three statements.\<close>

definition rotate_refresh ::
  "auth_deps \<Rightarrow> auth_config \<Rightarrow> string \<Rightarrow> draws \<Rightarrow> auth_db \<Rightarrow> rot_phase \<times> auth_db" where
  "rotate_refresh dp cfg secret d db = (rot_step dp cfg ^^ 3) (RotStart secret d, db)"

definition revoke_session :: "auth_deps \<Rightarrow> instant \<Rightarrow> string \<Rightarrow> auth_db \<Rightarrow> auth_db" where
  "revoke_session dp now secret db =
    (case rt_find_by_hash (hash_refresh (dp_sha256 dp) secret) (ad_refresh db) of
       None \<Rightarrow> db
     | Some row \<Rightarrow> db\<lparr>ad_refresh := fst (rt_revoke_family now (rf_family_id row) (ad_refresh db))\<rparr>)"

section \<open>Rotation alone\<close>

fun rot_rank :: "rot_phase \<Rightarrow> nat" where
  "rot_rank (RotStart _ _) = 3"
| "rot_rank (RotFound _ _) = 2"
| "rot_rank (RotLost _ _) = 1"
| "rot_rank (RotWon _ _) = 1"
| "rot_rank (RotDone _) = 0"

lemma rot_rank_step: "rot_rank (fst (rot_step dp cfg x)) \<le> rot_rank (fst x) - 1"
  by (induction dp cfg x rule: rot_step.induct)
    (simp_all split: option.split prod.split sum.split)

lemma rot_rank_steps: "rot_rank (fst ((rot_step dp cfg ^^ n) x)) \<le> rot_rank (fst x) - n"
proof (induction n)
  case (Suc n)
  from rot_rank_step [of dp cfg "(rot_step dp cfg ^^ n) x"] Suc show ?case by simp
qed simp

lemma rot_rank_0: "rot_rank p = 0 \<longleftrightarrow> (\<exists>r. p = RotDone r)"
  by (cases p) simp_all

lemma rotate_refresh_done: "\<exists>r. fst (rotate_refresh dp cfg secret d db) = RotDone r"
proof -
  have "rot_rank (fst (rotate_refresh dp cfg secret d db)) = 0"
    using rot_rank_steps [where n = 3 and dp = dp and cfg = cfg and x = "(RotStart secret d, db)"] unfolding rotate_refresh_def by simp
  then show ?thesis by (simp add: rot_rank_0)
qed

text \<open>What a row's presentation leads to, when nobody else is rotating.\<close>

lemma rotate_unknown:
  "rt_find_by_hash (hash_refresh (dp_sha256 dp) secret) (ad_refresh db) = None \<Longrightarrow>
     rotate_refresh dp cfg secret d db = (RotDone (Inl Unauthorized), db)"
  by (simp add: rotate_refresh_def numeral_3_eq_3)

lemma rotate_reused:
  "rt_find_by_hash (hash_refresh (dp_sha256 dp) secret) (ad_refresh db) = Some row \<Longrightarrow> rf_consumed_at row \<noteq> None \<Longrightarrow>
     rotate_refresh dp cfg secret d db = (RotDone (Inl TokenReused),
       db\<lparr>ad_refresh := fst (rt_revoke_family (dr_now d) (rf_family_id row) (ad_refresh db))\<rparr>)"
  by (auto simp: rotate_refresh_def numeral_3_eq_3)

lemma rotate_dead:
  "rt_find_by_hash (hash_refresh (dp_sha256 dp) secret) (ad_refresh db) = Some row \<Longrightarrow> rf_consumed_at row = None \<Longrightarrow>
     rf_revoked_at row \<noteq> None \<or> rf_expires_at row \<le> dr_now d \<Longrightarrow>
     rotate_refresh dp cfg secret d db = (RotDone (Inl Unauthorized), db)"
  by (auto simp: rotate_refresh_def numeral_3_eq_3)

lemma rotate_usable:
  assumes ok: "rt_ok (ad_refresh db)"
    and row: "rt_find_by_hash (hash_refresh (dp_sha256 dp) secret) (ad_refresh db) = Some row" "is_usable (dr_now d) row"
  shows "rotate_refresh dp cfg secret d db =
    rot_step dp cfg (RotWon row d, db\<lparr>ad_refresh := fst (rt_consume (dr_now d) (rf_id row) (ad_refresh db))\<rparr>)"
proof -
  have "snd (rt_consume (dr_now d) (rf_id row) (ad_refresh db))"
    using rt_consume_wins [OF ok, of row "rf_id row" "dr_now d"] rt_find_Some [OF row(1)] row(2)
    by (simp add: is_usable_def)
  with row show ?thesis
    by (simp add: rotate_refresh_def numeral_3_eq_3 is_usable_def case_prod_beta)
qed

lemma issue_pair_success:
  assumes "snd (issue_pair dp cfg d user i fam db) = Inr r"
  shows "ars_refresh_token r = dr_secret d \<and>
    rt_insert (dr_now d) (ad_users db) i fam (ur_id user) (hash_refresh (dp_sha256 dp) (dr_secret d)) (dr_user_agent d)
      (dr_now d + days (au_refresh_token_ttl_days cfg)) (ad_refresh db) = Inr (ad_refresh (fst (issue_pair dp cfg d user i fam db))) \<and>
    ad_users (fst (issue_pair dp cfg d user i fam db)) = ad_users db"
  using assms by (auto simp: issue_pair_def issue_refresh_def Let_def split: sum.splits prod.splits)

lemma rt_insert_keeps: "rt_insert now us i fam u hash ua e t = Inr t' \<Longrightarrow> r \<in> set t \<Longrightarrow> r \<in> set t'"
  by (auto simp: rt_insert_def split: if_splits)

lemma live_append:
  "live_tokens later (t @ [x]) = (if is_usable later x then insert (rf_token_hash x) (live_tokens later t) else live_tokens later t)"
  by (auto simp: live_tokens_def)

lemma live_insert:
  "rt_insert now us i fam u hash ua e t = Inr t' \<Longrightarrow>
     live_tokens later t' = (if e > later then insert hash (live_tokens later t) else live_tokens later t)"
  by (auto simp: rt_insert_def live_append is_usable_def split: if_splits)

text \<open>The tokens of one family that are still good.\<close>

definition family_live :: "instant \<Rightarrow> uuid \<Rightarrow> refresh_tokens \<Rightarrow> string set" where
  "family_live now fam t = rf_token_hash ` {r \<in> set t. is_usable now r \<and> rf_family_id r = fam}"

lemma family_live_revoke: "family_live later fam (fst (rt_revoke_family now fam t)) = {}"
proof -
  have "\<not> is_usable later r \<or> rf_family_id r \<noteq> fam" if m: "r \<in> set (fst (rt_revoke_family now fam t))" for r
  proof -
    obtain q where r: "r = (if rf_family_id q = fam \<and> rf_revoked_at q = None then q\<lparr>rf_revoked_at := Some now\<rparr> else q)"
      using m unfolding rt_revoke_family_def rt_revoke_where_def fst_conv set_map by blast
    show ?thesis
      by (cases "rf_family_id q = fam"; cases "rf_revoked_at q") (simp_all add: r is_usable_def)
  qed
  then show ?thesis by (auto simp: family_live_def)
qed

lemma family_live_append:
  "is_usable later x \<Longrightarrow> rf_family_id x = fam \<Longrightarrow> family_live later fam (t @ [x]) = insert (rf_token_hash x) (family_live later fam t)"
  by (auto simp: family_live_def)

text \<open>
  C12.  Rotation exchanges one token for one: presenting a usable token, when it succeeds, kills exactly that
  token and brings to life exactly the token handed back, in the same family; and presenting the old one
  again is \<^verbatim>\<open>TOKEN_REUSED\<close> and leaves no token of the family alive, the new one included.
\<close>
theorem rotation_exchanges_one:
  assumes ok: "rt_ok (ad_refresh db)"
    and row: "rt_find_by_hash (hash_refresh (dp_sha256 dp) secret) (ad_refresh db) = Some row" "is_usable (dr_now d) row"
    and finished: "rotate_refresh dp cfg secret d db = (RotDone (Inr r), db')" and ttl: "0 < au_refresh_token_ttl_days cfg"
  shows "live_tokens (dr_now d) (ad_refresh db') =
      insert (hash_refresh (dp_sha256 dp) (ars_refresh_token r)) (live_tokens (dr_now d) (ad_refresh db) - {rf_token_hash row}) \<and>
    fst (rotate_refresh dp cfg secret d2 db') = RotDone (Inl TokenReused) \<and>
    family_live later (rf_family_id row) (ad_refresh (snd (rotate_refresh dp cfg secret d2 db'))) = {}"
proof -
  let ?db1 = "db\<lparr>ad_refresh := fst (rt_consume (dr_now d) (rf_id row) (ad_refresh db))\<rparr>"
  have mem: "row \<in> set (ad_refresh db)" "rf_token_hash row = hash_refresh (dp_sha256 dp) secret"
    using rt_find_Some [OF row(1)] by auto
  obtain user where pair: "issue_pair dp cfg d user (dr_id d) (rf_family_id row) ?db1 = (db', Inr r)"
    using finished unfolding rotate_usable [OF ok row] by (auto split: sum.splits prod.splits)
  then have ins: "ars_refresh_token r = dr_secret d"
    "rt_insert (dr_now d) (ad_users ?db1) (dr_id d) (rf_family_id row) (ur_id user)
       (hash_refresh (dp_sha256 dp) (dr_secret d)) (dr_user_agent d)
       (dr_now d + days (au_refresh_token_ttl_days cfg)) (ad_refresh ?db1) = Inr (ad_refresh db')"
    using issue_pair_success [of dp cfg d user "dr_id d" "rf_family_id row" ?db1 r] by simp_all
  have pos: "dr_now d < dr_now d + days (au_refresh_token_ttl_days cfg)"
    using ttl by (simp add: days_def NANOS_def)
  have live: "live_tokens (dr_now d) (ad_refresh db') =
      insert (hash_refresh (dp_sha256 dp) (ars_refresh_token r)) (live_tokens (dr_now d) (ad_refresh db) - {rf_token_hash row})"
    unfolding live_insert [OF ins(2)] using pos ins(1) live_consume [OF ok mem(1), of "dr_now d" "dr_now d"] by simp
  have ok': "rt_ok (ad_refresh db')" using rt_insert_ok [OF _ ins(2)] ok by simp
  have "row\<lparr>rf_consumed_at := Some (dr_now d)\<rparr> \<in> set (ad_refresh ?db1)"
    using mem(1) row(2) by (auto simp: rt_consume_def consumable_def is_usable_def image_iff)
  then have "row\<lparr>rf_consumed_at := Some (dr_now d)\<rparr> \<in> set (ad_refresh db')"
    by (rule rt_insert_keeps [OF ins(2)])
  then have found: "rt_find_by_hash (hash_refresh (dp_sha256 dp) secret) (ad_refresh db') = Some (row\<lparr>rf_consumed_at := Some (dr_now d)\<rparr>)"
    using rt_find_unique [OF ok', of "hash_refresh (dp_sha256 dp) secret"] mem(2) by simp
  show ?thesis
    using live rotate_reused [OF found, where cfg = cfg and d = d2] family_live_revoke [of later "rf_family_id row"] by simp
qed

section \<open>Rotations at once\<close>

text \<open>A schedule names, statement by statement, which of the running rotations goes next.\<close>

definition sched_step :: "auth_deps \<Rightarrow> auth_config \<Rightarrow> nat \<Rightarrow> rot_phase list \<times> auth_db \<Rightarrow> rot_phase list \<times> auth_db" where
  "sched_step dp cfg i x =
    (case x of (ps, db) \<Rightarrow>
       if i < length ps then (case rot_step dp cfg (ps ! i, db) of (p, db') \<Rightarrow> (ps[i := p], db')) else (ps, db))"

definition run_schedule :: "auth_deps \<Rightarrow> auth_config \<Rightarrow> nat list \<Rightarrow> rot_phase list \<times> auth_db \<Rightarrow> rot_phase list \<times> auth_db" where
  "run_schedule dp cfg sched x = fold (sched_step dp cfg) sched x"

fun succeeded :: "rot_phase \<Rightarrow> bool" where
  "succeeded (RotWon _ _) = True"
| "succeeded (RotDone (Inr _)) = True"
| "succeeded _ = False"

text \<open>Where a rotation of the secret whose row has id \<open>k\<close> can be.\<close>

fun rotates :: "string \<Rightarrow> uuid \<Rightarrow> rot_phase \<Rightarrow> bool" where
  "rotates secret k (RotStart secret' _) = (secret' = secret)"
| "rotates secret k (RotFound row _) = (rf_id row = k)"
| "rotates secret k (RotLost row _) = (rf_id row = k)"
| "rotates secret k (RotWon row _) = (rf_id row = k)"
| "rotates secret k (RotDone _) = True"

definition race_inv :: "auth_deps \<Rightarrow> string \<Rightarrow> uuid \<Rightarrow> rot_phase list \<times> auth_db \<Rightarrow> bool" where
  "race_inv dp secret k x \<longleftrightarrow>
     rt_ok (ad_refresh (snd x)) \<and> list_all (rotates secret k) (fst x) \<and>
     (\<exists>q \<in> set (ad_refresh (snd x)). rf_token_hash q = hash_refresh (dp_sha256 dp) secret \<and> rf_id q = k \<and>
        (rf_consumed_at q = None \<longrightarrow> \<not> list_ex succeeded (fst x))) \<and>
     (\<forall>i j. i < length (fst x) \<and> j < length (fst x) \<and> succeeded (fst x ! i) \<and> succeeded (fst x ! j) \<longrightarrow> i = j)"

text \<open>A step of one rotation, seen from the table: rows are kept, only marked, and wins are marked.\<close>

definition marked :: "refresh_row \<Rightarrow> refresh_row \<Rightarrow> bool" where
  "marked q q' \<longleftrightarrow> rf_token_hash q' = rf_token_hash q \<and> rf_id q' = rf_id q \<and> (rf_consumed_at q' = None \<longrightarrow> rf_consumed_at q = None)"

lemma marked_refl: "marked q q"
  by (simp add: marked_def)

lemma mark_map: "(\<And>r. marked r (f r)) \<Longrightarrow> q \<in> set t \<Longrightarrow> \<exists>q' \<in> set (map f t). marked q q'"
  by auto

lemma consume_marks: "q \<in> set t \<Longrightarrow> \<exists>q' \<in> set (fst (rt_consume now i t)). marked q q'"
  unfolding rt_consume_def fst_conv by (rule mark_map) (simp_all add: marked_def)

lemma revoke_marks: "q \<in> set t \<Longrightarrow> \<exists>q' \<in> set (fst (rt_revoke_family now fam t)). marked q q'"
  unfolding rt_revoke_family_def rt_revoke_where_def fst_conv by (rule mark_map) (simp_all add: marked_def)

lemma issue_pair_keeps:
  "rt_ok (ad_refresh db) \<Longrightarrow> rt_ok (ad_refresh (fst (issue_pair dp cfg d user i fam db)))"
  "q \<in> set (ad_refresh db) \<Longrightarrow> q \<in> set (ad_refresh (fst (issue_pair dp cfg d user i fam db)))"
  by (auto simp: issue_pair_def Let_def split: sum.split prod.split dest: rt_insert_ok rt_insert_keeps)

lemma rot_step_table:
  assumes ok: "rt_ok (ad_refresh db)" and q: "q \<in> set (ad_refresh db)" "rf_token_hash q = hash_refresh (dp_sha256 dp) secret" "rf_id q = k"
    and p: "rotates secret k p" and step: "rot_step dp cfg (p, db) = (p', db')"
  shows "rt_ok (ad_refresh db') \<and> rotates secret k p' \<and>
    (\<exists>q' \<in> set (ad_refresh db'). marked q q' \<and> (\<not> succeeded p \<and> succeeded p' \<longrightarrow> rf_consumed_at q = None \<and> rf_consumed_at q' \<noteq> None))"
proof (cases p)
  case (RotStart secret' d)
  have "rt_find_by_hash (hash_refresh (dp_sha256 dp) secret) (ad_refresh db) = Some q"
    using rt_find_unique [OF ok] q by blast
  with RotStart have "db' = db" "\<not> succeeded p'" "rotates secret k p'"
    using step p q(3) by (auto split: if_splits)
  with ok q show ?thesis by (auto intro: marked_refl)
next
  case (RotFound row d)
  then have row: "rf_id row = k" using p by simp
  have t: "ad_refresh db' = fst (rt_consume (dr_now d) k (ad_refresh db))"
    "p' = (if snd (rt_consume (dr_now d) k (ad_refresh db)) then RotWon row d else RotLost row d)"
    using step RotFound row by (auto simp: case_prod_beta)
  have "\<exists>q' \<in> set (ad_refresh db'). marked q q' \<and> (succeeded p' \<longrightarrow> rf_consumed_at q = None \<and> rf_consumed_at q' \<noteq> None)"
  proof (cases "snd (rt_consume (dr_now d) k (ad_refresh db))")
    case True
    then have c: "consumable k q" using rt_consume_wins [OF ok q(1,3)] q(3) by (simp add: consumable_def)
    then have "q\<lparr>rf_consumed_at := Some (dr_now d)\<rparr> \<in> set (ad_refresh db')"
      using q(1) unfolding t(1) rt_consume_def fst_conv set_map by (auto simp: image_iff)
    with c show ?thesis by (intro bexI) (auto simp: marked_def consumable_def)
  next
    case False
    with consume_marks [OF q(1), of "dr_now d" k] show ?thesis unfolding t by simp
  qed
  with ok row show ?thesis by (auto simp: t)
next
  case (RotLost row d)
  with step p ok revoke_marks [OF q(1)] show ?thesis by (auto simp: rt_revoke_family_def)
next
  case (RotWon row d)
  then have "rt_ok (ad_refresh db') \<and> q \<in> set (ad_refresh db') \<and> (\<exists>r. p' = RotDone r)"
    using step ok q(1) issue_pair_keeps by (auto split: sum.splits prod.splits) (metis fst_conv)+
  with RotWon marked_refl [of q] show ?thesis by auto
next
  case (RotDone r)
  with step ok q marked_refl [of q] show ?thesis by auto
qed

lemma sched_step_race: "race_inv dp secret k x \<Longrightarrow> race_inv dp secret k (sched_step dp cfg i x)"
proof -
  obtain ps db where x: "x = (ps, db)" by fastforce
  assume inv: "race_inv dp secret k x"
  then obtain q where q: "q \<in> set (ad_refresh db)" "rf_token_hash q = hash_refresh (dp_sha256 dp) secret" "rf_id q = k"
    "rf_consumed_at q = None \<longrightarrow> \<not> list_ex succeeded ps"
    and ok: "rt_ok (ad_refresh db)" and rot: "list_all (rotates secret k) ps"
    and one: "\<And>a b. a < length ps \<Longrightarrow> b < length ps \<Longrightarrow> succeeded (ps ! a) \<Longrightarrow> succeeded (ps ! b) \<Longrightarrow> a = b"
    by (auto simp: race_inv_def x)
  show ?thesis
  proof (cases "i < length ps")
    case False
    with inv show ?thesis by (simp add: sched_step_def x)
  next
    case True
    obtain p' db' where step: "rot_step dp cfg (ps ! i, db) = (p', db')" by fastforce
    have "rotates secret k (ps ! i)" using rot True by (simp add: list_all_length)
    from rot_step_table [OF ok q(1-3) this step] obtain q' where q': "q' \<in> set (ad_refresh db')" "marked q q'"
      "\<not> succeeded (ps ! i) \<and> succeeded p' \<longrightarrow> rf_consumed_at q = None \<and> rf_consumed_at q' \<noteq> None"
      and ok': "rt_ok (ad_refresh db')" and rot': "rotates secret k p'" by blast
    have new: "\<not> list_ex succeeded ps \<or> succeeded (ps ! i) \<or> \<not> succeeded p'" using q(4) q'(3) by auto
    have one': "a = b" if "a < length ps" "b < length ps" "succeeded (ps[i := p'] ! a)" "succeeded (ps[i := p'] ! b)" for a b
      using that one [of a b] one [of i a] one [of i b] new True by (auto simp: nth_list_update list_ex_length split: if_splits)
    have "list_all (rotates secret k) (ps[i := p'])"
      using rot rot' True by (auto simp: list_all_length nth_list_update)
    moreover have "rf_consumed_at q' = None \<longrightarrow> \<not> list_ex succeeded (ps[i := p'])"
    proof
      assume n: "rf_consumed_at q' = None"
      then have "\<not> list_ex succeeded ps" using q'(2) q(4) by (simp add: marked_def)
      moreover from this True have "\<not> succeeded (ps ! i)" by (auto simp: list_ex_length)
      ultimately show "\<not> list_ex succeeded (ps[i := p'])"
        using q'(3) n True by (auto simp: list_ex_length nth_list_update split: if_splits)
    qed
    ultimately show ?thesis
      using True step ok' q' q(2,3) one' by (auto simp: race_inv_def sched_step_def x marked_def)
  qed
qed

text \<open>
  C4.  One winner: however many rotations of the same refresh token run at once, and however their database
  statements interleave, at most one of them hands out a new pair.
\<close>
theorem one_rotation_wins:
  assumes "rt_ok (ad_refresh db)" and "rt_find_by_hash (hash_refresh (dp_sha256 dp) secret) (ad_refresh db) = Some row"
  shows "let ps = fst (run_schedule dp cfg sched (map (RotStart secret) ds, db))
    in \<forall>i j. i < length ps \<and> j < length ps \<and> succeeded (ps ! i) \<and> succeeded (ps ! j) \<longrightarrow> i = j"
proof -
  have "race_inv dp secret (rf_id row) (map (RotStart secret) ds, db)"
    using assms rt_find_Some [OF assms(2)] by (auto simp: race_inv_def list_all_length list_ex_length)
  then have "race_inv dp secret (rf_id row) (run_schedule dp cfg sched (map (RotStart secret) ds, db))"
    unfolding run_schedule_def by (induction sched rule: rev_induct) (simp_all add: sched_step_race)
  then show ?thesis by (simp add: race_inv_def Let_def)
qed

section \<open>A sample database\<close>

definition sample_deps :: auth_deps where
  "sample_deps = \<lparr>dp_encode = (\<lambda>_ _. Some ''jwt''), dp_show_uuid = decimal_show_uuid,
     dp_sha256 = map (\<lambda>c. of_nat (char_code c))\<rparr>"

definition sample_auth_config :: auth_config where
  "sample_auth_config = \<lparr>au_jwt_signing_key = ''k'', au_access_token_ttl_seconds = 900, au_refresh_token_ttl_days = 30\<rparr>"

definition sample_user :: user_row where
  "sample_user = \<lparr>ur_id = 7, ur_discord_user_id = 2, ur_username = ''ana'', ur_display_name = None,
     ur_avatar_url = None, ur_created_at = 0\<rparr>"

definition sample_refresh_row :: refresh_row where
  "sample_refresh_row = \<lparr>rf_id = 1, rf_family_id = 1, rf_user_id = 7, rf_token_hash = hash_refresh (dp_sha256 sample_deps) ''a'',
     rf_user_agent = None, rf_issued_at = 0, rf_expires_at = 1000, rf_consumed_at = None, rf_revoked_at = None\<rparr>"

definition sample_auth_db :: auth_db where
  "sample_auth_db = \<lparr>ad_users = [(7, sample_user)], ad_refresh = [sample_refresh_row]\<rparr>"

definition sample_draws :: "uuid \<Rightarrow> string \<Rightarrow> draws" where
  "sample_draws i secret = \<lparr>dr_now = 10, dr_id = i, dr_jti = 3, dr_secret = secret, dr_user_agent = None\<rparr>"

lemma sample_auth_ok: "rt_ok (ad_refresh sample_auth_db)"
  by (simp add: rt_ok_def sample_auth_db_def)

lemma sample_auth_found:
  "rt_find_by_hash (hash_refresh (dp_sha256 sample_deps) ''a'') (ad_refresh sample_auth_db) = Some sample_refresh_row"
  by (simp add: rt_find_by_hash_def sample_auth_db_def sample_refresh_row_def)

lemma sample_auth_usable: "is_usable (dr_now (sample_draws i s)) sample_refresh_row"
  by (simp add: is_usable_def sample_refresh_row_def sample_draws_def)

theorem rotation_exchanges_one_witness:
  "\<exists>r db'. rotate_refresh sample_deps sample_auth_config ''a'' (sample_draws 2 ''b'') sample_auth_db = (RotDone (Inr r), db') \<and>
     ars_refresh_token r = ''b'' \<and>
     fst (rotate_refresh sample_deps sample_auth_config ''a'' (sample_draws 3 ''c'') db') = RotDone (Inl TokenReused) \<and>
     family_live 20 1 (ad_refresh (snd (rotate_refresh sample_deps sample_auth_config ''a'' (sample_draws 3 ''c'') db'))) = {}"
proof -
  have "(case fst (rotate_refresh sample_deps sample_auth_config ''a'' (sample_draws 2 ''b'') sample_auth_db) of
           RotDone (Inr r) \<Rightarrow> ars_refresh_token r = ''b'' | _ \<Rightarrow> False)" by code_simp
  then obtain r db' where r: "rotate_refresh sample_deps sample_auth_config ''a'' (sample_draws 2 ''b'') sample_auth_db = (RotDone (Inr r), db')"
    "ars_refresh_token r = ''b''"
    by (cases "rotate_refresh sample_deps sample_auth_config ''a'' (sample_draws 2 ''b'') sample_auth_db")
      (auto split: rot_phase.splits sum.splits)
  have "0 < au_refresh_token_ttl_days sample_auth_config" by (simp add: sample_auth_config_def)
  from rotation_exchanges_one [OF sample_auth_ok sample_auth_found sample_auth_usable r(1) this, of "sample_draws 3 ''c''" 20] r
  show ?thesis by (auto simp: sample_refresh_row_def)
qed

theorem one_rotation_wins_witness:
  "let ps = fst (run_schedule sample_deps sample_auth_config [0, 1, 1, 0, 0, 1]
       (map (RotStart ''a'') [sample_draws 2 ''b'', sample_draws 3 ''c''], sample_auth_db))
   in succeeded (ps ! 1) \<and> \<not> succeeded (ps ! 0)"
proof -
  let ?ps = "fst (run_schedule sample_deps sample_auth_config [0, 1, 1, 0, 0, 1]
       (map (RotStart ''a'') [sample_draws 2 ''b'', sample_draws 3 ''c''], sample_auth_db))"
  have len: "length ?ps = 2" and won: "succeeded (?ps ! 1)" by code_simp+
  have "(0::nat) = 1" if "succeeded (?ps ! 0)"
    using one_rotation_wins [OF sample_auth_ok sample_auth_found, of sample_auth_config "[0, 1, 1, 0, 0, 1]"
        "[sample_draws 2 ''b'', sample_draws 3 ''c'']"] that won len
    unfolding Let_def by (metis One_nat_def lessI less_2_cases_iff)
  with won show ?thesis by (auto simp: Let_def)
qed

section \<open>What the race leaves behind\<close>

text \<open>
  The loser of a race does not undo the winner: when the loser's revocation runs between the winner's
  \<^verbatim>\<open>consume\<close> and its \<^verbatim>\<open>insert\<close>, the loser is told \<^verbatim>\<open>TOKEN_REUSED\<close> and every older token of the family dies,
  but the winner's new token is inserted afterwards and is alive in the family that was revoked.
\<close>
theorem race_leaves_live_token:
  assumes ok: "rt_ok (ad_refresh db)"
    and row: "rt_find_by_hash (hash_refresh (dp_sha256 dp) secret) (ad_refresh db) = Some row"
    and usable: "is_usable (dr_now d1) row" "is_usable (dr_now d2) row"
    and user: "hm_get (ad_users db) (rf_user_id row) = Some u" "ur_id u = rf_user_id row"
    and fresh: "dr_id d1 \<notin> set (map rf_id (ad_refresh db))"
      "hash_refresh (dp_sha256 dp) (dr_secret d1) \<notin> set (map rf_token_hash (ad_refresh db))"
    and signs: "\<And>k c. dp_encode dp k c \<noteq> None" and ttl: "0 < au_refresh_token_ttl_days cfg"
  shows "let (ps, db') = run_schedule dp cfg [0, 1, 0, 1, 1, 0] ([RotStart secret d1, RotStart secret d2], db)
    in ps ! 1 = RotDone (Inl TokenReused) \<and> (\<exists>r. ps ! 0 = RotDone (Inr r) \<and> ars_refresh_token r = dr_secret d1) \<and>
       family_live (dr_now d1) (rf_family_id row) (ad_refresh db') = {hash_refresh (dp_sha256 dp) (dr_secret d1)}"
proof -
  let ?t1 = "fst (rt_consume (dr_now d1) (rf_id row) (ad_refresh db))"
  let ?t2 = "fst (rt_consume (dr_now d2) (rf_id row) ?t1)"
  let ?t3 = "fst (rt_revoke_family (dr_now d2) (rf_family_id row) ?t2)"
  have mem: "row \<in> set (ad_refresh db)" using rt_find_Some [OF row] by simp
  have u: "rf_consumed_at row = None" "rf_revoked_at row = None" "\<not> rf_expires_at row \<le> dr_now d1" "\<not> rf_expires_at row \<le> dr_now d2"
    using usable by (simp_all add: is_usable_def)
  have won: "snd (rt_consume (dr_now d1) (rf_id row) (ad_refresh db))"
    using rt_consume_wins [OF ok mem refl] u by simp
  have "row\<lparr>rf_consumed_at := Some (dr_now d1)\<rparr> \<in> set ?t1"
    using mem u by (auto simp: rt_consume_def consumable_def image_iff)
  then have lost: "\<not> snd (rt_consume (dr_now d2) (rf_id row) ?t1)"
    using rt_consume_wins [of ?t1 "row\<lparr>rf_consumed_at := Some (dr_now d1)\<rparr>" "rf_id row" "dr_now d2"] ok by simp
  let ?new = "\<lparr>rf_id = dr_id d1, rf_family_id = rf_family_id row, rf_user_id = ur_id u,
     rf_token_hash = hash_refresh (dp_sha256 dp) (dr_secret d1), rf_user_agent = dr_user_agent d1, rf_issued_at = dr_now d1,
     rf_expires_at = dr_now d1 + days (au_refresh_token_ttl_days cfg), rf_consumed_at = None, rf_revoked_at = None\<rparr>"
  have keys: "map rf_id ?t3 = map rf_id (ad_refresh db)" "map rf_token_hash ?t3 = map rf_token_hash (ad_refresh db)"
    by (simp_all add: rt_revoke_family_def)
  have ins: "rt_insert (dr_now d1) (ad_users db) (dr_id d1) (rf_family_id row) (ur_id u) (hash_refresh (dp_sha256 dp) (dr_secret d1))
      (dr_user_agent d1) (dr_now d1 + days (au_refresh_token_ttl_days cfg)) ?t3 = Inr (?t3 @ [?new])"
    using fresh user unfolding rt_insert_def keys by simp
  obtain tok where tok: "issue_access (dp_encode dp) (dp_show_uuid dp) (dr_jti d1) (au_jwt_signing_key cfg) (ur_id u)
      (au_access_token_ttl_seconds cfg) (dr_now d1) = Inr (tok, dr_jti d1)"
    using issue_access_total [where encode = "dp_encode dp", OF signs] by blast
  have run: "run_schedule dp cfg [0, 1, 0, 1, 1, 0] ([RotStart secret d1, RotStart secret d2], db) =
     ([RotDone (Inr \<lparr>ars_access_token = tok, ars_refresh_token = dr_secret d1,
         ars_expires_in = au_access_token_ttl_seconds cfg, ars_user = user_to_current u\<rparr>), RotDone (Inl TokenReused)],
      db\<lparr>ad_refresh := ?t3 @ [?new]\<rparr>)"
    using row u won lost user ins tok
    by (simp add: run_schedule_def sched_step_def case_prod_beta users_find_by_id_def issue_pair_def issue_refresh_def Let_def)
  have pos: "dr_now d1 < dr_now d1 + days (au_refresh_token_ttl_days cfg)" using ttl by (simp add: days_def NANOS_def)
  have "family_live (dr_now d1) (rf_family_id row) (?t3 @ [?new]) =
      insert (rf_token_hash ?new) (family_live (dr_now d1) (rf_family_id row) ?t3)"
    by (rule family_live_append) (use pos in \<open>simp_all add: is_usable_def\<close>)
  then show ?thesis unfolding run by (simp add: family_live_revoke)
qed

theorem race_leaves_live_token_witness:
  "let (ps, db') = run_schedule sample_deps sample_auth_config [0, 1, 0, 1, 1, 0]
       ([RotStart ''a'' (sample_draws 2 ''b''), RotStart ''a'' (sample_draws 3 ''c'')], sample_auth_db)
   in ps ! 1 = RotDone (Inl TokenReused) \<and> family_live 10 1 (ad_refresh db') \<noteq> {}"
proof -
  have u: "hm_get (ad_users sample_auth_db) (rf_user_id sample_refresh_row) = Some sample_user" "ur_id sample_user = rf_user_id sample_refresh_row"
    by (simp_all add: sample_auth_db_def hm_get_def sample_refresh_row_def sample_user_def)
  have f: "dr_id (sample_draws 2 ''b'') \<notin> set (map rf_id (ad_refresh sample_auth_db))"
      "hash_refresh (dp_sha256 sample_deps) (dr_secret (sample_draws 2 ''b'')) \<notin> set (map rf_token_hash (ad_refresh sample_auth_db))"
    by code_simp+
  have e: "dp_encode sample_deps k c \<noteq> None" "0 < au_refresh_token_ttl_days sample_auth_config" for k c
    by (simp_all add: sample_deps_def sample_auth_config_def)
  from race_leaves_live_token [OF sample_auth_ok sample_auth_found sample_auth_usable sample_auth_usable u f e, of 3 "''c''"]
  show ?thesis by (auto simp: sample_draws_def sample_refresh_row_def split: prod.splits)
qed

section \<open>Logging out\<close>

lemma revoke_session_kills:
  "rt_find_by_hash (hash_refresh (dp_sha256 dp) secret) (ad_refresh db) = Some row \<Longrightarrow>
     family_live later (rf_family_id row) (ad_refresh (revoke_session dp now secret db)) = {}"
  by (simp add: revoke_session_def family_live_revoke)

end
