(* ===== verification/Gateway.thy ===== *)
theory Gateway
  imports Access Auth_Tokens
begin

text \<open>
  \<^verbatim>\<open>crates/api/src/gateway/mod.rs\<close>: one WebSocket connection.  The loop of \<^verbatim>\<open>serve\<close> is \<open>conn_step\<close>, one branch of
  its \<^verbatim>\<open>select!\<close> per event; what the branch reads of the outside (the clock, the id a new session gets) comes
  with the event.  JSON decoding and the token library are parameters, gathered in \<open>gw_deps\<close>.  A socket is
  a number; what is queued on it goes to \<open>hb_out\<close> of the hub.
\<close>

section \<open>Client versions\<close>

fun split_on :: "char \<Rightarrow> string \<Rightarrow> string list" where
  "split_on d [] = [[]]"
| "split_on d (c # cs) =
     (if c = d then [] # split_on d cs
      else case split_on d cs of [] \<Rightarrow> [[c]] | p # ps \<Rightarrow> (c # p) # ps)"

text \<open>\<^verbatim>\<open>raw.split(['-', '+']).next()\<close>\<close>

definition version_core :: "string \<Rightarrow> string" where
  "version_core raw = takeWhile (\<lambda>c. c \<noteq> CHR ''-'' \<and> c \<noteq> CHR ''+'') raw"

definition parse_version :: "string \<Rightarrow> (nat \<times> nat \<times> nat) option" where
  "parse_version raw =
    (case split_on (CHR ''.'') (version_core raw) of
       major # minor # rest \<Rightarrow>
         Option.bind (parse_u32 major) (\<lambda>a.
         Option.bind (parse_u32 minor) (\<lambda>b.
           (case rest of
              [] \<Rightarrow> Some (a, b, 0)
            | patch # extra \<Rightarrow> Option.bind (parse_u32 patch) (\<lambda>c. if extra = [] then Some (a, b, c) else None))))
     | _ \<Rightarrow> None)"

definition MIN_CLIENT_VERSION :: "nat \<times> nat \<times> nat" where
  "MIN_CLIENT_VERSION = (2, 0, 0)"

text \<open>The order of tuples in Rust.\<close>

fun version_le :: "nat \<times> nat \<times> nat \<Rightarrow> nat \<times> nat \<times> nat \<Rightarrow> bool" where
  "version_le (a, b, c) (x, y, z) = (a < x \<or> a = x \<and> (b < y \<or> b = y \<and> c \<le> z))"

type_synonym close_reason = "nat \<times> string"

definition check_client_version :: "string \<Rightarrow> close_reason + unit" where
  "check_client_version v =
    (case parse_version v of
       Some version \<Rightarrow> if version_le MIN_CLIENT_VERSION version then Inr () else Inl (close_VERSION_TOO_OLD, ''client too old'')
     | None \<Rightarrow> Inl (close_VERSION_TOO_OLD, ''client too old''))"

section \<open>Connections\<close>

definition GATEWAY_VERSION :: nat where "GATEWAY_VERSION = 1"

record connection =
  cn_session :: "uuid option"
  cn_window_started :: instant
  cn_frames_in_window :: u32

definition allow_frame :: "instant \<Rightarrow> connection \<Rightarrow> connection \<times> bool" where
  "allow_frame now c =
    (let c1 = (if max 0 (now - cn_window_started c) > ms FRAME_WINDOW_MS
               then c\<lparr>cn_window_started := now, cn_frames_in_window := 0\<rparr> else c);
         n = cn_frames_in_window c1 + 1
     in (c1\<lparr>cn_frames_in_window := n\<rparr>, n \<le> of_nat MAX_FRAMES_PER_WINDOW))"

record 'v raw_client_frame =
  rcf_op :: nat
  rcf_d :: "'v option"

record 'v gw_deps =
  gw_decode :: "string \<Rightarrow> 'v raw_client_frame option"
  gw_identify :: "'v \<Rightarrow> identify option"
  gw_resume :: "'v \<Rightarrow> resume_payload option"
  gw_jwt :: jwt_decode
  gw_parse_uuid :: "string \<Rightarrow> uuid option"
  gw_signing_key :: string

definition parse_payload :: "('v \<Rightarrow> 'p option) \<Rightarrow> 'v option \<Rightarrow> close_reason + 'p" where
  "parse_payload f data =
    (case data of
       None \<Rightarrow> Inl (close_DECODE_ERROR, ''missing payload'')
     | Some v \<Rightarrow> (case f v of None \<Rightarrow> Inl (close_DECODE_ERROR, ''invalid payload'') | Some p \<Rightarrow> Inr p))"

definition authenticate :: "'v gw_deps \<Rightarrow> instant \<Rightarrow> string \<Rightarrow> close_reason + uuid" where
  "authenticate dp now presented =
    (case verify_access (gw_jwt dp) (gw_signing_key dp) now presented of
       Inl e \<Rightarrow> Inl (close_AUTHENTICATION_FAILED, ''invalid token'')
     | Inr claims \<Rightarrow>
       (case gw_parse_uuid dp (ac_sub claims) of
          None \<Rightarrow> Inl (close_AUTHENTICATION_FAILED, ''invalid subject'')
        | Some u \<Rightarrow> Inr u))"

definition on_hub :: "(hub \<Rightarrow> hub) \<Rightarrow> app_state \<Rightarrow> app_state" where
  "on_hub f s = s\<lparr>ap_hub := f (ap_hub s)\<rparr>"

definition queue_frame :: "socket \<Rightarrow> server_frame \<Rightarrow> hub \<Rightarrow> hub" where
  "queue_frame tx f h = h\<lparr>hb_out := hb_out h @ [(tx, f)]\<rparr>"

text \<open>\<open>sid\<close>: the id of the session \<^verbatim>\<open>create_session\<close> makes.\<close>

definition conn_identify :: "instant \<Rightarrow> uuid \<Rightarrow> uuid \<Rightarrow> socket \<Rightarrow> connection \<Rightarrow> app_state \<Rightarrow> connection \<times> app_state" where
  "conn_identify now sid user tx c s =
    (let s1 = on_hub (create_session sid user tx) s;
         ready = ready_build s1 user sid;
         s2 = on_hub (dispatch_to_session sid (Ready ready)) s1;
         s3 = on_hub (attach now sid) s2
     in (c\<lparr>cn_session := Some sid\<rparr>, s3))"

definition conn_resume :: "uuid \<Rightarrow> resume_payload \<Rightarrow> socket \<Rightarrow> connection \<Rightarrow> app_state \<Rightarrow> connection \<times> app_state" where
  "conn_resume user p tx c s =
    (case resumable (rsm_session_id p) user (ap_hub s) of
       None \<Rightarrow> (c, on_hub (queue_frame tx (InvalidSession False)) s)
     | Some session \<Rightarrow>
       (case replay_after (rsm_last_seq p) session of
          None \<Rightarrow> (c, on_hub (queue_frame tx (InvalidSession False)) (on_hub (forget (ses_id session)) s))
        | Some missed \<Rightarrow>
          (let sid = ses_id session;
               s1 = on_hub (on_session sid (ses_reconnect tx)) s;
               s2 = fold (\<lambda>f. on_hub (send_to_session sid (Dispatch f))) missed s1;
               s3 = on_hub (dispatch_to_session sid (Resumed (unat (of_nat (length missed) :: u32)))) s2
           in (c\<lparr>cn_session := Some sid\<rparr>, s3))))"

text \<open>\<open>Inr True\<close> is \<^verbatim>\<open>Ok(Some(()))\<close>, the frame counts as a sign of life.\<close>

definition conn_handle ::
  "'v gw_deps \<Rightarrow> instant \<Rightarrow> uuid \<Rightarrow> socket \<Rightarrow> string \<Rightarrow> connection \<Rightarrow> app_state \<Rightarrow>
     (connection \<times> app_state) \<times> (close_reason + bool)" where
  "conn_handle dp now sid tx txt c s =
    (case gw_decode dp txt of
       None \<Rightarrow> ((c, s), Inl (close_DECODE_ERROR, ''malformed envelope''))
     | Some frame \<Rightarrow>
       if rcf_op frame = op_HEARTBEAT then
         ((c, on_hub (queue_frame tx (Control op_HEARTBEAT_ACK)) s), Inr True)
       else if rcf_op frame = op_IDENTIFY then
         (if cn_session c \<noteq> None then ((c, s), Inl (close_DECODE_ERROR, ''already identified''))
          else case parse_payload (gw_identify dp) (rcf_d frame) of
            Inl e \<Rightarrow> ((c, s), Inl e)
          | Inr p \<Rightarrow>
            (case check_client_version (idn_version p) of
               Inl e \<Rightarrow> ((c, s), Inl e)
             | Inr _ \<Rightarrow>
               (case authenticate dp now (idn_token p) of
                  Inl e \<Rightarrow> ((c, s), Inl e)
                | Inr user \<Rightarrow> (conn_identify now sid user tx c s, Inr True))))
       else if rcf_op frame = op_RESUME then
         (if cn_session c \<noteq> None then ((c, s), Inl (close_DECODE_ERROR, ''already identified''))
          else case parse_payload (gw_resume dp) (rcf_d frame) of
            Inl e \<Rightarrow> ((c, s), Inl e)
          | Inr p \<Rightarrow>
            (case authenticate dp now (rsm_token p) of
               Inl e \<Rightarrow> ((c, s), Inl e)
             | Inr user \<Rightarrow> (conn_resume user p tx c s, Inr True)))
       else ((c, s), Inl (close_DECODE_ERROR, ''unexpected opcode'')))"

section \<open>The loop of serve\<close>

datatype sock_event =
    IdentifyDeadline
  | HeartbeatCheck
  | PeerClosed
  | ReadError
  | TextMessage string
  | BinaryMessage
  | CloseMessage
  | PingPong

text \<open>A connection in its loop: the clock of the last sign of life besides its own state.\<close>

record conn_loop =
  lp_conn :: connection
  lp_last_heartbeat :: instant

datatype loop_end = Running | Broke "close_reason option"

definition conn_step ::
  "'v gw_deps \<Rightarrow> socket \<Rightarrow> instant \<times> uuid \<times> sock_event \<Rightarrow> conn_loop \<times> app_state \<Rightarrow> (conn_loop \<times> app_state) \<times> loop_end" where
  "conn_step dp tx ev x =
    (case (ev, x) of ((now, sid, e), (l, s)) \<Rightarrow>
      (case e of
         IdentifyDeadline \<Rightarrow>
           (if cn_session (lp_conn l) = None then ((l, s), Broke (Some (close_NOT_AUTHENTICATED, ''identify timeout'')))
            else ((l, s), Running))
       | HeartbeatCheck \<Rightarrow>
           (if cn_session (lp_conn l) \<noteq> None \<and>
               max 0 (now - lp_last_heartbeat l) > ms (gc_heartbeat_interval_ms (hb_config (ap_hub s)) * 2)
            then ((l, s), Broke (Some (close_UNKNOWN, ''heartbeat timeout''))) else ((l, s), Running))
       | PeerClosed \<Rightarrow> ((l, s), Broke None)
       | ReadError \<Rightarrow> ((l, s), Broke (Some (close_DECODE_ERROR, ''frame too large'')))
       | TextMessage txt \<Rightarrow>
           (if length txt > MAX_FRAME_BYTES then ((l, s), Broke (Some (close_DECODE_ERROR, ''frame too large'')))
            else case allow_frame now (lp_conn l) of
              (c1, False) \<Rightarrow> ((l\<lparr>lp_conn := c1\<rparr>, s), Broke (Some (close_RATE_LIMITED, ''too many frames'')))
            | (c1, True) \<Rightarrow>
              (case conn_handle dp now sid tx txt c1 s of
                 ((c2, s2), Inr True) \<Rightarrow> ((l\<lparr>lp_conn := c2, lp_last_heartbeat := now\<rparr>, s2), Running)
               | ((c2, s2), Inr False) \<Rightarrow> ((l\<lparr>lp_conn := c2\<rparr>, s2), Running)
               | ((c2, s2), Inl reason) \<Rightarrow> ((l\<lparr>lp_conn := c2\<rparr>, s2), Broke (Some reason))))
       | BinaryMessage \<Rightarrow> ((l, s), Broke (Some (close_DECODE_ERROR, ''binary frame'')))
       | CloseMessage \<Rightarrow> ((l, s), Broke None)
       | PingPong \<Rightarrow> ((l, s), Running)))"

text \<open>After the loop: the session, if there is one, is disconnected.\<close>

definition conn_end :: "instant \<Rightarrow> connection \<Rightarrow> app_state \<Rightarrow> app_state" where
  "conn_end now c s =
    (case cn_session c of None \<Rightarrow> s | Some sid \<Rightarrow> on_hub (on_session sid (ses_disconnect now)) s)"

fun conn_run ::
  "'v gw_deps \<Rightarrow> socket \<Rightarrow> (instant \<times> uuid \<times> sock_event) list \<Rightarrow> conn_loop \<times> app_state \<Rightarrow> (conn_loop \<times> app_state) \<times> loop_end" where
  "conn_run dp tx [] x = (x, Running)"
| "conn_run dp tx (ev # evs) x =
     (case conn_step dp tx ev x of
        ((l, s), Running) \<Rightarrow> conn_run dp tx evs (l, s)
      | ((l, s), Broke reason) \<Rightarrow> ((l, conn_end (fst ev) (lp_conn l) s), Broke reason))"

definition conn_start :: "instant \<Rightarrow> conn_loop" where
  "conn_start now = \<lparr>lp_conn = \<lparr>cn_session = None, cn_window_started = now, cn_frames_in_window = 0\<rparr>, lp_last_heartbeat = now\<rparr>"

text \<open>
  What goes out when the socket is closed: the close frame with a code that \<^verbatim>\<open>close\<close> sends, or
  the bare one of \<^verbatim>\<open>sender.close()\<close>, with which the writer task ends once its queue is drained.
\<close>

datatype closing = StillOpen | Closed "close_reason option"

definition serve ::
  "'v gw_deps \<Rightarrow> socket \<Rightarrow> instant \<Rightarrow> nat \<Rightarrow> (instant \<times> uuid \<times> sock_event) list \<Rightarrow> app_state \<Rightarrow> app_state \<times> loop_end \<times> closing" where
  "serve dp tx now requested_version evs s =
    (if requested_version \<noteq> GATEWAY_VERSION then
       (s, Broke (Some (close_VERSION_TOO_OLD, ''unsupported version'')), Closed (Some (close_VERSION_TOO_OLD, ''unsupported version'')))
     else
       (let cfg = hb_config (ap_hub s);
            s1 = on_hub (queue_frame tx (HelloFrame (gc_heartbeat_interval_ms cfg) (gc_session_ttl_ms cfg))) s;
            ((l, s2), r) = conn_run dp tx evs (conn_start now, s1)
        in (s2, r, case r of Running \<Rightarrow> StillOpen | Broke _ \<Rightarrow> Closed None)))"

section \<open>Versions\<close>

lemma split_on_none: "d \<notin> set xs \<Longrightarrow> split_on d xs = [xs]"
  by (induction xs) auto

lemma split_on_sep: "d \<notin> set xs \<Longrightarrow> split_on d (xs @ d # ys) = xs # split_on d ys"
  by (induction xs) (auto split: list.split)

lemma parse_u32_show: "n < 2 ^ 32 \<Longrightarrow> parse_u32 (show_nat n) = Some n"
proof -
  assume n: "n < 2 ^ 32"
  obtain c cs where s: "show_nat n = c # cs" by (cases "show_nat n") auto
  then have "c \<noteq> CHR ''+''" using show_nat_digits [of n] by auto
  moreover have "int n \<le> 2 ^ 32 - 1" using n by simp
  ultimately show ?thesis
    using parse_show_nat [of n] s by (simp add: parse_u32_def parse_int_def in_range_def)
qed

lemma show_nat_plain: "CHR ''.'' \<notin> set (show_nat n)" "CHR ''-'' \<notin> set (show_nat n)" "CHR ''+'' \<notin> set (show_nat n)"
  using show_nat_digits [of n] by (auto simp: is_digit_def char_code_def)

lemma takeWhile_stop: "list_all P xs \<Longrightarrow> ys = [] \<or> \<not> P (hd ys) \<Longrightarrow> takeWhile P (xs @ ys) = xs"
  by (induction xs) (simp_all, cases ys, simp_all)

text \<open>
  A release is read as what it is: \<^verbatim>\<open>major.minor.patch\<close>, with any prerelease or build suffix, parses to its
  three numbers, and the client is let in exactly from major version 2 on.
\<close>
theorem release_versions_read:
  assumes "a < 2 ^ 32" and "b < 2 ^ 32" and "c < 2 ^ 32"
    and "suffix = [] \<or> hd suffix = CHR ''-'' \<or> hd suffix = CHR ''+''"
  shows "parse_version (show_nat a @ ''.'' @ show_nat b @ ''.'' @ show_nat c @ suffix) = Some (a, b, c) \<and>
    (check_client_version (show_nat a @ ''.'' @ show_nat b @ ''.'' @ show_nat c @ suffix) = Inr () \<longleftrightarrow> 2 \<le> a)"
proof -
  let ?core = "show_nat a @ CHR ''.'' # show_nat b @ CHR ''.'' # show_nat c"
  have "version_core (?core @ suffix) = ?core"
    unfolding version_core_def
    by (rule takeWhile_stop) (use assms(4) show_nat_plain in \<open>auto simp: list_all_iff\<close>)
  then have core: "version_core (show_nat a @ ''.'' @ show_nat b @ ''.'' @ show_nat c @ suffix) = ?core" by simp
  have "split_on (CHR ''.'') ?core = [show_nat a, show_nat b, show_nat c]"
    by (simp add: split_on_sep split_on_none show_nat_plain)
  then have p: "parse_version (show_nat a @ ''.'' @ show_nat b @ ''.'' @ show_nat c @ suffix) = Some (a, b, c)"
    unfolding parse_version_def core using assms by (simp add: parse_u32_show)
  then show ?thesis
    by (simp add: check_client_version_def MIN_CLIENT_VERSION_def del: append.simps) linarith
qed

theorem release_versions_read_witness:
  "parse_version (show_nat 2 @ ''.'' @ show_nat 0 @ ''.'' @ show_nat 1 @ ''-beta.2'') = Some (2, 0, 1) \<and>
   check_client_version (show_nat 2 @ ''.'' @ show_nat 0 @ ''.'' @ show_nat 1 @ ''-beta.2'') = Inr ()"
  using release_versions_read [of 2 0 1 "''-beta.2''"] by simp

section \<open>The frame rate\<close>

fun allowed_frames :: "instant list \<Rightarrow> connection \<Rightarrow> bool list" where
  "allowed_frames [] c = []"
| "allowed_frames (t # ts) c = (case allow_frame t c of (c', ok) \<Rightarrow> ok # allowed_frames ts c')"

lemma allowed_in_window:
  assumes "\<forall>t \<in> set ts. t - cn_window_started c \<le> ms FRAME_WINDOW_MS" and "cn_frames_in_window c = of_nat k" and "k + length ts < 2 ^ 32"
  shows "allowed_frames ts c = map (\<lambda>i. i < MAX_FRAMES_PER_WINDOW) [k..<k + length ts]"
  using assms
proof (induction ts arbitrary: c k)
  case (Cons t ts)
  let ?c = "c\<lparr>cn_frames_in_window := of_nat (Suc k)\<rparr>"
  have "0 \<le> ms FRAME_WINDOW_MS" by (simp add: ms_def FRAME_WINDOW_MS_def)
  then have "\<not> ms FRAME_WINDOW_MS < max 0 (t - cn_window_started c)" using Cons.prems(1) by (simp add: not_less)
  moreover have "((of_nat (Suc k) :: u32) \<le> of_nat MAX_FRAMES_PER_WINDOW) \<longleftrightarrow> k < MAX_FRAMES_PER_WINDOW"
    using Cons.prems(3) by (simp add: word_le_nat_alt unat_of_nat MAX_FRAMES_PER_WINDOW_def del: of_nat_Suc) linarith
  ultimately have "allow_frame t c = (?c, k < MAX_FRAMES_PER_WINDOW)"
    using Cons.prems(2) by (simp add: allow_frame_def Let_def add.commute)
  moreover have "allowed_frames ts ?c = map (\<lambda>i. i < MAX_FRAMES_PER_WINDOW) [Suc k..<Suc k + length ts]"
    using Cons.prems by (intro Cons.IH) auto
  moreover have "[k..<k + length (t # ts)] = k # [Suc k..<Suc k + length ts]"
    by (simp add: upt_conv_Cons del: upt_Suc)
  ultimately show ?case by (simp del: upt_Suc)
qed simp

text \<open>
  The frame limit: of the frames that arrive within 60 s of the start of a window exactly the first 30 are
  let through, however they are spaced.
\<close>
theorem frame_window_limit:
  assumes "\<forall>t \<in> set ts. t - cn_window_started c \<le> ms FRAME_WINDOW_MS" and "cn_frames_in_window c = 0" and "length ts < 2 ^ 32"
  shows "allowed_frames ts c = map (\<lambda>i. i < 30) [0..<length ts]"
  using allowed_in_window [of ts c 0] assms by (simp add: MAX_FRAMES_PER_WINDOW_def)

theorem frame_window_limit_witness:
  "allowed_frames (replicate 31 5) (lp_conn (conn_start 0)) = replicate 30 True @ [False]"
proof -
  have "allowed_frames (replicate 31 5) (lp_conn (conn_start 0)) = map (\<lambda>i. i < 30) [0..<length (replicate 31 (5::int))]"
    by (rule frame_window_limit) (simp_all add: conn_start_def ms_def FRAME_WINDOW_MS_def)
  then show ?thesis by (simp add: upt_conv_Cons numeral_nat replicate_Suc)
qed

text \<open>
  The window does not slide: it restarts with the first frame after its end, so 30 frames at its end and 30
  more a nanosecond later are all let through, 60 frames in less than any 60 s.
\<close>
theorem window_is_not_sliding:
  "allowed_frames (replicate 30 (ms FRAME_WINDOW_MS) @ replicate 30 (ms FRAME_WINDOW_MS + 1)) (lp_conn (conn_start 0)) =
     replicate 60 True"
  by code_simp

section \<open>Handshakes\<close>

lemma same_registry_queue: "same_registry h (queue_frame tx f h)"
  by (simp add: same_registry_def queue_frame_def identity_of_def)

lemma on_hub_hub [simp]: "ap_hub (on_hub f s) = f (ap_hub s)"
  by (simp add: on_hub_def)

lemma fold_on_hub: "ap_hub (fold (\<lambda>x. on_hub (f x)) xs s) = fold f xs (ap_hub s)"
  by (induction xs arbitrary: s) simp_all

lemma same_registry_identity: "same_registry h h' \<Longrightarrow> identity_of h' i = identity_of h i \<and> hb_sessions h' = hb_sessions h"
  by (simp add: same_registry_def)

lemma identify_binds:
  assumes ok: "hub_ok (ap_hub s)" and fresh: "hm_get (hb_heap (ap_hub s)) sid = None"
  shows "hub_ok (ap_hub (snd (conn_identify now sid user tx c s)))"
    and "identity_of (ap_hub (snd (conn_identify now sid user tx c s))) sid = Some (sid, user)"
proof -
  let ?h1 = "create_session sid user tx (ap_hub s)"
  let ?r = "Ready (ready_build (on_hub (create_session sid user tx) s) user sid)"
  let ?h2 = "dispatch_to_session sid ?r ?h1"
  note made = create_session_ok [OF ok fresh, of user tx]
  have reg: "same_registry ?h1 ?h2" by (rule same_registry_dispatch)
  have id: "identity_of ?h2 sid = Some (sid, user)" "sid \<notin> set (hb_sessions ?h2)" "hub_ok ?h2"
    using same_registry_identity [OF reg, of sid] same_registry_ok [OF reg made(1)] made(2,3) by simp_all
  have at: "ap_hub (snd (conn_identify now sid user tx c s)) = attach now sid ?h2"
    by (simp add: conn_identify_def Let_def)
  show "hub_ok (ap_hub (snd (conn_identify now sid user tx c s)))"
    unfolding at by (rule attach_ok [OF id(3,1,2)])
  show "identity_of (ap_hub (snd (conn_identify now sid user tx c s))) sid = Some (sid, user)"
    unfolding at using attach_effect(5) [OF id(1,2) hub_okD(3) [OF id(3)]] id(1) by simp
qed

text \<open>What a resume does to the hub, when it is accepted.\<close>

definition resume_hub :: "uuid \<Rightarrow> socket \<Rightarrow> dispatch_frame list \<Rightarrow> hub \<Rightarrow> hub" where
  "resume_hub sid tx missed h =
     dispatch_to_session sid (Resumed (unat (of_nat (length missed) :: u32)))
       (fold (\<lambda>f. send_to_session sid (Dispatch f)) missed (on_session sid (ses_reconnect tx) h))"

lemma resume_registry: "same_registry h (resume_hub sid tx missed h)"
  unfolding resume_hub_def
  by (rule same_registry_trans [OF same_registry_trans [OF same_registry_on_session same_registry_fold] same_registry_dispatch])
    (simp_all add: same_registry_send)

lemma conn_resume_cases:
  assumes "hub_ok (ap_hub s)"
  obtains (refused) "fst (conn_resume user p tx c s) = c" "hub_ok (ap_hub (snd (conn_resume user p tx c s)))"
  | (resumed) ses missed where "resumable (rsm_session_id p) user (ap_hub s) = Some ses" "ses_id ses = rsm_session_id p"
      "replay_after (rsm_last_seq p) ses = Some missed"
      "fst (conn_resume user p tx c s) = c\<lparr>cn_session := Some (rsm_session_id p)\<rparr>"
      "ap_hub (snd (conn_resume user p tx c s)) = resume_hub (rsm_session_id p) tx missed (ap_hub s)"
proof (cases "resumable (rsm_session_id p) user (ap_hub s)")
  case None
  then show ?thesis
    using refused same_registry_ok [OF same_registry_queue assms] by (simp add: conn_resume_def)
next
  case (Some ses)
  then have id: "ses_id ses = rsm_session_id p" and reg: "registered (ap_hub s) (rsm_session_id p) \<noteq> None"
    using hub_okD(4) [OF assms] by (auto simp: resumable_def registered_def split: option.splits if_splits)
  show ?thesis
  proof (cases "replay_after (rsm_last_seq p) ses")
    case None
    have "hub_ok (forget (rsm_session_id p) (ap_hub s))"
      unfolding forget_def by (rule unregister_ok [OF assms reg])
    then show ?thesis
      using refused None Some id same_registry_ok [OF same_registry_queue] by (simp add: conn_resume_def)
  next
    case (Some missed)
    with \<open>resumable (rsm_session_id p) user (ap_hub s) = Some ses\<close> id show ?thesis
      using resumed by (simp add: conn_resume_def Let_def resume_hub_def fold_on_hub)
  qed
qed

lemma resumable_identity: "hub_ok h \<Longrightarrow> resumable i user h = Some ses \<Longrightarrow> identity_of h i = Some (i, user)"
  using hub_okD(4) [of h i ses]
  by (auto simp: resumable_def registered_def identity_of_def split: option.splits if_splits)

text \<open>The token a frame presents: that of its \<^verbatim>\<open>IDENTIFY\<close> or \<^verbatim>\<open>RESUME\<close> payload, and none for any other frame.\<close>

definition presented_token :: "'v gw_deps \<Rightarrow> string \<Rightarrow> string option" where
  "presented_token dp txt =
    Option.bind (gw_decode dp txt) (\<lambda>frame. Option.bind (rcf_d frame) (\<lambda>v.
      if rcf_op frame = op_IDENTIFY then map_option idn_token (gw_identify dp v)
      else if rcf_op frame = op_RESUME then map_option rsm_token (gw_resume dp v)
      else None))"

lemma parse_payload_Inr: "parse_payload f data = Inr p \<Longrightarrow> \<exists>v. data = Some v \<and> f v = Some p"
  by (auto simp: parse_payload_def split: option.splits)

lemma presented_token_Some:
  assumes "gw_decode dp txt = Some frame"
  shows "rcf_op frame = op_IDENTIFY \<Longrightarrow> parse_payload (gw_identify dp) (rcf_d frame) = Inr p \<Longrightarrow>
      presented_token dp txt = Some (idn_token p)"
    and "rcf_op frame = op_RESUME \<Longrightarrow> parse_payload (gw_resume dp) (rcf_d frame) = Inr q \<Longrightarrow>
      presented_token dp txt = Some (rsm_token q)"
  using assms by (auto simp: presented_token_def opcodes dest!: parse_payload_Inr)

lemma resume_binds:
  assumes ok: "hub_ok (ap_hub s)" and none: "cn_session c = None"
  shows "hub_ok (ap_hub (snd (conn_resume user p tx c s)))"
    and "cn_session (fst (conn_resume user p tx c s)) = Some i \<Longrightarrow>
      identity_of (ap_hub (snd (conn_resume user p tx c s))) i = Some (i, user)"
proof -
  have "hub_ok (ap_hub (snd (conn_resume user p tx c s))) \<and>
      (\<forall>i. cn_session (fst (conn_resume user p tx c s)) = Some i \<longrightarrow> identity_of (ap_hub (snd (conn_resume user p tx c s))) i = Some (i, user))"
    using ok
  proof (cases rule: conn_resume_cases [of s user p tx c])
    case refused
    with none show ?thesis by simp
  next
    case (resumed ses missed)
    with resumable_identity [OF ok resumed(1)] resume_registry [of "ap_hub s" "rsm_session_id p" tx missed]
      same_registry_ok [OF resume_registry ok] show ?thesis
      by (simp add: same_registry_def)
  qed
  then show "hub_ok (ap_hub (snd (conn_resume user p tx c s)))"
    "cn_session (fst (conn_resume user p tx c s)) = Some i \<Longrightarrow>
      identity_of (ap_hub (snd (conn_resume user p tx c s))) i = Some (i, user)" by blast+
qed

text \<open>
  C14.  A connection only ever gets a session of the user its own token names: whatever the frame, handling it keeps
  the registry consistent, and if the connection had no session and has one afterwards, the frame was an
  \<^verbatim>\<open>IDENTIFY\<close> or a \<^verbatim>\<open>RESUME\<close>, the token in that frame authenticates, and the session belongs to the user
  that token names.
\<close>
theorem handshake_binds_owner:
  assumes ok: "hub_ok (ap_hub s)" and fresh: "hm_get (hb_heap (ap_hub s)) sid = None" and none: "cn_session c = None"
  shows "hub_ok (ap_hub (snd (fst (conn_handle dp now sid tx txt c s)))) \<and>
    (\<forall>i. cn_session (fst (fst (conn_handle dp now sid tx txt c s))) = Some i \<longrightarrow>
      (\<exists>token user. presented_token dp txt = Some token \<and> authenticate dp now token = Inr user \<and>
         identity_of (ap_hub (snd (fst (conn_handle dp now sid tx txt c s)))) i = Some (i, user)))"
proof (cases "gw_decode dp txt")
  case (Some frame)
  consider "rcf_op frame = op_HEARTBEAT" | "rcf_op frame = op_IDENTIFY" | "rcf_op frame = op_RESUME"
    | "rcf_op frame \<notin> {op_HEARTBEAT, op_IDENTIFY, op_RESUME}" by blast
  then show ?thesis
  proof cases
    case 1
    with Some none same_registry_ok [OF same_registry_queue ok] show ?thesis by (simp add: conn_handle_def)
  next
    case 2
    have "cn_session (fst (conn_identify now sid user tx c s)) = Some sid" for user
      by (simp add: conn_identify_def Let_def)
    with 2 Some ok none identify_binds [OF ok fresh] presented_token_Some(1) [OF Some 2] show ?thesis
      by (auto simp: conn_handle_def opcodes split: sum.split)
  next
    case 3
    with Some ok none resume_binds [OF ok none] presented_token_Some(2) [OF Some 3] show ?thesis
      by (auto simp: conn_handle_def opcodes split: sum.split)
  next
    case 4
    with Some ok none show ?thesis by (simp add: conn_handle_def)
  qed
qed (use ok none in \<open>simp add: conn_handle_def\<close>)

text \<open>A gateway whose payloads are decoded already, for the witnesses.\<close>

datatype sample_payload = SampleIdentify identify | SampleResume resume_payload

definition sample_gateway :: "sample_payload gw_deps" where
  "sample_gateway = \<lparr>
     gw_decode = (\<lambda>t. if t = ''identify'' then Some \<lparr>rcf_op = op_IDENTIFY,
         rcf_d = Some (SampleIdentify \<lparr>idn_token = ''7'', idn_version = ''2.0.0'', idn_os = ''windows''\<rparr>)\<rparr>
       else if t = ''resume'' then Some \<lparr>rcf_op = op_RESUME,
         rcf_d = Some (SampleResume \<lparr>rsm_token = ''7'', rsm_session_id = 11, rsm_last_seq = 1\<rparr>)\<rparr>
       else None),
     gw_identify = (\<lambda>p. case p of SampleIdentify i \<Rightarrow> Some i | _ \<Rightarrow> None),
     gw_resume = (\<lambda>p. case p of SampleResume r \<Rightarrow> Some r | _ \<Rightarrow> None),
     gw_jwt = (\<lambda>_ _ _ t. Inr \<lparr>ac_sub = t, ac_jti = ''1'', ac_iat = 0, ac_exp = 0\<rparr>),
     gw_parse_uuid = decimal_parse_uuid, gw_signing_key = ''k''\<rparr>"

lemma sample_app_hub_ok: "hub_ok (ap_hub sample_app)"
  by (simp add: sample_app_def app_state_new_def sample_hub_ok)

theorem handshake_binds_owner_witness:
  "let x = conn_handle sample_gateway 0 11 1 ''identify'' (lp_conn (conn_start 0)) sample_app
   in hub_ok (ap_hub (snd (fst x))) \<and> cn_session (fst (fst x)) = Some 11 \<and> identity_of (ap_hub (snd (fst x))) 11 = Some (11, 7)"
proof -
  let ?x = "conn_handle sample_gateway 0 11 1 ''identify'' (lp_conn (conn_start 0)) sample_app"
  have f: "hm_get (hb_heap (ap_hub sample_app)) 11 = None" "cn_session (lp_conn (conn_start 0)) = None"
    by (simp_all add: sample_app_def app_state_new_def hub_new_def conn_start_def)
  have a: "authenticate sample_gateway 0 ''7'' = Inr 7" by code_simp
  have v: "check_client_version ''2.0.0'' = Inr ()" by code_simp
  have t: "presented_token sample_gateway ''identify'' = Some ''7''" by code_simp
  have "cn_session (fst (fst ?x)) = Some 11"
    using a v f(2) by (simp add: conn_handle_def sample_gateway_def [of] parse_payload_def opcodes conn_identify_def Let_def)
  with handshake_binds_owner [OF sample_app_hub_ok f, of sample_gateway 0 1 "''identify''"] a t show ?thesis
    by (auto simp: Let_def)
qed

text \<open>
  A client below the least supported version is refused without being told: its \<^verbatim>\<open>IDENTIFY\<close> ends the connection
  with reason 4010, no session is made, but the close frame it gets carries no code, since the reason of
  the loop only goes to the log.
\<close>
theorem outdated_client_not_told:
  assumes "gw_decode dp txt = Some \<lparr>rcf_op = op_IDENTIFY, rcf_d = Some v\<rparr>" and "gw_identify dp v = Some p"
    and "check_client_version (idn_version p) \<noteq> Inr ()" and "length txt \<le> MAX_FRAME_BYTES"
  shows "\<exists>s'. serve dp tx now GATEWAY_VERSION [(now, sid, TextMessage txt)] s =
      (s', Broke (Some (close_VERSION_TOO_OLD, ''client too old'')), Closed None) \<and>
    hb_sessions (ap_hub s') = hb_sessions (ap_hub s)"
proof -
  have "check_client_version (idn_version p) = Inl (close_VERSION_TOO_OLD, ''client too old'')"
    using assms(3) by (auto simp: check_client_version_def split: option.splits if_splits)
  moreover have "snd (allow_frame now (lp_conn (conn_start now)))" "cn_session (fst (allow_frame now (lp_conn (conn_start now)))) = None"
    by (simp_all add: allow_frame_def conn_start_def Let_def MAX_FRAMES_PER_WINDOW_def ms_def FRAME_WINDOW_MS_def)
  ultimately show ?thesis
    using assms by (cases "allow_frame now (lp_conn (conn_start now))")
      (simp add: serve_def Let_def conn_step_def conn_handle_def parse_payload_def opcodes conn_end_def queue_frame_def)
qed

theorem outdated_client_not_told_witness:
  "\<exists>s'. serve (sample_gateway\<lparr>gw_decode := (\<lambda>t. Some \<lparr>rcf_op = op_IDENTIFY,
       rcf_d = Some (SampleIdentify \<lparr>idn_token = ''7'', idn_version = ''1.1.0'', idn_os = ''windows''\<rparr>)\<rparr>)\<rparr>)
       1 0 GATEWAY_VERSION [(0, 11, TextMessage ''identify'')] sample_app =
      (s', Broke (Some (close_VERSION_TOO_OLD, ''client too old'')), Closed None)"
proof -
  have v: "check_client_version ''1.1.0'' \<noteq> Inr ()" by code_simp
  show ?thesis
    using outdated_client_not_told [of "sample_gateway\<lparr>gw_decode := (\<lambda>t. Some \<lparr>rcf_op = op_IDENTIFY,
       rcf_d = Some (SampleIdentify \<lparr>idn_token = ''7'', idn_version = ''1.1.0'', idn_os = ''windows''\<rparr>)\<rparr>)\<rparr>" "''identify''"
       "SampleIdentify \<lparr>idn_token = ''7'', idn_version = ''1.1.0'', idn_os = ''windows''\<rparr>" _ 1 0 11 sample_app] v
    by (auto simp: sample_gateway_def MAX_FRAME_BYTES_def)
qed

section \<open>Resume\<close>

lemma send_to_session_effect:
  "hm_get (hb_heap h) sid = Some s \<Longrightarrow> ses_outbox s = Some tx \<Longrightarrow>
     send_to_session sid f h = queue_frame tx f h"
  by (simp add: send_to_session_def send_text_def queue_frame_def)

lemma fold_send_effect:
  assumes "hm_get (hb_heap h) sid = Some s" and "ses_outbox s = Some tx"
  shows "fold (\<lambda>f. send_to_session sid (Dispatch f)) fs h = h\<lparr>hb_out := hb_out h @ map (\<lambda>f. (tx, Dispatch f)) fs\<rparr>"
  using assms
proof (induction fs arbitrary: h)
  case (Cons f fs)
  have q: "hm_get (hb_heap (queue_frame tx (Dispatch f) h)) sid = Some s" using Cons.prems by (simp add: queue_frame_def)
  show ?case
    using Cons.IH [OF q Cons.prems(2)] send_to_session_effect [OF Cons.prems, of "Dispatch f"]
    by (simp add: queue_frame_def)
qed simp

lemma resume_hub_effect:
  assumes get: "hm_get (hb_heap h) sid = Some ses" and hist: "holds_history cap hist ses" and cap: "0 < cap"
    and len: "length missed < 2 ^ 32"
  shows "hb_out (resume_hub sid tx missed h) = hb_out h @ map (\<lambda>f. (tx, Dispatch f)) missed @
      [(tx, Dispatch (dispatch_frame_new (of_nat (Suc (length hist))) (Resumed (length missed))))]"
    and "\<exists>s'. hm_get (hb_heap (resume_hub sid tx missed h)) sid = Some s' \<and> ses_outbox s' = Some tx \<and>
      holds_history cap (hist @ [Resumed (length missed)]) s'"
proof -
  let ?s = "ses_reconnect tx ses" and ?h = "on_session sid (ses_reconnect tx) h"
  have g: "hm_get (hb_heap ?h) sid = Some ?s" "ses_outbox ?s = Some tx"
    using get by (simp_all add: on_session_def ses_reconnect_def)
  let ?h2 = "?h\<lparr>hb_out := hb_out ?h @ map (\<lambda>f. (tx, Dispatch f)) missed\<rparr>"
  have n: "unat (of_nat (length missed) :: u32) = length missed" using len by (simp add: unat_of_nat)
  have hs: "holds_history cap hist ?s" by (rule holds_history_frame [OF hist])
  have h2: "hm_get (hb_heap ?h2) sid = Some ?s" using g by simp
  have r: "resume_hub sid tx missed h = dispatch_to_session sid (Resumed (length missed)) ?h2"
    unfolding resume_hub_def fold_send_effect [OF g] n ..
  have seq: "ses_seq ?s + 1 = of_nat (Suc (length hist))" using hs by (simp add: holds_history_def)
  have out: "snd (ses_dispatch (Resumed (length missed)) ?s) =
      [(tx, Dispatch (dispatch_frame_new (of_nat (Suc (length hist))) (Resumed (length missed))))]"
    using g(2) seq by (simp add: ses_dispatch_def Let_def send_text_def add.commute)
  show "hb_out (resume_hub sid tx missed h) = hb_out h @ map (\<lambda>f. (tx, Dispatch f)) missed @
      [(tx, Dispatch (dispatch_frame_new (of_nat (Suc (length hist))) (Resumed (length missed))))]"
    unfolding r dispatch_to_session_def h2 using out by (simp add: case_prod_beta on_session_def)
  show "\<exists>s'. hm_get (hb_heap (resume_hub sid tx missed h)) sid = Some s' \<and> ses_outbox s' = Some tx \<and>
      holds_history cap (hist @ [Resumed (length missed)]) s'"
    unfolding r dispatch_to_session_def h2
    using holds_history_dispatch [OF hs cap, of "Resumed (length missed)"] g(2) by (simp add: case_prod_beta)
qed

text \<open>
  Resume hands over exactly what was missed: for a registered session of the caller that has dispatched
  \<open>hist\<close> of which the client has seen \<open>j\<close> events still covered by the buffer, the new socket gets the
  frames after the \<open>j\<close>-th in order with their sequence numbers, then \<^verbatim>\<open>RESUMED\<close> with their count as the next
  number, and nothing else is queued anywhere; the session is then on the new socket.
\<close>
theorem resume_hands_over_missed:
  assumes ok: "hub_ok (ap_hub s)" and res: "resumable (rsm_session_id p) user (ap_hub s) = Some ses"
    and hist: "holds_history cap hist ses" "0 < cap" "length hist < 2 ^ 32"
    and seen: "rsm_last_seq p = of_nat j" "length hist - cap \<le> j" "j \<le> length hist"
  shows "let (c', s') = conn_resume user p tx c s in
    hb_out (ap_hub s') = hb_out (ap_hub s) @ map (\<lambda>f. (tx, Dispatch f)) (frames_from j hist) @
      [(tx, Dispatch (dispatch_frame_new (of_nat (Suc (length hist))) (Resumed (length hist - j))))] \<and>
    cn_session c' = Some (rsm_session_id p) \<and> outbox_of (ap_hub s') (rsm_session_id p) = [tx]"
proof -
  have get: "hm_get (hb_heap (ap_hub s)) (rsm_session_id p) = Some ses"
    and reg: "registered (ap_hub s) (rsm_session_id p) = Some ses"
    using res by (auto simp: resumable_def registered_def split: option.splits if_splits)
  have id: "ses_id ses = rsm_session_id p" using hub_okD(4) [OF ok get] .
  have rep: "replay_after (rsm_last_seq p) ses = Some (frames_from j hist)"
    using replay_holds_history [OF hist(1), of j] hist(3) seen by (simp add: evicted_def)
  have len: "length (frames_from j hist) < 2 ^ 32" "length (frames_from j hist) = length hist - j"
    using hist(3) by (simp_all add: length_frames_from)
  note eff = resume_hub_effect [OF get hist(1,2) len(1), of tx]
  have hub: "ap_hub (snd (conn_resume user p tx c s)) = resume_hub (rsm_session_id p) tx (frames_from j hist) (ap_hub s)"
    "cn_session (fst (conn_resume user p tx c s)) = Some (rsm_session_id p)"
    using res rep id by (simp_all add: conn_resume_def Let_def resume_hub_def fold_on_hub)
  have "outbox_of (resume_hub (rsm_session_id p) tx (frames_from j hist) (ap_hub s)) (rsm_session_id p) = [tx]"
    using eff(2) reg resume_registry [of "ap_hub s" "rsm_session_id p" tx "frames_from j hist"]
    by (auto simp: outbox_of_def registered_def same_registry_def split: if_splits)
  with eff(1) hub len(2) show ?thesis by (simp add: case_prod_beta)
qed

text \<open>
  The end of an old socket takes the session from the new one: when a client resumes on a new socket before
  the server notices that the old one is dead, the old connection's end still disconnects the session,
  so nothing published afterwards reaches the new socket, although its connection is in the session.
\<close>
theorem old_socket_end_silences_resumed:
  assumes ok: "hub_ok (ap_hub s)" and res: "resumable (rsm_session_id p) user (ap_hub s) = Some ses"
    and rep: "replay_after (rsm_last_seq p) ses = Some missed" and old: "cn_session c_old = Some (rsm_session_id p)"
  shows "let (c', s') = conn_resume user p tx c s; s'' = conn_end now c_old s'
    in cn_session c' = Some (rsm_session_id p) \<and> outbox_of (ap_hub s'') (rsm_session_id p) = []"
proof -
  have id: "ses_id ses = rsm_session_id p"
    using res hub_okD(4) [OF ok] by (auto simp: resumable_def registered_def split: option.splits if_splits)
  have "cn_session (fst (conn_resume user p tx c s)) = Some (rsm_session_id p)"
    using res rep id by (simp add: conn_resume_def Let_def)
  moreover have "outbox_of (on_session i (ses_disconnect now) h) i = []" for i h
    by (auto simp: outbox_of_def registered_def on_session_def ses_disconnect_def split: option.split)
  ultimately show ?thesis using old by (simp add: case_prod_beta conn_end_def)
qed

text \<open>One session of user 7 that has dispatched three events and lost its socket.\<close>

definition sample_history :: "dispatch_event list" where
  "sample_history = [Resumed 10, Resumed 11, Resumed 12]"

definition sample_session :: session where
  "sample_session = fold ses_step (map OpDispatch sample_history @ [OpDisconnect 5]) (session_new 11 7 0 3)"

definition sample_resume_app :: app_state where
  "sample_resume_app = sample_app\<lparr>ap_hub := (hub_new sample_config)\<lparr>hb_heap := [(11, sample_session)],
     hb_sessions := [11], hb_by_user := [(7, [11])]\<rparr>\<rparr>"

definition sample_resume :: resume_payload where
  "sample_resume = \<lparr>rsm_token = ''7'', rsm_session_id = 11, rsm_last_seq = 1\<rparr>"

lemma sample_session_fields: "ses_id sample_session = 11" "ses_user_id sample_session = 7"
  by code_simp+

lemma sample_session_history: "holds_history 3 sample_history sample_session"
  using holds_history_run [OF holds_history_new, of 3 "map OpDispatch sample_history @ [OpDisconnect 5]" 11 7 0]
  by (simp add: sample_session_def sample_history_def del: fold_simps fold_append)

lemma sample_resume_ok: "hub_ok (ap_hub sample_resume_app)"
  by (auto simp: hub_ok_def sample_resume_app_def hub_new_def sessions_of_def hm_get_def sample_config_def
      sample_session_fields hm_ok_def split: if_splits)

lemma sample_resumable: "resumable (rsm_session_id sample_resume) 7 (ap_hub sample_resume_app) = Some sample_session"
  by (simp add: resumable_def registered_def sample_resume_app_def sample_resume_def hub_new_def hm_get_def sample_session_fields)

theorem resume_hands_over_missed_witness:
  "let (c', s') = conn_resume 7 sample_resume 4 (lp_conn (conn_start 0)) sample_resume_app
   in map fst (hb_out (ap_hub s')) = [4, 4, 4] \<and> outbox_of (ap_hub s') 11 = [4]"
proof -
  have h: "(0::nat) < 3" "length sample_history < 2 ^ 32" "rsm_last_seq sample_resume = of_nat 1"
    "length sample_history - 3 \<le> 1" "1 \<le> length sample_history"
    by (simp_all add: sample_history_def sample_resume_def)
  have "hb_out (ap_hub sample_resume_app) = []" by (simp add: sample_resume_app_def hub_new_def)
  with resume_hands_over_missed [OF sample_resume_ok sample_resumable sample_session_history h, of 4 "lp_conn (conn_start 0)"]
  show ?thesis by (auto simp: frames_from_def sample_history_def sample_resume_def upt_conv_Cons)
qed

theorem old_socket_end_silences_resumed_witness:
  "let (c', s') = conn_resume 7 sample_resume 4 (lp_conn (conn_start 0)) sample_resume_app;
       s'' = conn_end 9 ((lp_conn (conn_start 0))\<lparr>cn_session := Some 11\<rparr>) s'
   in cn_session c' = Some 11 \<and> outbox_of (ap_hub s'') 11 = []"
proof -
  have "replay_after (of_nat 1) sample_session \<noteq> None"
    using replay_holds_history [OF sample_session_history, of 1] by (simp add: sample_history_def evicted_def)
  then obtain missed where m: "replay_after (rsm_last_seq sample_resume) sample_session = Some missed"
    by (auto simp: sample_resume_def)
  have "cn_session ((lp_conn (conn_start 0))\<lparr>cn_session := Some 11\<rparr>) = Some (rsm_session_id sample_resume)"
    by (simp add: sample_resume_def)
  from old_socket_end_silences_resumed [OF sample_resume_ok sample_resumable m this, of 4 "lp_conn (conn_start 0)" 9]
  show ?thesis by (simp add: sample_resume_def)
qed

end
