(* ===== verification/Pairing_Service.thy ===== *)
theory Pairing_Service
  imports Single_Use Pairing_Code Auth_Service Config
begin

text \<open>
  Pairing: the table \<^verbatim>\<open>pairing_codes\<close> and its statements (\<^verbatim>\<open>crates/db/src/repo/pairing.rs\<close>), the slash command
  that issues a code (\<^verbatim>\<open>crates/bot/src/pairing.rs\<close>), the routes that spend it and run the session
  (\<^verbatim>\<open>crates/api/src/routes/auth.rs\<close>, \<^verbatim>\<open>users.rs\<close>), and the clean-up job (\<^verbatim>\<open>crates/api/src/jobs.rs\<close>).
  The clock of the process and \<^verbatim>\<open>NOW()\<close> of the database are one clock.  The texts of the replies are left out:
  a reply says which one it is and what it shows.
\<close>

section \<open>The table\<close>

record pairing_row =
  pg_id :: uuid
  pg_code_hash :: string
  pg_discord_user_id :: i64
  pg_discord_guild_id :: i64
  pg_expires_at :: instant
  pg_consumed_at :: "instant option"
  pg_created_at :: instant

type_synonym pairing_codes = "pairing_row list"

record consumed_code =
  cc_discord_user_id :: i64
  cc_discord_guild_id :: i64

definition pg_insert ::
  "instant \<Rightarrow> uuid \<Rightarrow> string \<Rightarrow> i64 \<Rightarrow> i64 \<Rightarrow> instant \<Rightarrow> pairing_codes \<Rightarrow> db_error + pairing_codes" where
  "pg_insert now i hash user guild expires t =
    (if i \<in> set (map pg_id t) then Inl (DbSqlx ''pairing_codes_pkey'')
     else if hash \<in> set (map pg_code_hash t) then Inl (DbSqlx ''pairing_codes_code_hash_key'')
     else Inr (t @ [\<lparr>pg_id = i, pg_code_hash = hash, pg_discord_user_id = user, pg_discord_guild_id = guild,
                     pg_expires_at = expires, pg_consumed_at = None, pg_created_at = now\<rparr>]))"

definition redeemable :: "instant \<Rightarrow> string \<Rightarrow> pairing_row \<Rightarrow> bool" where
  "redeemable now hash r \<longleftrightarrow> pg_code_hash r = hash \<and> pg_consumed_at r = None \<and> pg_expires_at r > now"

definition pg_consume :: "instant \<Rightarrow> string \<Rightarrow> pairing_codes \<Rightarrow> pairing_codes \<times> consumed_code option" where
  "pg_consume now hash t =
    (map (\<lambda>r. if redeemable now hash r then r\<lparr>pg_consumed_at := Some now\<rparr> else r) t,
     map_option (\<lambda>r. \<lparr>cc_discord_user_id = pg_discord_user_id r, cc_discord_guild_id = pg_discord_guild_id r\<rparr>)
       (find (redeemable now hash) t))"

definition recent_request_count :: "i64 \<Rightarrow> instant \<Rightarrow> pairing_codes \<Rightarrow> int" where
  "recent_request_count user since t =
     int (length (filter (\<lambda>r. pg_discord_user_id r = user \<and> pg_created_at r > since) t))"

definition pg_delete_expired :: "instant \<Rightarrow> pairing_codes \<Rightarrow> pairing_codes \<times> nat" where
  "pg_delete_expired now t =
    (let keep = filter (\<lambda>r. \<not> (pg_expires_at r < now \<or> pg_consumed_at r \<noteq> None)) t
     in (keep, length t - length keep))"

section \<open>The slash command\<close>

record pairing_db =
  pd_auth :: auth_db
  pd_codes :: pairing_codes

record command_interaction =
  ci_guild_id :: "u64 option"
  ci_user_id :: u64
  ci_user_name :: string
  ci_global_name :: "string option"
  ci_avatar_url :: "string option"

text \<open>What issuing draws: the ids of the two rows and the eight indices of the code.\<close>

record issue_draws =
  is_user :: uuid
  is_row :: uuid
  is_code :: "nat list"

datatype reply = RunInsideGuild | GuildNotServed | TooManyCodes | CodeIssued string int | CouldNotIssue

definition seconds :: "int \<Rightarrow> int" where
  "seconds s = s * NANOS"

text \<open>\<open>Inl\<close> is an error of the code; \<open>ttl as i64\<close> wraps.\<close>

definition build_reply ::
  "(string \<Rightarrow> 8 word list) \<Rightarrow> discord_config \<Rightarrow> instant \<Rightarrow> issue_draws \<Rightarrow> command_interaction \<Rightarrow> pairing_db \<Rightarrow>
     pairing_db \<times> (unit + reply)" where
  "build_reply sha cfg now d cmd db =
    (case ci_guild_id cmd of
       None \<Rightarrow> (db, Inr RunInsideGuild)
     | Some guild_id \<Rightarrow>
       if \<not> serves cfg guild_id then (db, Inr GuildNotServed)
       else case i64_try_from (ci_user_id cmd) of
         None \<Rightarrow> (db, Inl ())
       | Some user \<Rightarrow>
         (case i64_try_from guild_id of
            None \<Rightarrow> (db, Inl ())
          | Some guild \<Rightarrow>
            if recent_request_count user (now - seconds 3600) (pd_codes db) \<ge> dc_pairing_max_per_hour cfg
            then (db, Inr TooManyCodes)
            else
              (let db1 = db\<lparr>pd_auth := (pd_auth db)\<lparr>ad_users :=
                     fst (users_upsert_from_discord now (is_user d) user (ci_user_name cmd) (ci_global_name cmd)
                            (ci_avatar_url cmd) (ad_users (pd_auth db)))\<rparr>\<rparr>;
                   code = generate_code (is_code d);
                   ttl = dc_pairing_code_ttl_seconds cfg
               in case pg_insert now (is_row d) (hash_code sha code) user guild
                         (now + seconds (sint (of_int ttl :: i64))) (pd_codes db1) of
                    Inl _ \<Rightarrow> (db1, Inl ())
                  | Inr t \<Rightarrow> (db1\<lparr>pd_codes := t\<rparr>, Inr (CodeIssued code (ttl div 60))))))"

text \<open>The reply is ephemeral on every path; an error becomes a reply too.\<close>

definition handle_command ::
  "(string \<Rightarrow> 8 word list) \<Rightarrow> discord_config \<Rightarrow> instant \<Rightarrow> issue_draws \<Rightarrow> command_interaction \<Rightarrow> pairing_db \<Rightarrow> pairing_db \<times> reply" where
  "handle_command sha cfg now d cmd db =
    (case build_reply sha cfg now d cmd db of (db', Inr r) \<Rightarrow> (db', r) | (db', Inl _) \<Rightarrow> (db', CouldNotIssue))"

section \<open>The routes\<close>

definition pair_route ::
  "auth_deps \<Rightarrow> auth_config \<Rightarrow> draws \<Rightarrow> string option \<Rightarrow> string \<Rightarrow> pairing_db \<Rightarrow> pairing_db \<times> (app_error + auth_response)" where
  "pair_route dp cfg d header body_code db =
    (let code = normalise_code body_code in
     case val_finish (val_check ''code'' (pairing_code code) val_new) of
       Inl _ \<Rightarrow> (db, Inl Unauthorized)
     | Inr _ \<Rightarrow>
       (case pg_consume (dr_now d) (hash_code (dp_sha256 dp) code) (pd_codes db) of
          (t, None) \<Rightarrow> (db\<lparr>pd_codes := t\<rparr>, Inl Unauthorized)
        | (t, Some consumed) \<Rightarrow>
          (let db1 = db\<lparr>pd_codes := t\<rparr> in
           case users_find_by_discord_id (ad_users (pd_auth db1)) (cc_discord_user_id consumed) of
             None \<Rightarrow> (db1, Inl (Internal ''codigo consumido sem usuario correspondente''))
           | Some user \<Rightarrow>
             (case issue_session dp cfg (d\<lparr>dr_user_agent := user_agent header\<rparr>) user (pd_auth db1) of
                (au, r) \<Rightarrow> (db1\<lparr>pd_auth := au\<rparr>, r)))))"

definition refresh_route ::
  "auth_deps \<Rightarrow> auth_config \<Rightarrow> draws \<Rightarrow> string option \<Rightarrow> string \<Rightarrow> auth_db \<Rightarrow> rot_phase \<times> auth_db" where
  "refresh_route dp cfg d header refresh_token db =
     rotate_refresh dp cfg refresh_token (d\<lparr>dr_user_agent := user_agent header\<rparr>) db"

text \<open>\<^verbatim>\<open>POST /auth/logout\<close> answers 204 whatever the token was.\<close>

definition logout_route :: "auth_deps \<Rightarrow> instant \<Rightarrow> string \<Rightarrow> auth_db \<Rightarrow> auth_db \<times> (app_error + nat)" where
  "logout_route dp now refresh_token db = (revoke_session dp now refresh_token db, Inr 204)"

definition me_route :: "auth_db \<Rightarrow> uuid \<Rightarrow> app_error + current_user" where
  "me_route db caller =
    (case users_find_by_id (ad_users db) caller of Inl e \<Rightarrow> Inl (app_of_db e) | Inr user \<Rightarrow> Inr (user_to_current user))"

section \<open>The jobs\<close>

definition token_cleanup_tick :: "instant \<Rightarrow> auth_db \<Rightarrow> auth_db" where
  "token_cleanup_tick now db = db\<lparr>ad_refresh := fst (rt_delete_expired now 7 (ad_refresh db))\<rparr>"

definition pairing_cleanup_tick :: "instant \<Rightarrow> pairing_db \<Rightarrow> pairing_db" where
  "pairing_cleanup_tick now db = db\<lparr>pd_codes := fst (pg_delete_expired now (pd_codes db))\<rparr>"

section \<open>The table's laws\<close>

definition pg_ok :: "pairing_codes \<Rightarrow> bool" where
  "pg_ok t \<longleftrightarrow> distinct (map pg_id t) \<and> distinct (map pg_code_hash t)"

definition pg_pending :: "pairing_codes \<Rightarrow> string set" where
  "pg_pending t = pg_code_hash ` {r \<in> set t. pg_consumed_at r = None}"

lemma pg_consume_keys [simp]:
  "map pg_id (fst (pg_consume now h t)) = map pg_id t"
  "map pg_code_hash (fst (pg_consume now h t)) = map pg_code_hash t"
  "map pg_discord_user_id (fst (pg_consume now h t)) = map pg_discord_user_id t"
  "map pg_created_at (fst (pg_consume now h t)) = map pg_created_at t"
  by (simp_all add: pg_consume_def)

lemma pg_consume_None_iff: "snd (pg_consume now h t) = None \<longleftrightarrow> (\<forall>r \<in> set t. \<not> redeemable now h r)"
  by (auto simp: pg_consume_def find_None_iff)

lemma pg_consume_lost: "snd (pg_consume now h t) = None \<Longrightarrow> fst (pg_consume now h t) = t"
  by (auto simp: pg_consume_def find_None_iff intro!: map_idI)

lemma pg_pending_consume: "pg_pending (fst (pg_consume now h t)) \<subseteq> pg_pending t"
  by (auto simp: pg_pending_def pg_consume_def split: if_splits)

lemma pg_consume_spent:
  assumes "pg_ok t" and "snd (pg_consume now h t) \<noteq> None"
  shows "h \<in> pg_pending t" and "h \<notin> pg_pending (fst (pg_consume now h t))"
proof -
  obtain r where r: "r \<in> set t" "redeemable now h r"
    using assms(2) by (auto simp: pg_consume_None_iff)
  then show "h \<in> pg_pending t" by (auto simp: pg_pending_def redeemable_def)
  have "q = r" if "q \<in> set t" "pg_code_hash q = h" for q
    using that r assms(1) by (auto simp: pg_ok_def distinct_map inj_on_def redeemable_def)
  with r show "h \<notin> pg_pending (fst (pg_consume now h t))"
    by (auto simp: pg_pending_def pg_consume_def split: if_splits)
qed

lemma pg_consume_ok [simp]: "pg_ok (fst (pg_consume now h t)) = pg_ok t"
  by (simp add: pg_ok_def)

lemma pg_insert_ok: "pg_ok t \<Longrightarrow> pg_insert now i h u g e t = Inr t' \<Longrightarrow> pg_ok t'"
  by (auto simp: pg_insert_def pg_ok_def split: if_splits)

lemma pg_delete_ok: "pg_ok t \<Longrightarrow> pg_ok (fst (pg_delete_expired now t))"
  by (simp add: pg_ok_def pg_delete_expired_def Let_def distinct_map_filter)

interpretation codes: single_use pg_ok pg_pending "\<lambda>h. h" "\<lambda>now h t. (fst (pg_consume now h t), snd (pg_consume now h t) \<noteq> None)"
  by unfold_locales (simp_all add: pg_consume_spent pg_pending_consume)

section \<open>Pairing\<close>

lemma val_finish_check: "val_finish (val_check f r val_new) = Inr () \<longleftrightarrow> r = Inr ()"
  by (simp add: val_check_collects) (simp add: val_finish_def val_new_def)

lemma pair_route_malformed:
  "pairing_code (normalise_code body) \<noteq> Inr () \<Longrightarrow> pair_route dp cfg d header body db = (db, Inl Unauthorized)"
  using val_finish_check [of "''code''" "pairing_code (normalise_code body)"]
  by (cases "val_finish (val_check ''code'' (pairing_code (normalise_code body)) val_new)")
    (auto simp: pair_route_def Let_def)

lemma pair_route_wellformed:
  assumes "pairing_code (normalise_code body) = Inr ()"
  shows "pair_route dp cfg d header body db =
    (case pg_consume (dr_now d) (hash_code (dp_sha256 dp) (normalise_code body)) (pd_codes db) of
       (t, None) \<Rightarrow> (db\<lparr>pd_codes := t\<rparr>, Inl Unauthorized)
     | (t, Some consumed) \<Rightarrow>
       (case users_find_by_discord_id (ad_users (pd_auth db)) (cc_discord_user_id consumed) of
          None \<Rightarrow> (db\<lparr>pd_codes := t\<rparr>, Inl (Internal ''codigo consumido sem usuario correspondente''))
        | Some user \<Rightarrow>
          (case issue_session dp cfg (d\<lparr>dr_user_agent := user_agent header\<rparr>) user (pd_auth db) of
             (au, r) \<Rightarrow> (db\<lparr>pd_codes := t, pd_auth := au\<rparr>, r))))"
  using assms val_finish_check [of "''code''" "Inr ()"] by (simp add: pair_route_def Let_def cong: option.case_cong)

text \<open>
  Every way a code can be bad answers the same and changes nothing: when the text typed is not shaped like a
  code, or no row has its digest, or that row is spent or expired, \<^verbatim>\<open>POST /auth/pair\<close> is \<^verbatim>\<open>Unauthorized\<close>; and it
  is never \<^verbatim>\<open>Unauthorized\<close> otherwise.
\<close>
theorem pair_refusals_uniform:
  "pair_route dp cfg d header body db = (db, Inl Unauthorized) \<longleftrightarrow>
     pairing_code (normalise_code body) \<noteq> Inr () \<or>
     (\<forall>r \<in> set (pd_codes db). \<not> redeemable (dr_now d) (hash_code (dp_sha256 dp) (normalise_code body)) r)"
proof (cases "pairing_code (normalise_code body) = Inr ()")
  case True
  let ?h = "hash_code (dp_sha256 dp) (normalise_code body)"
  show ?thesis
  proof (cases "snd (pg_consume (dr_now d) ?h (pd_codes db))")
    case None
    then show ?thesis using True pg_consume_lost [OF None]
      by (cases "pg_consume (dr_now d) ?h (pd_codes db)") (auto simp: pair_route_wellformed pg_consume_None_iff [symmetric])
  next
    case (Some c)
    have "snd (pair_route dp cfg d header body db) \<noteq> Inl Unauthorized"
      using True Some
      by (cases "pg_consume (dr_now d) ?h (pd_codes db)")
        (auto simp: pair_route_wellformed issue_session_def issue_pair_def rt_insert_def Let_def issue_access_def
          split: option.split sum.split prod.split)
    then show ?thesis using True Some pg_consume_None_iff [of "dr_now d" ?h "pd_codes db"] by auto
  qed
qed (simp add: pair_route_malformed)

lemma pair_route_codes:
  "pd_codes (fst (pair_route dp cfg d header body db)) =
     (if pairing_code (normalise_code body) = Inr ()
      then fst (pg_consume (dr_now d) (hash_code (dp_sha256 dp) (normalise_code body)) (pd_codes db)) else pd_codes db)"
  using pair_route_malformed [of body] by (auto simp: pair_route_wellformed split: option.split prod.split)

lemma pair_route_won:
  assumes "isl (snd (pair_route dp cfg d header body db)) = False"
  shows "pairing_code (normalise_code body) = Inr () \<and>
    snd (pg_consume (dr_now d) (hash_code (dp_sha256 dp) (normalise_code body)) (pd_codes db)) \<noteq> None"
  using assms pair_route_malformed [of body dp cfg d header db]
  by (cases "pairing_code (normalise_code body) = Inr ()") (auto simp: pair_route_wellformed split: option.splits prod.splits)

text \<open>One request, as an attempt to spend a code.\<close>

definition pair_attempt :: "auth_deps \<Rightarrow> auth_config \<Rightarrow> draws \<times> string option \<Rightarrow> string \<Rightarrow> pairing_db \<Rightarrow> pairing_db \<times> bool" where
  "pair_attempt dp cfg rq body db =
     (case pair_route dp cfg (fst rq) (snd rq) body db of (db', r) \<Rightarrow> (db', \<not> isl r))"

interpretation pairing: single_use "\<lambda>db. pg_ok (pd_codes db)" "\<lambda>db. pg_pending (pd_codes db)"
    "\<lambda>body. hash_code (dp_sha256 dp) (normalise_code body)" "pair_attempt dp cfg"
  for dp cfg
proof unfold_locales
  fix db :: pairing_db and i :: "draws \<times> string option" and body :: string
  let ?h = "hash_code (dp_sha256 dp) (normalise_code body)"
  note attempt = pair_attempt_def case_prod_beta
  assume ok: "pg_ok (pd_codes db)"
  show "?h \<in> pg_pending (pd_codes db)" if "snd (pair_attempt dp cfg i body db)"
    by (rule pg_consume_spent(1) [OF ok, of "dr_now (fst i)"]) (use pair_route_won [of dp cfg "fst i" "snd i" body db] that in \<open>simp add: attempt\<close>)
  show "?h \<notin> pg_pending (pd_codes (fst (pair_attempt dp cfg i body db)))" if "snd (pair_attempt dp cfg i body db)"
    using pg_consume_spent(2) [OF ok] pair_route_won [of dp cfg "fst i" "snd i" body db] that by (simp add: attempt pair_route_codes)
  show "pg_pending (pd_codes (fst (pair_attempt dp cfg i body db))) \<subseteq> pg_pending (pd_codes db)"
    using pg_pending_consume by (simp add: attempt pair_route_codes)
  show "pg_ok (pd_codes (fst (pair_attempt dp cfg i body db)))"
    using ok by (simp add: attempt pair_route_codes)
qed

text \<open>
  C16.  A pairing code works once: whatever requests arrive at \<^verbatim>\<open>POST /auth/pair\<close>, in whatever order and at
  whatever times, at most one of those that present a given code, however it is typed, opens a session.
\<close>
theorem pairing_code_single_use:
  assumes "pg_ok (pd_codes db)"
  shows "wins (\<lambda>body. hash_code (dp_sha256 dp) (normalise_code body)) h as
    (attempts (pair_attempt dp cfg) as db) \<le> 1"
  by (rule pairing.at_most_one_win [OF assms])

section \<open>From the slash command to a session\<close>

lemma handle_issued:
  assumes "handle_command sha cfg now d cmd db = (db', CodeIssued code minutes)"
  obtains guild where "ci_guild_id cmd = Some guild" "serves cfg guild"
    "\<not> dc_pairing_max_per_hour cfg \<le> recent_request_count (ci_user_id cmd) (now - seconds 3600) (pd_codes db)"
    "ad_users (pd_auth db') = fst (users_upsert_from_discord now (is_user d) (ci_user_id cmd) (ci_user_name cmd)
       (ci_global_name cmd) (ci_avatar_url cmd) (ad_users (pd_auth db)))"
    "ad_refresh (pd_auth db') = ad_refresh (pd_auth db)" "code = generate_code (is_code d)"
    "pg_insert now (is_row d) (hash_code sha code) (ci_user_id cmd) guild
       (now + seconds (sint (of_int (dc_pairing_code_ttl_seconds cfg) :: i64))) (pd_codes db) = Inr (pd_codes db')"
  using assms
  by (auto simp: handle_command_def build_reply_def Let_def ldk_conv split: option.splits sum.splits if_splits)

lemma pg_insert_redeemable:
  assumes "pg_insert now i h u g e t = Inr t'" and "later < e"
  shows "snd (pg_consume later h t') = Some \<lparr>cc_discord_user_id = u, cc_discord_guild_id = g\<rparr>"
proof -
  have "find (redeemable later h) t = None"
    using assms(1) by (force simp: pg_insert_def find_None_iff redeemable_def split: if_splits)
  then show ?thesis using assms
    by (auto simp: pg_insert_def pg_consume_def redeemable_def find_append split: if_splits)
qed

text \<open>
  C15.  A code the bot issued pairs the account that asked for it, once: until it expires, whoever types it, in any
  form that normalises to it, gets a session of the user of the Discord account that ran the command, and
  the next one to type it is refused.
\<close>
theorem issued_code_pairs_its_owner:
  assumes issued: "handle_command (dp_sha256 dp) cfg now i cmd db = (db', CodeIssued code minutes)"
    and ok: "pg_ok (pd_codes db)" "users_ok (ad_users (pd_auth db))"
    and draws: "draws_ok (is_code i)"
    and typed: "normalise_code body = code" and again: "normalise_code body2 = code"
    and time: "dr_now d < now + seconds (sint (of_int (dc_pairing_code_ttl_seconds cfg) :: i64))"
    and fresh: "dr_id d \<notin> set (map rf_id (ad_refresh (pd_auth db)))"
      "hash_refresh (dp_sha256 dp) (dr_secret d) \<notin> set (map rf_token_hash (ad_refresh (pd_auth db)))"
    and signs: "\<And>k c. dp_encode dp k c \<noteq> None"
  shows "\<exists>db'' r. pair_route dp acfg d header body db' = (db'', Inr r) \<and>
    us_discord_user_id (ars_user r) = ci_user_id cmd \<and> ars_refresh_token r = dr_secret d \<and>
    snd (pair_route dp acfg d2 header2 body2 db'') = Inl Unauthorized"
proof -
  let ?us = "fst (users_upsert_from_discord now (is_user i) (ci_user_id cmd) (ci_user_name cmd)
    (ci_global_name cmd) (ci_avatar_url cmd) (ad_users (pd_auth db)))"
  obtain guild where g: "ad_users (pd_auth db') = ?us" "ad_refresh (pd_auth db') = ad_refresh (pd_auth db)"
    "code = generate_code (is_code i)"
    "pg_insert now (is_row i) (hash_code (dp_sha256 dp) code) (ci_user_id cmd) guild
       (now + seconds (sint (of_int (dc_pairing_code_ttl_seconds cfg) :: i64))) (pd_codes db) = Inr (pd_codes db')"
    using issued by (rule handle_issued)
  have shaped: "pairing_code (normalise_code body) = Inr ()" "pairing_code (normalise_code body2) = Inr ()"
    using generate_valid [OF draws] typed again g(3) by simp_all
  obtain u where u: "users_find_by_discord_id ?us (ci_user_id cmd) = Some u" "ur_discord_user_id u = ci_user_id cmd"
    "hm_get ?us (ur_id u) = Some u"
    using users_upsert_found [OF ok(2)] by blast
  obtain t where won: "pg_consume (dr_now d) (hash_code (dp_sha256 dp) code) (pd_codes db') =
      (t, Some \<lparr>cc_discord_user_id = ci_user_id cmd, cc_discord_guild_id = guild\<rparr>)"
    using pg_insert_redeemable [OF g(4) time] by (cases "pg_consume (dr_now d) (hash_code (dp_sha256 dp) code) (pd_codes db')") simp
  obtain tok where tok: "issue_access (dp_encode dp) (dp_show_uuid dp) (dr_jti d) (au_jwt_signing_key acfg) (ur_id u)
      (au_access_token_ttl_seconds acfg) (dr_now d) = Inr (tok, dr_jti d)"
    using issue_access_total [where encode = "dp_encode dp", OF signs] by blast
  obtain db'' r where r: "pair_route dp acfg d header body db' = (db'', Inr r)" "us_discord_user_id (ars_user r) = ci_user_id cmd"
      "ars_refresh_token r = dr_secret d" "pd_codes db'' = t"
    using won u g tok fresh
    by (auto simp: pair_route_wellformed [OF shaped(1)] typed issue_session_def issue_pair_def rt_insert_def
        issue_refresh_def user_to_current_def Let_def)
  have "hash_code (dp_sha256 dp) code \<notin> pg_pending t"
    using pg_consume_spent(2) [OF pg_insert_ok [OF ok(1) g(4)], of "dr_now d" "hash_code (dp_sha256 dp) code"] won by simp
  then have "\<forall>q \<in> set (pd_codes db''). \<not> redeemable (dr_now d2) (hash_code (dp_sha256 dp) (normalise_code body2)) q"
    using r(4) again by (auto simp: pg_pending_def redeemable_def image_iff)
  then have "snd (pair_route dp acfg d2 header2 body2 db'') = Inl Unauthorized"
    using shaped(2) by (cases "pg_consume (dr_now d2) (hash_code (dp_sha256 dp) code) (pd_codes db'')")
      (auto simp: pair_route_wellformed again pg_consume_None_iff [symmetric])
  with r show ?thesis by blast
qed

section \<open>How many codes an account can ask for\<close>

datatype pairing_op =
    Ask instant issue_draws command_interaction
  | Redeem draws "string option" string
  | CleanUp instant

fun op_time :: "pairing_op \<Rightarrow> instant" where
  "op_time (Ask now d cmd) = now"
| "op_time (Redeem d header body) = dr_now d"
| "op_time (CleanUp now) = now"

text \<open>A run of the service, with the account and the time of every code it issued.\<close>

fun pairing_run ::
  "auth_deps \<Rightarrow> auth_config \<Rightarrow> discord_config \<Rightarrow> pairing_op list \<Rightarrow> pairing_db \<Rightarrow> pairing_db \<times> (u64 \<times> instant) list" where
  "pairing_run dp acfg cfg [] db = (db, [])"
| "pairing_run dp acfg cfg (Ask now d cmd # ops) db =
     (case handle_command (dp_sha256 dp) cfg now d cmd db of
        (db1, r) \<Rightarrow> (case pairing_run dp acfg cfg ops db1 of
          (db2, log) \<Rightarrow> (db2, (case r of CodeIssued _ _ \<Rightarrow> (ci_user_id cmd, now) # log | _ \<Rightarrow> log))))"
| "pairing_run dp acfg cfg (Redeem d header body # ops) db =
     pairing_run dp acfg cfg ops (fst (pair_route dp acfg d header body db))"
| "pairing_run dp acfg cfg (CleanUp now # ops) db = pairing_run dp acfg cfg ops (pairing_cleanup_tick now db)"

definition issued_in :: "u64 \<Rightarrow> instant \<Rightarrow> instant \<Rightarrow> (u64 \<times> instant) list \<Rightarrow> nat" where
  "issued_in user from until log = length (filter (\<lambda>(u, t). u = user \<and> from < t \<and> t \<le> until) log)"

text \<open>What the table remembers of the codes issued.\<close>

definition request_log :: "pairing_codes \<Rightarrow> (u64 \<times> instant) list" where
  "request_log t = map (\<lambda>r. (pg_discord_user_id r, pg_created_at r)) t"

lemma request_log_redeem: "request_log (pd_codes (fst (pair_route dp cfg d header body db))) = request_log (pd_codes db)"
  by (auto simp: pair_route_codes request_log_def pg_consume_def)

lemma recent_count_log:
  "recent_request_count user since t = int (length (filter (\<lambda>(u, c). u = user \<and> since < c) (request_log t)))"
  by (simp add: recent_request_count_def request_log_def filter_map o_def case_prod_beta)

lemma insert_log: "pg_insert now i h u g e t = Inr t' \<Longrightarrow> request_log t' = request_log t @ [(u, now)]"
  by (auto simp: pg_insert_def request_log_def split: if_splits)

lemma ask_refused:
  "handle_command sha cfg now d cmd db = (db', r) \<Longrightarrow> (\<And>c m. r \<noteq> CodeIssued c m) \<Longrightarrow> pd_codes db' = pd_codes db"
  by (auto simp: handle_command_def build_reply_def Let_def split: option.splits sum.splits if_splits)

lemma ask_log:
  assumes "handle_command sha cfg now d cmd db = (db', r)"
  shows "case r of
      CodeIssued c m \<Rightarrow> request_log (pd_codes db') = request_log (pd_codes db) @ [(ci_user_id cmd, now)] \<and>
        recent_request_count (ci_user_id cmd) (now - seconds 3600) (pd_codes db) < dc_pairing_max_per_hour cfg
    | _ \<Rightarrow> request_log (pd_codes db') = request_log (pd_codes db)"
proof (cases "\<exists>c m. r = CodeIssued c m")
  case True
  then obtain c m where r: "r = CodeIssued c m" by blast
  with assms have "handle_command sha cfg now d cmd db = (db', CodeIssued c m)" by simp
  then show ?thesis by (rule handle_issued) (simp add: r insert_log)
next
  case False
  then have "pd_codes db' = pd_codes db" using ask_refused [OF assms] by blast
  with False show ?thesis by (auto split: reply.split)
qed

text \<open>No window of an hour holds more codes of one account than the limit, and none is in the future.\<close>

definition within_limit :: "int \<Rightarrow> instant \<Rightarrow> (u64 \<times> instant) list \<Rightarrow> bool" where
  "within_limit cap now log \<longleftrightarrow> (\<forall>x \<in> set log. snd x \<le> now) \<and>
     (\<forall>user w. int (issued_in user w (w + seconds 3600) log) \<le> max 0 cap)"

lemma within_limit_later: "within_limit cap now log \<Longrightarrow> now \<le> later \<Longrightarrow> within_limit cap later log"
  by (auto simp: within_limit_def intro: order_trans)

lemma length_filter_imp:
  "(\<And>x. x \<in> set xs \<Longrightarrow> P x \<Longrightarrow> Q x) \<Longrightarrow> length (filter P xs) \<le> length (filter Q xs)"
proof (induction xs)
  case (Cons x xs)
  have "length (filter P xs) \<le> length (filter Q xs)" by (rule Cons.IH) (simp add: Cons.prems)
  then show ?case using Cons.prems [of x] by auto
qed simp

lemma within_limit_issue:
  assumes inv: "within_limit cap now log"
    and room: "int (length (filter (\<lambda>(u, c). u = user \<and> now - seconds 3600 < c) log)) < cap"
  shows "within_limit cap now (log @ [(user, now)])"
  unfolding within_limit_def
proof (intro conjI allI)
  show "\<forall>x \<in> set (log @ [(user, now)]). snd x \<le> now" using inv by (auto simp: within_limit_def)
  fix v w
  have old: "int (issued_in v w (w + seconds 3600) log) \<le> max 0 cap" using inv by (simp add: within_limit_def)
  show "int (issued_in v w (w + seconds 3600) (log @ [(user, now)])) \<le> max 0 cap"
  proof (cases "v = user \<and> w < now \<and> now \<le> w + seconds 3600")
    case True
    have "issued_in v w (w + seconds 3600) log \<le> length (filter (\<lambda>(u, c). u = user \<and> now - seconds 3600 < c) log)"
      unfolding issued_in_def by (rule length_filter_imp) (use True in \<open>simp add: case_prod_beta\<close>)
    with True room show ?thesis by (simp add: issued_in_def)
  next
    case False
    with old show ?thesis by (auto simp: issued_in_def)
  qed
qed

fun no_cleanup :: "pairing_op \<Rightarrow> bool" where
  "no_cleanup (CleanUp now) = False"
| "no_cleanup op = True"

lemma run_within_limit:
  assumes "sorted (map op_time ops)" and "list_all no_cleanup ops" and "within_limit (dc_pairing_max_per_hour cfg) t (request_log (pd_codes db))"
    and "\<forall>op \<in> set ops. t \<le> op_time op"
  shows "\<exists>t'. within_limit (dc_pairing_max_per_hour cfg) t' (request_log (pd_codes db) @ snd (pairing_run dp acfg cfg ops db))"
  using assms
proof (induction ops arbitrary: t db)
  case (Cons op ops)
  note IH = Cons.IH [where t = "op_time op"]
  have now: "within_limit (dc_pairing_max_per_hour cfg) (op_time op) (request_log (pd_codes db))"
    using Cons.prems by (auto intro: within_limit_later)
  have rest: "sorted (map op_time ops)" "list_all no_cleanup ops" "\<forall>o' \<in> set ops. op_time op \<le> op_time o'"
    using Cons.prems by auto
  show ?case
  proof (cases op)
    case (Ask now d cmd)
    obtain db1 r where h: "handle_command (dp_sha256 dp) cfg now d cmd db = (db1, r)" by fastforce
    obtain log db2 where run: "pairing_run dp acfg cfg ops db1 = (db2, log)" by fastforce
    note step = ask_log [OF h]
    show ?thesis
    proof (cases r)
      case (CodeIssued c m)
      then have "within_limit (dc_pairing_max_per_hour cfg) now (request_log (pd_codes db1))"
        using step within_limit_issue [OF now, of "ci_user_id cmd"] Ask by (simp add: recent_count_log)
      from IH [OF rest(1,2) _ rest(3), of db1] this show ?thesis
        using step Ask CodeIssued h run by simp
    qed (use IH [OF rest(1,2) _ rest(3), of db1] now step Ask h run in simp_all)
  next
    case (Redeem d header body)
    then show ?thesis
      using IH [OF rest(1,2) _ rest(3), of "fst (pair_route dp acfg d header body db)"] now
      by (simp add: request_log_redeem)
  next
    case (CleanUp now)
    then show ?thesis using Cons.prems(2) by simp
  qed
qed auto

text \<open>
  The issuance limit holds while nothing is cleaned up: whatever is asked and redeemed from an empty table on,
  no account gets more than the configured number of codes in any window of an hour, wherever the
  window starts.
\<close>
theorem issuance_limit:
  assumes "sorted (map op_time ops)" and "list_all no_cleanup ops" and "pd_codes db = []"
  shows "int (issued_in user w (w + seconds 3600) (snd (pairing_run dp acfg cfg ops db))) \<le> max 0 (dc_pairing_max_per_hour cfg)"
proof (cases ops)
  case Nil
  then show ?thesis by (simp add: issued_in_def)
next
  case (Cons op rest)
  have "within_limit (dc_pairing_max_per_hour cfg) (op_time op) (request_log (pd_codes db))"
    using assms(3) by (simp add: within_limit_def request_log_def issued_in_def)
  from run_within_limit [OF assms(1,2) this, of dp acfg] assms(1,3) Cons show ?thesis
    by (auto simp: within_limit_def request_log_def)
qed

section \<open>A sample run\<close>

definition sample_pairing_config :: discord_config where
  "sample_pairing_config = \<lparr>dc_bot_token = ''t'', dc_replica_grace_seconds = 60, dc_pairing_code_ttl_seconds = 300,
     dc_pairing_max_per_hour = 1, dc_allowed_guilds = None\<rparr>"

definition sample_command :: command_interaction where
  "sample_command = \<lparr>ci_guild_id = Some 5, ci_user_id = 2, ci_user_name = ''ana'', ci_global_name = None, ci_avatar_url = None\<rparr>"

definition sample_issue :: "uuid \<Rightarrow> nat \<Rightarrow> issue_draws" where
  "sample_issue row k = \<lparr>is_user = 7, is_row = row, is_code = [k, 1, 2, 3, 4, 5, 6, 7]\<rparr>"

definition sample_pairing_db :: pairing_db where
  "sample_pairing_db = \<lparr>pd_auth = \<lparr>ad_users = [], ad_refresh = []\<rparr>, pd_codes = []\<rparr>"

definition sample_issued_db :: pairing_db where
  "sample_issued_db = fst (handle_command (dp_sha256 sample_deps) sample_pairing_config 0 (sample_issue 1 0) sample_command sample_pairing_db)"

lemma sample_issued:
  "handle_command (dp_sha256 sample_deps) sample_pairing_config 0 (sample_issue 1 0) sample_command sample_pairing_db =
     (sample_issued_db, CodeIssued (generate_code (is_code (sample_issue 1 0))) 5)"
  by (simp add: sample_issued_db_def handle_command_def build_reply_def sample_command_def sample_pairing_config_def
      sample_pairing_db_def sample_issue_def serves_def i64_try_from_def recent_request_count_def pg_insert_def Let_def)

lemma sample_typed: "normalise_code '' abcdefgh'' = generate_code (is_code (sample_issue 1 0))"
  by code_simp

text \<open>
  The clean-up job defeats the issuance limit: with one code an hour allowed, an account that redeems its code
  gets another one as soon as the hourly job has deleted the spent row, here 30 ns after the first.
\<close>
theorem cleanup_defeats_limit:
  "snd (pairing_run sample_deps sample_auth_config sample_pairing_config
      [Ask 0 (sample_issue 1 0) sample_command, Redeem (sample_draws 2 ''b'') None '' abcdefgh'', CleanUp 20,
       Ask 30 (sample_issue 3 8) sample_command] sample_pairing_db) = [(2, 0), (2, 30)]"
  by code_simp

theorem issued_code_pairs_its_owner_witness:
  "\<exists>db r. pair_route sample_deps sample_auth_config (sample_draws 2 ''b'') None '' abcdefgh'' sample_issued_db = (db, Inr r) \<and>
     us_discord_user_id (ars_user r) = 2 \<and>
     snd (pair_route sample_deps sample_auth_config (sample_draws 3 ''c'') None '' abcdefgh'' db) = Inl Unauthorized"
proof -
  have ok: "pg_ok (pd_codes sample_pairing_db)" "users_ok (ad_users (pd_auth sample_pairing_db))"
    by (simp_all add: pg_ok_def sample_pairing_db_def users_ok_def)
  have d: "draws_ok (is_code (sample_issue 1 0))"
    by (simp add: draws_ok_def sample_issue_def PAIRING_CODE_LEN_def alphabet_length)
  have t: "dr_now (sample_draws 2 ''b'') < 0 + seconds (sint (of_int (dc_pairing_code_ttl_seconds sample_pairing_config) :: i64))"
    by (simp add: sample_draws_def sample_pairing_config_def seconds_def NANOS_def)
  have f: "dr_id (sample_draws 2 ''b'') \<notin> set (map rf_id (ad_refresh (pd_auth sample_pairing_db)))"
    "hash_refresh (dp_sha256 sample_deps) (dr_secret (sample_draws 2 ''b'')) \<notin> set (map rf_token_hash (ad_refresh (pd_auth sample_pairing_db)))"
    by (simp_all add: sample_pairing_db_def)
  have e: "dp_encode sample_deps k c \<noteq> None" for k c by (simp add: sample_deps_def)
  show ?thesis
    using issued_code_pairs_its_owner [OF sample_issued ok d sample_typed sample_typed t f e,
        of sample_auth_config None "sample_draws 3 ''c''" None]
    by (auto simp: sample_command_def)
qed

definition sample_attempts :: "((draws \<times> string option) \<times> string) list" where
  "sample_attempts = [((sample_draws 2 ''b'', None), '' abcdefgh''), ((sample_draws 3 ''c'', None), ''abcdefgh'')]"

theorem pairing_code_single_use_witness:
  "wins (\<lambda>body. hash_code (dp_sha256 sample_deps) (normalise_code body))
     (hash_code (dp_sha256 sample_deps) (generate_code (is_code (sample_issue 1 0)))) sample_attempts
     (attempts (pair_attempt sample_deps sample_auth_config) sample_attempts sample_issued_db) \<le> 1"
proof -
  have "pg_ok (pd_codes sample_issued_db)"
    by (simp add: pg_ok_def sample_issued_db_def handle_command_def build_reply_def sample_command_def sample_pairing_config_def
      sample_pairing_db_def sample_issue_def serves_def i64_try_from_def recent_request_count_def pg_insert_def Let_def)
  then show ?thesis by (rule pairing_code_single_use)
qed

theorem issuance_limit_witness:
  "int (issued_in 2 (- 1) (- 1 + seconds 3600) (snd (pairing_run sample_deps sample_auth_config sample_pairing_config
      [Ask 0 (sample_issue 1 0) sample_command, Redeem (sample_draws 2 ''b'') None '' abcdefgh'',
       Ask 30 (sample_issue 3 8) sample_command] sample_pairing_db))) \<le> 1"
proof -
  let ?ops = "[Ask 0 (sample_issue 1 0) sample_command, Redeem (sample_draws 2 ''b'') None '' abcdefgh'', Ask 30 (sample_issue 3 8) sample_command]"
  have "sorted (map op_time ?ops)" "list_all no_cleanup ?ops" by (simp_all add: sample_draws_def)
  from issuance_limit [OF this, of sample_pairing_db 2 "- 1" sample_deps sample_auth_config sample_pairing_config]
  show ?thesis by (simp add: sample_pairing_db_def sample_pairing_config_def)
qed

text \<open>The daily job never drops a token that still works.\<close>

lemma token_cleanup_keeps_live:
  "now \<le> later \<Longrightarrow> live_tokens later (ad_refresh (token_cleanup_tick now db)) = live_tokens later (ad_refresh db)"
  by (auto simp: live_tokens_def token_cleanup_tick_def rt_delete_expired_def Let_def is_usable_def days_def NANOS_def image_iff)

lemma pairing_cleanup_keeps_live:
  "now \<le> later \<Longrightarrow> r \<in> set (pd_codes db) \<Longrightarrow> redeemable later h r \<Longrightarrow> r \<in> set (pd_codes (pairing_cleanup_tick now db))"
  by (auto simp: pairing_cleanup_tick_def pg_delete_expired_def Let_def redeemable_def)

theorem pair_refusals_uniform_witness:
  "pair_route sample_deps sample_auth_config (sample_draws 2 ''b'') None ''abc'' sample_pairing_db = (sample_pairing_db, Inl Unauthorized)"
proof -
  have "pairing_code (normalise_code ''abc'') \<noteq> Inr ()" by code_simp
  then show ?thesis
    using pair_refusals_uniform [of sample_deps sample_auth_config "sample_draws 2 ''b''" None "''abc''" sample_pairing_db] by blast
qed

end
