(* ===== verification/Bot_Revoke.thy ===== *)
theory Bot_Revoke
  imports Rooms_Service
begin

text \<open>
  \<^verbatim>\<open>crates/bot/src/revoke.rs\<close>: the sweeps that put out of a room whoever lost access to it in Discord.  What LiveKit
  is asked to do is the second half of the state, the list of the removals asked for; its answer is only
  logged.  The specification is \<open>entitled\<close>: whether the replica still lets a person into a room.
\<close>

section \<open>The sweeps\<close>

type_synonym removals = "(i64 \<times> uuid) list"

definition evict :: "i64 \<Rightarrow> uuid \<Rightarrow> app_state \<times> removals \<Rightarrow> app_state \<times> removals" where
  "evict ch u x =
    (case x of (s, calls) \<Rightarrow>
      (let s1 = s\<lparr>ap_presence := fst (presence_leave u (ap_presence s))\<rparr>
       in (s1\<lparr>ap_hub := publish_to_user u (RoomLeave ch AccessRevoked) (ap_hub s1)\<rparr>, calls @ [(ch, u)])))"

definition sweep_channel :: "i64 \<Rightarrow> app_state \<times> removals \<Rightarrow> app_state \<times> removals" where
  "sweep_channel ch x =
    (let participants = list_by_channel (ap_users (fst x)) (ap_presence (fst x)) ch in
     if participants = [] then x
     else case u64_try_from ch of
       None \<Rightarrow> x
     | Some channel \<Rightarrow>
         fold (\<lambda>p x. case u64_try_from (pa_discord_user_id p) of
                 None \<Rightarrow> x
               | Some discord_user \<Rightarrow>
                   if may_join (ap_replica (fst x)) discord_user channel then x else evict ch (pa_user_id p) x)
           participants x)"

definition sweep_guild :: "u64 \<Rightarrow> app_state \<times> removals \<Rightarrow> app_state \<times> removals" where
  "sweep_guild guild x =
     fold (\<lambda>ch x. case u64_try_from ch of
             None \<Rightarrow> x
           | Some i \<Rightarrow>
               (case channel_info (ap_replica (fst x)) i of
                  Some (g, _) \<Rightarrow> if g = guild then sweep_channel ch x else x
                | None \<Rightarrow> x))
       (occupied_channels (ap_presence (fst x))) x"

section \<open>What a sweep does\<close>

definition entitled :: "app_state \<Rightarrow> i64 \<Rightarrow> uuid \<Rightarrow> bool" where
  "entitled s ch u =
    (case hm_get (ap_users s) u of
       None \<Rightarrow> True
     | Some w \<Rightarrow>
       (case (u64_try_from (ur_discord_user_id w), u64_try_from ch) of
          (Some d, Some c) \<Rightarrow> may_join (ap_replica s) d c
        | _ \<Rightarrow> True))"

definition evictees :: "app_state \<Rightarrow> i64 \<Rightarrow> uuid list" where
  "evictees s ch = filter (\<lambda>u. \<not> entitled s ch u) (room_members s ch)"

lemma evict_simps [simp]:
  "ap_replica (fst (evict ch u x)) = ap_replica (fst x)" "ap_users (fst (evict ch u x)) = ap_users (fst x)"
  "ap_shares (fst (evict ch u x)) = ap_shares (fst x)" "ap_grants (fst (evict ch u x)) = ap_grants (fst x)"
  "ap_presence (fst (evict ch u x)) = hm_remove u (ap_presence (fst x))"
  "ap_hub (fst (evict ch u x)) = publish_to_user u (RoomLeave ch AccessRevoked) (ap_hub (fst x))"
  "snd (evict ch u x) = snd x @ [(ch, u)]"
  by (simp_all add: evict_def Let_def case_prod_beta presence_leave_def)

lemma evict_all:
  "ap_replica (fst (fold (evict ch) us x)) = ap_replica (fst x)"
  "ap_users (fst (fold (evict ch) us x)) = ap_users (fst x)"
  "ap_shares (fst (fold (evict ch) us x)) = ap_shares (fst x)"
  "ap_grants (fst (fold (evict ch) us x)) = ap_grants (fst x)"
  "hm_get (ap_presence (fst (fold (evict ch) us x))) u = (if u \<in> set us then None else hm_get (ap_presence (fst x)) u)"
  "hm_ok (ap_presence (fst x)) \<Longrightarrow> hm_ok (ap_presence (fst (fold (evict ch) us x)))"
  "ap_hub (fst (fold (evict ch) us x)) = publish_to_users us (RoomLeave ch AccessRevoked) (ap_hub (fst x))"
  "snd (fold (evict ch) us x) = snd x @ map (Pair ch) us"
  by (induction us arbitrary: x) (simp_all add: publish_to_users_def publish_to_user_def)

lemma participant_entitled:
  assumes "p \<in> set (list_by_channel (ap_users s) (ap_presence s) ch)" and "u64_try_from ch = Some c"
  shows "entitled s ch (pa_user_id p) \<longleftrightarrow>
    (case u64_try_from (pa_discord_user_id p) of None \<Rightarrow> True | Some d \<Rightarrow> may_join (ap_replica s) d c)"
  using assms
  by (auto simp: list_by_channel_def map_filter_def participant_of_def entitled_def split: option.splits)

text \<open>A sweep is the eviction of the \<open>evictees\<close>, in the order of the room.\<close>

lemma sweep_channel_evicts: "sweep_channel ch x = fold (evict ch) (evictees (fst x) ch) x"
proof (cases "u64_try_from ch")
  case None
  then have "evictees (fst x) ch = []"
    by (simp add: evictees_def entitled_def filter_empty_conv split: option.split)
  with None show ?thesis by (simp add: sweep_channel_def Let_def)
next
  case (Some c)
  let ?step = "\<lambda>p x. case u64_try_from (pa_discord_user_id p) of None \<Rightarrow> x
      | Some d \<Rightarrow> if may_join (ap_replica (fst x)) d c then x else evict ch (pa_user_id p) x"
  have step: "fold ?step ps y = fold (evict ch) (filter (\<lambda>u. \<not> entitled (fst x) ch u) (map pa_user_id ps)) y"
    if "set ps \<subseteq> set (list_by_channel (ap_users (fst x)) (ap_presence (fst x)) ch)" "ap_replica (fst y) = ap_replica (fst x)" for ps y
    using that
  proof (induction ps arbitrary: y)
    case (Cons p ps)
    have p: "entitled (fst x) ch (pa_user_id p) \<longleftrightarrow>
        (case u64_try_from (pa_discord_user_id p) of None \<Rightarrow> True | Some d \<Rightarrow> may_join (ap_replica (fst y)) d c)"
      using participant_entitled [OF _ Some, of p "fst x"] Cons.prems by (simp cong: option.case_cong)
    show ?case
      using Cons.IH [of y] Cons.IH [of "evict ch (pa_user_id p) y"] Cons.prems p by (auto split: option.split)
  qed simp
  show ?thesis
    using step [of "list_by_channel (ap_users (fst x)) (ap_presence (fst x)) ch" x] Some
    by (simp add: sweep_channel_def Let_def evictees_def room_members_def)
qed

lemma in_room_members:
  "hm_ok (ap_presence s) \<Longrightarrow> u \<in> set (room_members s ch) \<longleftrightarrow>
     channel_of (ap_presence s) u = Some ch \<and> hm_get (ap_users s) u \<noteq> None"
  by (force simp: room_members_def list_by_channel_def map_filter_def participant_of_def channel_of_def
      hm_in_items_iff [symmetric] image_iff split: option.splits)

lemma entitled_known: "\<not> entitled s ch u \<Longrightarrow> hm_get (ap_users s) u \<noteq> None"
  by (auto simp: entitled_def split: option.splits)

lemma in_evictees:
  "hm_ok (ap_presence s) \<Longrightarrow> u \<in> set (evictees s ch) \<longleftrightarrow> channel_of (ap_presence s) u = Some ch \<and> \<not> entitled s ch u"
  using entitled_known [of s ch u] by (auto simp: evictees_def in_room_members)

lemma sweep_channel_effect:
  fixes ch x
  defines "y \<equiv> sweep_channel ch x"
  assumes ok: "hm_ok (ap_presence (fst x))"
  shows "hm_get (ap_presence (fst y)) u =
      (if channel_of (ap_presence (fst x)) u = Some ch \<and> \<not> entitled (fst x) ch u then None else hm_get (ap_presence (fst x)) u)"
    and "hm_ok (ap_presence (fst y))" and "entitled (fst y) = entitled (fst x)"
    and "ap_replica (fst y) = ap_replica (fst x)"
proof -
  have f: "ap_replica (fst y) = ap_replica (fst x)" "ap_users (fst y) = ap_users (fst x)"
    by (simp_all add: y_def sweep_channel_evicts evict_all)
  then show "ap_replica (fst y) = ap_replica (fst x)" "entitled (fst y) = entitled (fst x)"
    unfolding fun_eq_iff entitled_def f by simp_all
qed (use ok in \<open>simp_all add: y_def sweep_channel_evicts evict_all in_evictees\<close>)

text \<open>
  Sweeping a room puts out exactly who lost access: of the people in it, those the replica no longer lets in
  are taken out of the table, LiveKit is asked once to remove each, and the loss is queued once on each of
  their connected sessions and on no other; everyone else stays as they were.
\<close>
theorem sweep_channel_exact:
  assumes "hm_ok (ap_presence s)"
  shows "let (s', calls) = sweep_channel ch (s, []); out = evictees s ch
    in (\<forall>u. u \<in> set out \<longleftrightarrow> channel_of (ap_presence s) u = Some ch \<and> \<not> entitled s ch u) \<and>
       (\<forall>u. hm_get (ap_presence s') u = (if u \<in> set out then None else hm_get (ap_presence s) u)) \<and>
       calls = map (Pair ch) out \<and>
       map fst (delivered (ap_hub s) (ap_hub s')) =
         concat (map (\<lambda>u. concat (map (outbox_of (ap_hub s)) (sessions_of (ap_hub s) u))) out) \<and>
       list_all (\<lambda>(tx, f). is_event_frame (RoomLeave ch AccessRevoked) f) (delivered (ap_hub s) (ap_hub s'))"
proof -
  have d: "map fst (delivered (ap_hub s) (publish_to_users (evictees s ch) (RoomLeave ch AccessRevoked) (ap_hub s))) =
      concat (map (\<lambda>u. concat (map (outbox_of (ap_hub s)) (sessions_of (ap_hub s) u))) (evictees s ch)) \<and>
    list_all (\<lambda>(tx, f). is_event_frame (RoomLeave ch AccessRevoked) f)
      (delivered (ap_hub s) (publish_to_users (evictees s ch) (RoomLeave ch AccessRevoked) (ap_hub s)))"
    using publishes_delivered [OF publish_to_users_publishes] by blast
  have "ap_hub (fst (sweep_channel ch (s, []))) = publish_to_users (evictees s ch) (RoomLeave ch AccessRevoked) (ap_hub s)"
    "snd (sweep_channel ch (s, [])) = map (Pair ch) (evictees s ch)"
    by (simp_all add: sweep_channel_evicts evict_all)
  then show ?thesis
    using d in_evictees [OF assms] sweep_channel_effect(1) [of "(s, [])" ch] assms
    by (simp add: case_prod_beta Let_def)
qed

section \<open>Sweeping a guild\<close>

definition room_of_guild :: "replica \<Rightarrow> u64 \<Rightarrow> i64 \<Rightarrow> bool" where
  "room_of_guild r guild ch =
    (case u64_try_from ch of
       None \<Rightarrow> False
     | Some c \<Rightarrow> (case channel_info r c of Some (g, _) \<Rightarrow> g = guild | None \<Rightarrow> False))"

definition sweep_if :: "u64 \<Rightarrow> i64 \<Rightarrow> app_state \<times> removals \<Rightarrow> app_state \<times> removals" where
  "sweep_if guild ch x = (if room_of_guild (ap_replica (fst x)) guild ch then sweep_channel ch x else x)"

lemma sweep_guild_alt: "sweep_guild guild x = fold (sweep_if guild) (occupied_channels (ap_presence (fst x))) x"
proof -
  have "(\<lambda>ch x. case u64_try_from ch of None \<Rightarrow> x
          | Some i \<Rightarrow> (case channel_info (ap_replica (fst x)) i of
              Some (g, _) \<Rightarrow> if g = guild then sweep_channel ch x else x | None \<Rightarrow> x)) = sweep_if guild"
    by (auto simp: fun_eq_iff sweep_if_def room_of_guild_def split: option.split)
  then show ?thesis by (simp only: sweep_guild_def)
qed

lemma sweep_rooms_effect:
  assumes "hm_ok (ap_presence (fst x))"
  shows "hm_ok (ap_presence (fst (fold (sweep_if guild) chs x)))"
    and "entitled (fst (fold (sweep_if guild) chs x)) = entitled (fst x)"
    and "ap_replica (fst (fold (sweep_if guild) chs x)) = ap_replica (fst x)"
    and "hm_get (ap_presence (fst (fold (sweep_if guild) chs x))) u =
      (case channel_of (ap_presence (fst x)) u of
         Some ch \<Rightarrow> if ch \<in> set chs \<and> room_of_guild (ap_replica (fst x)) guild ch \<and> \<not> entitled (fst x) ch u then None
                   else hm_get (ap_presence (fst x)) u
       | None \<Rightarrow> None)"
proof -
  have "hm_ok (ap_presence (fst (fold (sweep_if guild) chs x))) \<and>
     entitled (fst (fold (sweep_if guild) chs x)) = entitled (fst x) \<and>
     ap_replica (fst (fold (sweep_if guild) chs x)) = ap_replica (fst x) \<and>
     hm_get (ap_presence (fst (fold (sweep_if guild) chs x))) u =
      (case channel_of (ap_presence (fst x)) u of
         Some ch \<Rightarrow> if ch \<in> set chs \<and> room_of_guild (ap_replica (fst x)) guild ch \<and> \<not> entitled (fst x) ch u then None
                   else hm_get (ap_presence (fst x)) u
       | None \<Rightarrow> None)"
    using assms
  proof (induction chs arbitrary: x)
    case Nil
    then show ?case by (simp add: channel_of_def split: option.split)
  next
    case (Cons ch chs)
    have e: "hm_ok (ap_presence (fst (sweep_if guild ch x)))" "entitled (fst (sweep_if guild ch x)) = entitled (fst x)"
      "ap_replica (fst (sweep_if guild ch x)) = ap_replica (fst x)"
      "hm_get (ap_presence (fst (sweep_if guild ch x))) u =
        (if channel_of (ap_presence (fst x)) u = Some ch \<and> room_of_guild (ap_replica (fst x)) guild ch \<and> \<not> entitled (fst x) ch u
         then None else hm_get (ap_presence (fst x)) u)"
      using sweep_channel_effect [OF Cons.prems] Cons.prems by (auto simp: sweep_if_def)
    show ?case
      using Cons.IH [OF e(1)] unfolding e(2,3) fold.simps o_apply
      by (auto simp: channel_of_def e(4) split: option.splits if_splits)
  qed
  then show "hm_ok (ap_presence (fst (fold (sweep_if guild) chs x)))"
    "entitled (fst (fold (sweep_if guild) chs x)) = entitled (fst x)"
    "ap_replica (fst (fold (sweep_if guild) chs x)) = ap_replica (fst x)"
    "hm_get (ap_presence (fst (fold (sweep_if guild) chs x))) u =
      (case channel_of (ap_presence (fst x)) u of
         Some ch \<Rightarrow> if ch \<in> set chs \<and> room_of_guild (ap_replica (fst x)) guild ch \<and> \<not> entitled (fst x) ch u then None
                   else hm_get (ap_presence (fst x)) u
       | None \<Rightarrow> None)" by blast+
qed

text \<open>What LiveKit is asked to do along the way.\<close>

lemma sweep_channel_removals:
  "hm_ok (ap_presence (fst x)) \<Longrightarrow> set (snd (sweep_channel ch x)) =
     set (snd x) \<union> {(c, u). c = ch \<and> channel_of (ap_presence (fst x)) u = Some ch \<and> \<not> entitled (fst x) ch u}"
  by (auto simp: sweep_channel_evicts evict_all in_evictees)

lemma sweep_rooms_removals:
  "hm_ok (ap_presence (fst x)) \<Longrightarrow> set (snd (fold (sweep_if guild) chs x)) =
     set (snd x) \<union> {(ch, u). ch \<in> set chs \<and> room_of_guild (ap_replica (fst x)) guild ch \<and>
        channel_of (ap_presence (fst x)) u = Some ch \<and> \<not> entitled (fst x) ch u}"
proof (induction chs arbitrary: x)
  case (Cons ch chs)
  note sweep = sweep_channel_effect [OF Cons.prems, of ch]
  have later: "channel_of (ap_presence (fst (sweep_if guild ch x))) u = Some c \<and> \<not> entitled (fst x) c u \<and> (c, u) \<notin> set (snd (sweep_if guild ch x)) \<longleftrightarrow>
      channel_of (ap_presence (fst x)) u = Some c \<and> \<not> entitled (fst x) c u \<and> (c, u) \<notin> set (snd (sweep_if guild ch x))" for c u
    using sweep(1) sweep_channel_removals [OF Cons.prems, of ch]
    by (auto simp: sweep_if_def channel_of_def split: option.splits if_splits)
  have frame: "hm_ok (ap_presence (fst (sweep_if guild ch x)))" "entitled (fst (sweep_if guild ch x)) = entitled (fst x)"
    "ap_replica (fst (sweep_if guild ch x)) = ap_replica (fst x)"
    using sweep(2-4) Cons.prems by (simp_all add: sweep_if_def)
  have here: "set (snd (sweep_if guild ch x)) = set (snd x) \<union> {(c, u). c = ch \<and> room_of_guild (ap_replica (fst x)) guild ch \<and>
      channel_of (ap_presence (fst x)) u = Some ch \<and> \<not> entitled (fst x) ch u}"
    using sweep_channel_removals [OF Cons.prems, of ch] by (auto simp: sweep_if_def)
  have "set (snd (fold (sweep_if guild) (ch # chs) x)) = set (snd (sweep_if guild ch x)) \<union>
      {(c, u). c \<in> set chs \<and> room_of_guild (ap_replica (fst x)) guild c \<and>
        channel_of (ap_presence (fst (sweep_if guild ch x))) u = Some c \<and> \<not> entitled (fst x) c u}"
    using Cons.IH [OF frame(1)] by (simp add: frame(2,3))
  also have "\<dots> = set (snd (sweep_if guild ch x)) \<union>
      {(c, u). c \<in> set chs \<and> room_of_guild (ap_replica (fst x)) guild c \<and>
        channel_of (ap_presence (fst x)) u = Some c \<and> \<not> entitled (fst x) c u}"
    using later by blast
  finally show ?case unfolding here by auto
qed simp

lemma occupied_iff: "hm_ok t \<Longrightarrow> ch \<in> set (occupied_channels t) \<longleftrightarrow> (\<exists>u. channel_of t u = Some ch)"
  using hm_get_in_values by (fastforce simp: occupied_channels_def hm_in_values_iff channel_of_def)

text \<open>
  Sweeping a guild leaves nobody in a room of it who may not be there: afterwards a person is out of the
  presence table exactly when they were in a room of that guild the replica no longer lets them into,
  and every other row is untouched.
\<close>
theorem sweep_guild_exact:
  assumes "hm_ok (ap_presence (fst x))"
  shows "hm_get (ap_presence (fst (sweep_guild guild x))) u =
    (case channel_of (ap_presence (fst x)) u of
       Some ch \<Rightarrow> if room_of_guild (ap_replica (fst x)) guild ch \<and> \<not> entitled (fst x) ch u then None
                 else hm_get (ap_presence (fst x)) u
     | None \<Rightarrow> None)"
  using sweep_rooms_effect(4) [OF assms] occupied_iff [OF assms]
  by (auto simp: sweep_guild_alt split: option.split)

section \<open>Witnesses\<close>

definition sample_row :: presence_row where
  "sample_row = \<lparr>pr_discord_channel_id = 900, pr_publishing = False, pr_joined_at = 0, pr_screen_since = None, pr_camera_since = None\<rparr>"

text \<open>Somebody is in the room and has just been removed from the guild.\<close>

definition sample_expelled :: app_state where
  "sample_expelled = sample_app\<lparr>ap_presence := [(7, sample_row)], ap_replica := remove_member 100 2 sample_replica\<rparr>"

lemma sample_expelled_facts:
  "hm_ok (ap_presence sample_expelled)" "evictees sample_expelled 900 = [7]" "\<not> entitled sample_expelled 900 7"
  "channel_of (ap_presence sample_expelled) 7 = Some 900" "room_of_guild (ap_replica sample_expelled) 100 900"
  by code_simp+

theorem sweep_channel_exact_witness:
  "hm_get (ap_presence (fst (sweep_channel 900 (sample_expelled, [])))) 7 = None \<and>
   snd (sweep_channel 900 (sample_expelled, [])) = [(900, 7)]"
  using sweep_channel_exact [OF sample_expelled_facts(1), of 900] sample_expelled_facts(2)
  by (simp add: case_prod_beta Let_def)

theorem sweep_guild_exact_witness:
  "hm_get (ap_presence (fst (sweep_guild 100 (sample_expelled, [])))) 7 = None"
  using sweep_guild_exact [of "(sample_expelled, [])" 100 7] sample_expelled_facts by simp

end
