(* ===== verification/Bot_Handler.thy ===== *)
theory Bot_Handler
  imports Bot_Revoke Pairing_Service
begin

text \<open>
  \<^verbatim>\<open>crates/bot/src/replica_sync.rs\<close> and \<^verbatim>\<open>handler.rs\<close>: the translation of serenity's model into the replica's, and what
  the bot does on each Discord event.  serenity's types carry only the fields the code reads; REST calls
  that answer nothing the code uses (registering commands) are left out.  A list of member pages stands for the
  answers of the REST call that lists a guild's members, \<open>None\<close> for an error.
\<close>

section \<open>serenity's model\<close>

datatype channel_type = Voice | OtherChannel

datatype overwrite_type = OwRole u64 | OwMember u64 | OwUnknown

record permission_overwrite =
  po_kind :: overwrite_type
  po_allow :: u64
  po_deny :: u64

record discord_channel =
  dch_id :: u64
  dch_guild_id :: u64
  dch_kind :: channel_type
  dch_name :: string
  dch_overwrites :: "permission_overwrite list"

record discord_guild =
  dg_id :: u64
  dg_owner_id :: u64
  dg_roles :: "(u64, role_ref) hmap"
  dg_members :: "(u64, u64 list) hmap"
  dg_channels :: "(u64, discord_channel) hmap"
  dg_voice_states :: "(u64, u64 option) hmap"
  dg_member_count :: u64

datatype connection_stage = Connected | OtherStage

section \<open>replica_sync.rs\<close>

definition is_room_channel :: "discord_channel \<Rightarrow> bool" where
  "is_room_channel c \<longleftrightarrow> dch_kind c = Voice"

definition overwrite_of :: "permission_overwrite \<Rightarrow> overwrite" where
  "overwrite_of ow =
     \<lparr>ow_target_id = (case po_kind ow of OwRole i \<Rightarrow> i | OwMember i \<Rightarrow> i | OwUnknown \<Rightarrow> 0),
      ow_kind = (case po_kind ow of OwMember _ \<Rightarrow> MemberOw | _ \<Rightarrow> RoleOw),
      ow_allow = po_allow ow, ow_deny = po_deny ow\<rparr>"

definition channel_data_of :: "discord_channel \<Rightarrow> channel_data" where
  "channel_data_of c = \<lparr>cd_id = dch_id c, cd_name = dch_name c, cd_overwrites = map overwrite_of (dch_overwrites c)\<rparr>"

definition guild_data_of :: "discord_guild \<Rightarrow> guild_data" where
  "guild_data_of g =
     \<lparr>gd_id = dg_id g, gd_owner_id = dg_owner_id g, gd_roles = hm_values (dg_roles g), gd_members = dg_members g,
      gd_channels = map (\<lambda>(i, c). (i, channel_data_of c)) (filter (\<lambda>(i, c). is_room_channel c) (dg_channels g)),
      gd_voice = List.map_filter (\<lambda>(u, st). map_option (Pair u) st) (dg_voice_states g)\<rparr>"

definition voice_channel :: "u64 option \<Rightarrow> i64 option" where
  "voice_channel c = map_option i64_or_default c"

section \<open>The handler's state\<close>

text \<open>The server's state, the removals asked of LiveKit, and the tables only pairing and sessions use.\<close>

record bot =
  bt_app :: app_state
  bt_removed :: removals
  bt_announcing :: bool
  bt_refresh :: refresh_tokens
  bt_codes :: pairing_codes

definition on_replica :: "(replica \<Rightarrow> replica) \<Rightarrow> bot \<Rightarrow> bot" where
  "on_replica f b = b\<lparr>bt_app := (bt_app b)\<lparr>ap_replica := f (ap_replica (bt_app b))\<rparr>\<rparr>"

definition sweeping :: "(app_state \<times> removals \<Rightarrow> app_state \<times> removals) \<Rightarrow> bot \<Rightarrow> bot" where
  "sweeping f b = (case f (bt_app b, bt_removed b) of (s, calls) \<Rightarrow> b\<lparr>bt_app := s, bt_removed := calls\<rparr>)"

section \<open>Helpers of the handler\<close>

definition refresh_channel :: "u64 \<Rightarrow> discord_channel \<Rightarrow> bot \<Rightarrow> bot" where
  "refresh_channel guild c b =
    (if \<not> is_room_channel c then b
     else sweeping (sweep_channel (i64_or_default (dch_id c))) (on_replica (upsert_channel guild (channel_data_of c)) b))"

text \<open>\<^verbatim>\<open>PAGE\<close> members a page; a short page, an empty one and an error end the loop.\<close>

definition MEMBERS_PAGE :: nat where "MEMBERS_PAGE = 1000"

fun backfill_members :: "u64 \<Rightarrow> (u64 \<times> u64 list) list option list \<Rightarrow> bot \<Rightarrow> bot" where
  "backfill_members guild [] b = b"
| "backfill_members guild (None # pages) b = b"
| "backfill_members guild (Some page # pages) b =
     (if page = [] then b
      else (let b1 = fold (\<lambda>(u, roles). on_replica (upsert_member guild u roles)) page b
            in if length page < MEMBERS_PAGE then b1 else backfill_members guild pages b1))"

definition publish_user :: "uuid \<Rightarrow> dispatch_event \<Rightarrow> bot \<Rightarrow> bot" where
  "publish_user u e b = b\<lparr>bt_app := (bt_app b)\<lparr>ap_hub := publish_to_user u e (ap_hub (bt_app b))\<rparr>\<rparr>"

definition announce_room :: "u64 \<Rightarrow> i64 \<Rightarrow> bot \<Rightarrow> bot" where
  "announce_room discord_user ch b =
    (let s = bt_app b in
     case Option.bind (i64_try_from discord_user) (users_find_by_discord_id (ap_users s)) of
       None \<Rightarrow> b
     | Some user \<Rightarrow>
       (case u64_try_from ch of
          None \<Rightarrow> b
        | Some channel \<Rightarrow>
          if \<not> may_join (ap_replica s) discord_user channel then b
          else case channel_info (ap_replica s) channel of
            None \<Rightarrow> b
          | Some (guild, name) \<Rightarrow> publish_user (ur_id user) (RoomJoin (state_of s ch (i64_or_default guild) name)) b))"

definition announce_leave :: "u64 \<Rightarrow> i64 \<Rightarrow> bot \<Rightarrow> bot" where
  "announce_leave discord_user ch b =
    (case Option.bind (i64_try_from discord_user) (users_find_by_discord_id (ap_users (bt_app b))) of
       None \<Rightarrow> b
     | Some user \<Rightarrow> publish_user (ur_id user) (RoomLeave ch Left) b)"

section \<open>The events\<close>

text \<open>\<^verbatim>\<open>ready\<close> also starts the announcer, once in the life of the process.\<close>

definition on_ready :: "instant \<Rightarrow> bot \<Rightarrow> bot" where
  "on_ready now b = (on_replica (set_connected now True) b)\<lparr>bt_announcing := True\<rparr>"

definition on_resume :: "instant \<Rightarrow> bot \<Rightarrow> bot" where
  "on_resume now b = on_replica (set_connected now True) b"

definition on_shard_stage_update :: "instant \<Rightarrow> connection_stage \<Rightarrow> bot \<Rightarrow> bot" where
  "on_shard_stage_update now stage b = on_replica (set_connected now (stage = Connected)) b"

text \<open>\<^verbatim>\<open>members as u64\<close> compared with the count Discord sends.\<close>

definition on_guild_create :: "discord_config \<Rightarrow> discord_guild \<Rightarrow> (u64 \<times> u64 list) list option list \<Rightarrow> bot \<Rightarrow> bot" where
  "on_guild_create cfg g pages b =
    (if \<not> serves cfg (dg_id g) then b
     else
       (let data = guild_data_of g;
            b1 = on_replica (replace_guild data) b;
            b2 = (if of_nat (length (gd_members data)) < dg_member_count g then backfill_members (dg_id g) pages b1 else b1)
        in sweeping (sweep_guild (dg_id g)) b2))"

definition on_guild_delete :: "u64 \<Rightarrow> bool \<Rightarrow> bot \<Rightarrow> bot" where
  "on_guild_delete guild unavailable b =
    (if unavailable then b else sweeping (sweep_guild guild) (on_replica (remove_guild guild) b))"

definition on_member_addition :: "u64 \<Rightarrow> u64 \<Rightarrow> u64 list \<Rightarrow> bot \<Rightarrow> bot" where
  "on_member_addition guild u roles b = on_replica (upsert_member guild u roles) b"

definition on_member_update :: "(u64 \<times> u64 \<times> u64 list) option \<Rightarrow> bot \<Rightarrow> bot" where
  "on_member_update new b =
    (case new of
       None \<Rightarrow> b
     | Some (guild, u, roles) \<Rightarrow> sweeping (sweep_guild guild) (on_replica (upsert_member guild u roles) b))"

definition on_member_removal :: "u64 \<Rightarrow> u64 \<Rightarrow> bot \<Rightarrow> bot" where
  "on_member_removal guild u b = sweeping (sweep_guild guild) (on_replica (remove_member guild u) b)"

definition on_role_create :: "u64 \<Rightarrow> role_ref \<Rightarrow> bot \<Rightarrow> bot" where
  "on_role_create guild r b = on_replica (upsert_role guild r) b"

definition on_role_update :: "u64 \<Rightarrow> role_ref \<Rightarrow> bot \<Rightarrow> bot" where
  "on_role_update guild r b = sweeping (sweep_guild guild) (on_replica (upsert_role guild r) b)"

definition on_role_delete :: "u64 \<Rightarrow> u64 \<Rightarrow> bot \<Rightarrow> bot" where
  "on_role_delete guild r b = sweeping (sweep_guild guild) (on_replica (remove_role guild r) b)"

definition on_channel_create :: "discord_channel \<Rightarrow> bot \<Rightarrow> bot" where
  "on_channel_create c b = refresh_channel (dch_guild_id c) c b"

definition on_channel_update :: "discord_channel \<Rightarrow> bot \<Rightarrow> bot" where
  "on_channel_update c b = refresh_channel (dch_guild_id c) c b"

definition on_channel_delete :: "discord_channel \<Rightarrow> bot \<Rightarrow> bot" where
  "on_channel_delete c b =
     sweeping (sweep_channel (i64_or_default (dch_id c))) (on_replica (remove_channel (dch_guild_id c) (dch_id c)) b)"

text \<open>\<open>old\<close> is the channel of the previous voice state, if there was one.\<close>

definition on_voice_state_update :: "u64 option option \<Rightarrow> u64 option \<Rightarrow> u64 \<Rightarrow> u64 option \<Rightarrow> bot \<Rightarrow> bot" where
  "on_voice_state_update old guild user ch b =
    (let b1 = (case guild of None \<Rightarrow> b | Some g \<Rightarrow> on_replica (set_voice g user ch) b);
         before = Option.bind old voice_channel;
         after = voice_channel ch
     in if before = after then b1
        else (let b2 = (case before of None \<Rightarrow> b1 | Some left \<Rightarrow> announce_leave user left b1)
              in (case after of None \<Rightarrow> b2 | Some joined \<Rightarrow> announce_room user joined b2)))"

definition COMMAND_NAME :: string where "COMMAND_NAME = ''tela''"

definition on_interaction_create ::
  "(string \<Rightarrow> 8 word list) \<Rightarrow> discord_config \<Rightarrow> instant \<Rightarrow> issue_draws \<Rightarrow> (string \<times> command_interaction) option \<Rightarrow> bot \<Rightarrow>
     bot \<times> reply option" where
  "on_interaction_create sha cfg now d interaction b =
    (case interaction of
       None \<Rightarrow> (b, None)
     | Some (name, command) \<Rightarrow>
       if name = COMMAND_NAME then
         (case handle_command sha cfg now d command
                 \<lparr>pd_auth = \<lparr>ad_users = ap_users (bt_app b), ad_refresh = bt_refresh b\<rparr>, pd_codes = bt_codes b\<rparr> of
            (db, r) \<Rightarrow> (b\<lparr>bt_app := (bt_app b)\<lparr>ap_users := ad_users (pd_auth db)\<rparr>, bt_codes := pd_codes db\<rparr>, Some r))
       else (b, None))"

section \<open>All events, and what they write to the replica\<close>

datatype bot_event =
    EvReady instant
  | EvResume instant
  | EvShardStage instant connection_stage
  | EvGuildCreate discord_guild "(u64 \<times> u64 list) list option list"
  | EvGuildDelete u64 bool
  | EvMemberAddition u64 u64 "u64 list"
  | EvMemberUpdate "(u64 \<times> u64 \<times> u64 list) option"
  | EvMemberRemoval u64 u64
  | EvRoleCreate u64 role_ref
  | EvRoleUpdate u64 role_ref
  | EvRoleDelete u64 u64
  | EvChannelCreate discord_channel
  | EvChannelUpdate discord_channel
  | EvChannelDelete discord_channel
  | EvVoiceState "u64 option option" "u64 option" u64 "u64 option"
  | EvInteraction "string \<Rightarrow> 8 word list" instant issue_draws "(string \<times> command_interaction) option"

fun bot_step :: "discord_config \<Rightarrow> bot_event \<Rightarrow> bot \<Rightarrow> bot" where
  "bot_step cfg (EvReady now) b = on_ready now b"
| "bot_step cfg (EvResume now) b = on_resume now b"
| "bot_step cfg (EvShardStage now stage) b = on_shard_stage_update now stage b"
| "bot_step cfg (EvGuildCreate g pages) b = on_guild_create cfg g pages b"
| "bot_step cfg (EvGuildDelete g unavailable) b = on_guild_delete g unavailable b"
| "bot_step cfg (EvMemberAddition g u roles) b = on_member_addition g u roles b"
| "bot_step cfg (EvMemberUpdate new) b = on_member_update new b"
| "bot_step cfg (EvMemberRemoval g u) b = on_member_removal g u b"
| "bot_step cfg (EvRoleCreate g r) b = on_role_create g r b"
| "bot_step cfg (EvRoleUpdate g r) b = on_role_update g r b"
| "bot_step cfg (EvRoleDelete g r) b = on_role_delete g r b"
| "bot_step cfg (EvChannelCreate c) b = on_channel_create c b"
| "bot_step cfg (EvChannelUpdate c) b = on_channel_update c b"
| "bot_step cfg (EvChannelDelete c) b = on_channel_delete c b"
| "bot_step cfg (EvVoiceState old g u ch) b = on_voice_state_update old g u ch b"
| "bot_step cfg (EvInteraction sha now d i) b = fst (on_interaction_create sha cfg now d i b)"

text \<open>The specification of the handler against the replica: the writes each event stands for.\<close>

fun backfill_events :: "u64 \<Rightarrow> (u64 \<times> u64 list) list option list \<Rightarrow> replica_event list" where
  "backfill_events g (Some page # pages) =
     (if page = [] then []
      else map (\<lambda>(u, roles). UpsertMember g u roles) page @
           (if length page < MEMBERS_PAGE then [] else backfill_events g pages))"
| "backfill_events g _ = []"

definition room_events :: "discord_channel \<Rightarrow> replica_event list" where
  "room_events c = (if is_room_channel c then [UpsertChannel (dch_guild_id c) (channel_data_of c)] else [])"

fun replica_events :: "discord_config \<Rightarrow> bot_event \<Rightarrow> replica_event list" where
  "replica_events cfg (EvReady now) = [SetConnected now True]"
| "replica_events cfg (EvResume now) = [SetConnected now True]"
| "replica_events cfg (EvShardStage now stage) = [SetConnected now (stage = Connected)]"
| "replica_events cfg (EvGuildCreate g pages) =
     (if serves cfg (dg_id g) then ReplaceGuild (guild_data_of g) #
        (if of_nat (length (dg_members g)) < dg_member_count g then backfill_events (dg_id g) pages else [])
      else [])"
| "replica_events cfg (EvGuildDelete g unavailable) = (if unavailable then [] else [RemoveGuild g])"
| "replica_events cfg (EvMemberAddition g u roles) = [UpsertMember g u roles]"
| "replica_events cfg (EvMemberUpdate new) = (case new of None \<Rightarrow> [] | Some (g, u, roles) \<Rightarrow> [UpsertMember g u roles])"
| "replica_events cfg (EvMemberRemoval g u) = [RemoveMember g u]"
| "replica_events cfg (EvRoleCreate g r) = [UpsertRole g r]"
| "replica_events cfg (EvRoleUpdate g r) = [UpsertRole g r]"
| "replica_events cfg (EvRoleDelete g r) = [RemoveRole g r]"
| "replica_events cfg (EvChannelCreate c) = room_events c"
| "replica_events cfg (EvChannelUpdate c) = room_events c"
| "replica_events cfg (EvChannelDelete c) = [RemoveChannel (dch_guild_id c) (dch_id c)]"
| "replica_events cfg (EvVoiceState old g u ch) = (case g of None \<Rightarrow> [] | Some g \<Rightarrow> [SetVoice g u ch])"
| "replica_events cfg (EvInteraction sha now d i) = []"

abbreviation bot_replica :: "bot \<Rightarrow> replica" where "bot_replica b \<equiv> ap_replica (bt_app b)"
abbreviation bot_presence :: "bot \<Rightarrow> presence" where "bot_presence b \<equiv> ap_presence (bt_app b)"

lemma on_replica_simps [simp]:
  "bot_replica (on_replica f b) = f (bot_replica b)" "bot_presence (on_replica f b) = bot_presence b"
  "bt_removed (on_replica f b) = bt_removed b" "ap_users (bt_app (on_replica f b)) = ap_users (bt_app b)"
  "ap_hub (bt_app (on_replica f b)) = ap_hub (bt_app b)"
  by (simp_all add: on_replica_def)

lemma publish_user_simps [simp]:
  "bot_replica (publish_user u e b) = bot_replica b" "bot_presence (publish_user u e b) = bot_presence b"
  "ap_users (bt_app (publish_user u e b)) = ap_users (bt_app b)"
  "ap_hub (bt_app (publish_user u e b)) = publish_to_user u e (ap_hub (bt_app b))"
  by (simp_all add: publish_user_def)

lemma announce_simps [simp]:
  "bot_replica (announce_room u ch b) = bot_replica b" "bot_presence (announce_room u ch b) = bot_presence b"
  "bot_replica (announce_leave u ch b) = bot_replica b" "bot_presence (announce_leave u ch b) = bot_presence b"
  "ap_users (bt_app (announce_leave u ch b)) = ap_users (bt_app b)"
  by (simp_all add: announce_room_def announce_leave_def Let_def split: option.split)

lemma sweeping_simps [simp]:
  "bt_app (sweeping f b) = fst (f (bt_app b, bt_removed b))" "bt_removed (sweeping f b) = snd (f (bt_app b, bt_removed b))"
  by (simp_all add: sweeping_def case_prod_beta)

lemma sweep_replica [simp]:
  "ap_replica (fst (sweep_channel ch x)) = ap_replica (fst x)"
  "ap_replica (fst (fold (sweep_if g) chs x)) = ap_replica (fst x)"
  "ap_replica (fst (sweep_guild g x)) = ap_replica (fst x)"
proof -
  show c: "ap_replica (fst (sweep_channel ch x)) = ap_replica (fst x)" for ch x
    by (simp add: sweep_channel_evicts evict_all)
  show "ap_replica (fst (fold (sweep_if g) chs x)) = ap_replica (fst x)" for chs x
    by (induction chs arbitrary: x) (simp_all add: sweep_if_def c)
  then show "ap_replica (fst (sweep_guild g x)) = ap_replica (fst x)" by (simp add: sweep_guild_alt)
qed

lemma fold_members:
  "bot_replica (fold (\<lambda>(u, roles). on_replica (upsert_member g u roles)) page b) =
     fold replica_step (map (\<lambda>(u, roles). UpsertMember g u roles) page) (bot_replica b)"
  "bot_presence (fold (\<lambda>(u, roles). on_replica (upsert_member g u roles)) page b) = bot_presence b"
  "bt_removed (fold (\<lambda>(u, roles). on_replica (upsert_member g u roles)) page b) = bt_removed b"
  "ap_users (bt_app (fold (\<lambda>(u, roles). on_replica (upsert_member g u roles)) page b)) = ap_users (bt_app b)"
  by (induction page arbitrary: b) (auto simp: case_prod_beta)

lemma backfill_effect:
  "bot_replica (backfill_members g pages b) = fold replica_step (backfill_events g pages) (bot_replica b)"
  "bot_presence (backfill_members g pages b) = bot_presence b"
  by (induction g pages b rule: backfill_members.induct) (simp_all add: Let_def fold_members)

lemma replica_writes_refine: "bot_replica (bot_step cfg ev b) = fold replica_step (replica_events cfg ev) (bot_replica b)"
proof (cases ev)
  case (EvGuildCreate g pages)
  then show ?thesis
    by (simp add: on_guild_create_def Let_def backfill_effect guild_data_of_def)
next
  case (EvVoiceState old g u ch)
  then show ?thesis by (simp add: on_voice_state_update_def Let_def split: option.split)
next
  case (EvMemberUpdate new)
  then show ?thesis by (auto simp: on_member_update_def split: option.split)
next
  case (EvInteraction sha now d i)
  then show ?thesis by (auto simp: on_interaction_create_def split: option.split prod.split)
qed (simp_all add: on_ready_def on_resume_def on_shard_stage_update_def on_guild_delete_def on_member_addition_def
    on_member_removal_def on_role_create_def on_role_update_def on_role_delete_def on_channel_create_def
    on_channel_update_def on_channel_delete_def refresh_channel_def room_events_def)

text \<open>
  C19.  The bot keeps the mirror by exactly the writes an event stands for: whatever the event, the replica
  afterwards is the one its writes give, in order, whatever else the handler does; in particular an
  event of a guild that is not served, and an outage Discord reports as one, writes nothing.
\<close>
theorem handler_refines_replica_writes:
  "bot_replica (bot_step cfg ev b) = fold replica_step (replica_events cfg ev) (bot_replica b)"
  by (rule replica_writes_refine)

section \<open>Invariants of the bot\<close>

text \<open>A \<^verbatim>\<open>HashMap\<close> in an event holds no key twice.\<close>

fun bot_event_ok :: "bot_event \<Rightarrow> bool" where
  "bot_event_ok (EvGuildCreate g pages) \<longleftrightarrow> hm_ok (dg_members g) \<and> hm_ok (dg_channels g) \<and> hm_ok (dg_voice_states g)"
| "bot_event_ok _ = True"

definition bot_inv :: "discord_config \<Rightarrow> int \<Rightarrow> bot \<Rightarrow> bool" where
  "bot_inv cfg grace b \<longleftrightarrow> replica_reachable grace (bot_replica b) \<and>
     (\<forall>g. hm_get (rp_guilds (bot_replica b)) g \<noteq> None \<longrightarrow> serves cfg g)"

lemma hm_ok_map_filter_values: "hm_ok m \<Longrightarrow> hm_ok (List.map_filter (\<lambda>(k, v). map_option (Pair k) v) m)"
proof -
  have "map fst (List.map_filter (\<lambda>(k, v). map_option (Pair k) v) m) = map fst (filter (\<lambda>(k, v). v \<noteq> None) m)"
    by (induction m) (auto simp: map_filter_simps split: option.split)
  then show "hm_ok m \<Longrightarrow> ?thesis" by (simp add: hm_ok_def distinct_map_filter)
qed

lemma guild_data_of_ok: "bot_event_ok (EvGuildCreate g pages) \<Longrightarrow> guild_data_ok (guild_data_of g)"
proof -
  have "map fst (map (\<lambda>(i, c). (i, channel_data_of c)) cs) = map fst cs" for cs :: "(u64 \<times> discord_channel) list"
    by (induction cs) auto
  then show "bot_event_ok (EvGuildCreate g pages) \<Longrightarrow> ?thesis"
    by (simp add: guild_data_ok_def guild_data_of_def hm_ok_map_filter_values) (simp add: hm_ok_def distinct_map_filter case_prod_beta o_def)
qed

lemma backfill_events_upsert: "e \<in> set (backfill_events g pages) \<Longrightarrow> \<exists>u roles. e = UpsertMember g u roles"
  by (induction g pages rule: backfill_events.induct) (auto split: if_splits)

lemma replica_events_ok: "bot_event_ok ev \<Longrightarrow> e \<in> set (replica_events cfg ev) \<Longrightarrow> event_ok e"
  by (cases ev) (auto simp: guild_data_of_ok room_events_def dest: backfill_events_upsert split: if_splits option.splits)

lemma replica_step_guilds:
  "hm_get (rp_guilds (replica_step e s)) g \<noteq> None \<Longrightarrow>
     hm_get (rp_guilds s) g \<noteq> None \<or> (\<exists>d. e = ReplaceGuild d \<and> gd_id d = g)"
  by (cases e) (auto simp: replace_guild_def remove_guild_def upsert_member_def remove_member_def upsert_role_def
      remove_role_def upsert_channel_def remove_channel_def set_connected_def set_voice_def alter_guild_def split: if_splits)

lemma fold_replica_step_guilds:
  "hm_get (rp_guilds (fold replica_step es s)) g \<noteq> None \<Longrightarrow>
     hm_get (rp_guilds s) g \<noteq> None \<or> (\<exists>d. ReplaceGuild d \<in> set es \<and> gd_id d = g)"
proof (induction es arbitrary: s)
  case (Cons e es)
  then show ?case using replica_step_guilds [of e s g] by fastforce
qed simp

lemma fold_replica_reachable:
  "replica_reachable grace s \<Longrightarrow> \<forall>e \<in> set es. event_ok e \<Longrightarrow> replica_reachable grace (fold replica_step es s)"
  by (induction es arbitrary: s) (auto intro: rr_step)

lemma replica_events_served:
  "ReplaceGuild d \<in> set (replica_events cfg ev) \<Longrightarrow> serves cfg (gd_id d)"
  by (cases ev) (auto simp: room_events_def guild_data_of_def dest: backfill_events_upsert split: if_splits option.splits)

text \<open>
  C20.  Whatever Discord sends, the mirror stays sound and serves only whom it should: along any run of events from an
  empty replica, the replica is a reachable one (its channel index is sound and authorization can rest on it)
  and every guild in it is one this instance serves.
\<close>
theorem bot_run_inv:
  assumes "bot_inv cfg grace b" and "list_all bot_event_ok evs"
  shows "bot_inv cfg grace (fold (bot_step cfg) evs b)"
  using assms
proof (induction evs arbitrary: b)
  case (Cons ev evs)
  have "bot_inv cfg grace (bot_step cfg ev b)"
    using Cons.prems fold_replica_reachable [of grace "bot_replica b" "replica_events cfg ev"]
      fold_replica_step_guilds [of "replica_events cfg ev" "bot_replica b"] replica_events_ok [of ev] replica_events_served [of _ cfg ev]
    unfolding bot_inv_def replica_writes_refine by fastforce
  with Cons show ?case by simp
qed simp

section \<open>Fail closed\<close>

text \<open>What an event says of the connection to Discord, and the last thing a run of them said.\<close>

fun connection_report :: "bot_event \<Rightarrow> (instant \<times> bool) option" where
  "connection_report (EvReady now) = Some (now, True)"
| "connection_report (EvResume now) = Some (now, True)"
| "connection_report (EvShardStage now stage) = Some (now, stage = Connected)"
| "connection_report _ = None"

definition last_report :: "bot_event list \<Rightarrow> (instant \<times> bool) option" where
  "last_report evs = fold (\<lambda>ev said. case connection_report ev of None \<Rightarrow> said | Some r \<Rightarrow> Some r) evs None"

definition connection_said :: "int \<Rightarrow> (instant \<times> bool) option \<Rightarrow> bool \<times> instant option \<times> int" where
  "connection_said grace said =
     (case said of None \<Rightarrow> (False, None, grace) | Some (t, up) \<Rightarrow> (up, if up then None else Some t, grace))"

lemma silent_events: "connection_report ev = None \<Longrightarrow> \<not> list_ex is_connection_event (replica_events cfg ev)"
  by (cases ev) (auto simp: list_ex_iff room_events_def dest!: backfill_events_upsert split: if_splits option.splits)

lemma connection_step:
  assumes "connection_of (bot_replica b) = connection_said grace said"
  shows "connection_of (bot_replica (bot_step cfg ev b)) =
    connection_said grace (case connection_report ev of None \<Rightarrow> said | Some r \<Rightarrow> Some r)"
proof (cases "connection_report ev")
  case None
  then show ?thesis
    using assms unfolding replica_writes_refine connection_of_frame [OF silent_events [OF None]] by simp
next
  case (Some r)
  obtain since c where "connection_of (bot_replica b) = (c, since, grace)"
    using assms by (cases said) (auto simp: connection_said_def split: if_splits)
  then have "rp_grace (bot_replica b) = grace" by (simp add: connection_of_def)
  with Some show ?thesis
    unfolding replica_writes_refine
    by (cases ev) (auto simp: connection_of_def connection_said_def set_connected_def)
qed

lemma connection_run:
  "connection_of (bot_replica b) = connection_said grace said \<Longrightarrow>
     connection_of (bot_replica (fold (bot_step cfg) evs b)) =
       connection_said grace (fold (\<lambda>ev said. case connection_report ev of None \<Rightarrow> said | Some r \<Rightarrow> Some r) evs said)"
proof (induction evs arbitrary: b said)
  case (Cons ev evs)
  show ?case using Cons.IH [OF connection_step [OF Cons.prems]] by simp
qed simp

text \<open>
  C23.  Fail closed (RF-09), from the gateway of Discord to the guard of the routes: after any run of events on a bot that
  started with an empty replica, a request for a room, whoever asks and whatever else the events wrote, is refused
  with \<open>ReplicaStale\<close> exactly when no connection was ever reported, or when the last report was of a stage that is not
  connected and is older than the grace window.  It is the last report that counts: each further one of a stage that
  is not connected restarts the window.
\<close>
theorem guard_follows_last_report:
  assumes "bot_replica b = replica_new grace"
  shows "room_access now (bt_app (fold (bot_step cfg) evs b)) u ch = Inl ReplicaStale \<longleftrightarrow>
    (case last_report evs of None \<Rightarrow> True | Some (t, up) \<Rightarrow> \<not> up \<and> grace < max 0 (now - t))"
proof -
  have "connection_of (bot_replica b) = connection_said grace None"
    using assms by (simp add: connection_of_def connection_said_def replica_new_def)
  then have "connection_of (bot_replica (fold (bot_step cfg) evs b)) = connection_said grace (last_report evs)"
    unfolding last_report_def by (rule connection_run)
  then show ?thesis
    unfolding room_access_stale staleness_connection
    by (auto simp: connection_said_def not_le split: option.split)
qed

section \<open>Revocation\<close>

text \<open>
  The rooms an event sweeps, by the replica it leaves: those of the guild of a member or a role that changed or went and of
  a guild mirrored anew or removed, and the one voice channel that was made, changed or went.
\<close>

fun swept :: "discord_config \<Rightarrow> bot_event \<Rightarrow> replica \<Rightarrow> i64 \<Rightarrow> bool" where
  "swept cfg (EvGuildCreate g pages) r ch \<longleftrightarrow> serves cfg (dg_id g) \<and> room_of_guild r (dg_id g) ch"
| "swept cfg (EvGuildDelete g unavailable) r ch \<longleftrightarrow> \<not> unavailable \<and> room_of_guild r g ch"
| "swept cfg (EvMemberUpdate new) r ch \<longleftrightarrow> (case new of None \<Rightarrow> False | Some (g, _) \<Rightarrow> room_of_guild r g ch)"
| "swept cfg (EvMemberRemoval g u) r ch \<longleftrightarrow> room_of_guild r g ch"
| "swept cfg (EvRoleUpdate g role) r ch \<longleftrightarrow> room_of_guild r g ch"
| "swept cfg (EvRoleDelete g role) r ch \<longleftrightarrow> room_of_guild r g ch"
| "swept cfg (EvChannelCreate c) r ch \<longleftrightarrow> is_room_channel c \<and> ch = i64_or_default (dch_id c)"
| "swept cfg (EvChannelUpdate c) r ch \<longleftrightarrow> is_room_channel c \<and> ch = i64_or_default (dch_id c)"
| "swept cfg (EvChannelDelete c) r ch \<longleftrightarrow> ch = i64_or_default (dch_id c)"
| "swept cfg _ r ch \<longleftrightarrow> False"

text \<open>
  From \<open>b\<close> to \<open>b'\<close> exactly the people in the rooms \<open>R\<close> whom the replica of \<open>b'\<close> does not let in are taken out of the
  presence table, and LiveKit is asked to remove exactly those.
\<close>

definition evicts :: "(i64 \<Rightarrow> bool) \<Rightarrow> bot \<Rightarrow> bot \<Rightarrow> bool" where
  "evicts R b b' \<longleftrightarrow>
     (let out = {(ch, u). channel_of (bot_presence b) u = Some ch \<and> R ch \<and> \<not> entitled (bt_app b') ch u} in
      (\<forall>u. hm_get (bot_presence b') u = (if u \<in> snd ` out then None else hm_get (bot_presence b) u)) \<and>
      set (bt_removed b') = set (bt_removed b) \<union> out)"

lemma evicts_nobody:
  "bot_presence b' = bot_presence b \<Longrightarrow> bt_removed b' = bt_removed b \<Longrightarrow> \<forall>ch. \<not> R ch \<Longrightarrow> evicts R b b'"
  by (auto simp: evicts_def Let_def)

lemma evicts_cong: "bot_presence b1 = bot_presence b \<Longrightarrow> bt_removed b1 = bt_removed b \<Longrightarrow> evicts R b1 b' \<Longrightarrow> evicts R b b'"
  unfolding evicts_def by (simp only:)

lemma sweep_guild_evicts:
  assumes "hm_ok (bot_presence b)"
  shows "evicts (room_of_guild (bot_replica b) guild) b (sweeping (sweep_guild guild) b)"
proof -
  let ?x = "(bt_app b, bt_removed b)"
  have e: "entitled (fst (sweep_guild guild ?x)) = entitled (bt_app b)"
    using sweep_rooms_effect(2) [of ?x] assms by (simp add: sweep_guild_alt)
  have out: "set (snd (sweep_guild guild ?x)) = set (bt_removed b) \<union>
      {(ch, u). channel_of (bot_presence b) u = Some ch \<and> room_of_guild (bot_replica b) guild ch \<and> \<not> entitled (bt_app b) ch u}"
    using sweep_rooms_removals [of ?x] occupied_iff [OF assms] assms by (auto simp: sweep_guild_alt)
  have get: "hm_get (ap_presence (fst (sweep_guild guild ?x))) u =
      (case channel_of (bot_presence b) u of
         Some ch \<Rightarrow> if room_of_guild (bot_replica b) guild ch \<and> \<not> entitled (bt_app b) ch u then None
                   else hm_get (bot_presence b) u
       | None \<Rightarrow> None)" for u
    using sweep_guild_exact [of ?x guild u, unfolded fst_conv] assms by blast
  show ?thesis
    by (auto simp: evicts_def Let_def e out get channel_of_def image_iff split: option.splits)
qed

lemma sweep_channel_evicts_bot:
  assumes "hm_ok (bot_presence b)"
  shows "evicts (\<lambda>c. c = ch) b (sweeping (sweep_channel ch) b)"
  using assms sweep_channel_effect [of "(bt_app b, bt_removed b)" ch] sweep_channel_removals [of "(bt_app b, bt_removed b)" ch]
  by (auto simp: evicts_def Let_def image_iff)

lemma backfill_removed: "bt_removed (backfill_members g pages b) = bt_removed b"
  by (induction g pages b rule: backfill_members.induct) (simp_all add: Let_def fold_members)

lemma announce_removed [simp]:
  "bt_removed (announce_room u ch b) = bt_removed b" "bt_removed (announce_leave u ch b) = bt_removed b"
  by (simp_all add: announce_room_def announce_leave_def publish_user_def Let_def split: option.split)

lemma guild_sweep_evicts:
  assumes "hm_ok (bot_presence b)" and "bot_presence b1 = bot_presence b" and "bt_removed b1 = bt_removed b"
  shows "evicts (room_of_guild (bot_replica (sweeping (sweep_guild guild) b1)) guild) b (sweeping (sweep_guild guild) b1)"
  using evicts_cong [OF assms(2,3) sweep_guild_evicts, of guild] assms(1,2) by simp

lemma channel_sweep_evicts:
  assumes "hm_ok (bot_presence b)" and "bot_presence b1 = bot_presence b" and "bt_removed b1 = bt_removed b"
  shows "evicts (\<lambda>c. c = ch) b (sweeping (sweep_channel ch) b1)"
  using evicts_cong [OF assms(2,3) sweep_channel_evicts_bot, of ch] assms(1,2) by simp

lemma refresh_channel_evicts:
  assumes "hm_ok (bot_presence b)"
  shows "evicts (\<lambda>ch. is_room_channel c \<and> ch = i64_or_default (dch_id c)) b (refresh_channel g c b)"
  using channel_sweep_evicts [OF assms, of "on_replica (upsert_channel g (channel_data_of c)) b" "i64_or_default (dch_id c)"]
  by (cases "is_room_channel c") (simp_all add: refresh_channel_def evicts_nobody)

text \<open>\<open>swept\<close> as a set of rooms.\<close>

lemma swept_rooms:
  "swept cfg (EvGuildDelete g False) r = room_of_guild r g"
  "swept cfg (EvMemberUpdate (Some m)) r = room_of_guild r (fst m)"
  "swept cfg (EvMemberRemoval g u) r = room_of_guild r g"
  "swept cfg (EvRoleUpdate g role) r = room_of_guild r g"
  "swept cfg (EvRoleDelete g i) r = room_of_guild r g"
  "swept cfg (EvChannelCreate c) r = (\<lambda>ch. is_room_channel c \<and> ch = i64_or_default (dch_id c))"
  "swept cfg (EvChannelUpdate c) r = (\<lambda>ch. is_room_channel c \<and> ch = i64_or_default (dch_id c))"
  "swept cfg (EvChannelDelete c) r = (\<lambda>ch. ch = i64_or_default (dch_id c))"
  by (simp_all add: fun_eq_iff split: prod.split)

text \<open>
  C17.  What each event evicts, for every event there is: of the rooms it sweeps, exactly the people the replica no longer
  lets in are taken out of the presence table, and LiveKit is asked to remove exactly those; nobody else's row is
  touched and no event but those \<open>swept\<close> names evicts anybody.  Rooms are found in the replica the event
  leaves, so a room that went with its guild, or is missing from a guild mirrored anew, is swept by nothing.
\<close>
theorem events_evict_exactly:
  assumes "hm_ok (bot_presence b)"
  shows "evicts (swept cfg ev (bot_replica (bot_step cfg ev b))) b (bot_step cfg ev b)"
proof (cases ev)
  case (EvGuildCreate g pages)
  let ?b1 = "on_replica (replace_guild (guild_data_of g)) b"
  let ?b2 = "if of_nat (length (gd_members (guild_data_of g))) < dg_member_count g then backfill_members (dg_id g) pages ?b1 else ?b1"
  show ?thesis
  proof (cases "serves cfg (dg_id g)")
    case True
    have step: "bot_step cfg ev b = sweeping (sweep_guild (dg_id g)) ?b2"
      using EvGuildCreate True by (simp add: on_guild_create_def Let_def)
    have "evicts (room_of_guild (bot_replica (sweeping (sweep_guild (dg_id g)) ?b2)) (dg_id g)) b (sweeping (sweep_guild (dg_id g)) ?b2)"
      by (rule guild_sweep_evicts [OF assms]) (simp_all add: backfill_effect backfill_removed)
    moreover have "swept cfg ev r = room_of_guild r (dg_id g)" for r
      using EvGuildCreate True by (simp add: fun_eq_iff)
    ultimately show ?thesis by (simp only: step)
  next
    case False
    with EvGuildCreate show ?thesis by (intro evicts_nobody) (simp_all add: on_guild_create_def)
  qed
next
  case (EvGuildDelete g unavailable)
  show ?thesis
  proof (cases unavailable)
    case True
    with EvGuildDelete show ?thesis by (intro evicts_nobody) (simp_all add: on_guild_delete_def)
  next
    case False
    then show ?thesis
      using guild_sweep_evicts [OF assms, of "on_replica (remove_guild g) b" g] EvGuildDelete
      by (simp add: on_guild_delete_def swept_rooms)
  qed
next
  case (EvMemberUpdate new)
  show ?thesis
  proof (cases new)
    case None
    with EvMemberUpdate show ?thesis by (intro evicts_nobody) (simp_all add: on_member_update_def)
  next
    case (Some m)
    then show ?thesis
      using guild_sweep_evicts [OF assms, of "on_replica (case m of (g, u, roles) \<Rightarrow> upsert_member g u roles) b" "fst m"] EvMemberUpdate
      by (simp add: on_member_update_def swept_rooms split: prod.splits)
  qed
next
  case (EvMemberRemoval g u)
  then show ?thesis
    using guild_sweep_evicts [OF assms, of "on_replica (remove_member g u) b" g] by (simp add: on_member_removal_def swept_rooms)
next
  case (EvRoleUpdate g role)
  then show ?thesis
    using guild_sweep_evicts [OF assms, of "on_replica (upsert_role g role) b" g] by (simp add: on_role_update_def swept_rooms)
next
  case (EvRoleDelete g role)
  then show ?thesis
    using guild_sweep_evicts [OF assms, of "on_replica (remove_role g role) b" g] by (simp add: on_role_delete_def swept_rooms)
next
  case (EvChannelCreate c)
  then show ?thesis using refresh_channel_evicts [OF assms, of c] by (simp add: on_channel_create_def swept_rooms)
next
  case (EvChannelUpdate c)
  then show ?thesis using refresh_channel_evicts [OF assms, of c] by (simp add: on_channel_update_def swept_rooms)
next
  case (EvChannelDelete c)
  then show ?thesis
    using channel_sweep_evicts [OF assms, of "on_replica (remove_channel (dch_guild_id c) (dch_id c)) b"]
    by (simp add: on_channel_delete_def swept_rooms)
next
  case (EvVoiceState old g u ch)
  then show ?thesis
    by (intro evicts_nobody) (simp_all add: on_voice_state_update_def Let_def split: option.split)
next
  case (EvInteraction sha now d i)
  then show ?thesis
    by (intro evicts_nobody) (auto simp: on_interaction_create_def split: option.split prod.split)
qed (simp_all add: evicts_nobody on_ready_def on_resume_def on_shard_stage_update_def on_member_addition_def on_role_create_def)

text \<open>
  C39.  Removing a guild evicts nobody: \<^verbatim>\<open>guild_delete\<close> forgets the guild before it sweeps it, and the sweep looks for the
  rooms of a guild in the replica, where there are none left; the people in its rooms stay in the table and on
  LiveKit although nobody may be there any more.
\<close>
theorem guild_removal_evicts_nobody:
  assumes "replica_ok (bot_replica b)"
  shows "let b' = bot_step cfg (EvGuildDelete guild False) b
    in bot_presence b' = bot_presence b \<and> bt_removed b' = bt_removed b \<and>
       (\<forall>ch c u. room_of_guild (bot_replica b) guild ch \<and> u64_try_from ch = Some c \<longrightarrow> \<not> may_join (bot_replica b') u c)"
proof -
  have none: "\<not> room_of_guild (remove_guild guild (bot_replica b)) guild ch" for ch
    using replica_okD(2) [OF assms]
    by (auto simp: room_of_guild_def channel_info_def remove_guild_def bind_eq_Some_conv split: option.splits if_splits)
  have idle: "fold (sweep_if guild) chs x = x" if "ap_replica (fst x) = remove_guild guild (bot_replica b)" for chs x
    using that none by (induction chs) (simp_all add: sweep_if_def)
  have "\<not> may_join (remove_guild guild (bot_replica b)) u c"
    if "room_of_guild (bot_replica b) guild ch" "u64_try_from ch = Some c" for ch c u
    using that index_known [OF assms] permissions_remove_guild [OF assms]
    by (auto simp: may_join_def room_of_guild_def split: option.splits)
  then show ?thesis
    by (auto simp: on_guild_delete_def Let_def sweep_guild_alt idle)
qed

section \<open>Following the voice call\<close>

text \<open>The room a person's client is sent into, if any: they have an account, may join, and the channel is mirrored.\<close>

definition room_to_open :: "app_state \<Rightarrow> u64 \<Rightarrow> u64 \<Rightarrow> (uuid \<times> room_state) option" where
  "room_to_open s user c =
    Option.bind (i64_try_from user) (\<lambda>d. Option.bind (users_find_by_discord_id (ap_users s) d) (\<lambda>w.
    Option.bind (i64_try_from c) (\<lambda>ch.
      if may_join (ap_replica s) user c
      then map_option (\<lambda>(g, name). (ur_id w, state_of s ch (i64_or_default g) name)) (channel_info (ap_replica s) c)
      else None)))"

text \<open>
  A person who joins a voice call is followed, and only as far as they may be: the event records where they are,
  then queues \<^verbatim>\<open>ROOM_JOIN\<close> with the room's state on each of their connected sessions when they have an account and
  the replica lets them in, and otherwise sends nothing to anybody; no room row is written either way.
\<close>
theorem voice_join_followed:
  assumes "i64_try_from c = Some ch"
  shows "let b' = bot_step cfg (EvVoiceState None (Some g) user (Some c)) b;
      s = (bt_app b)\<lparr>ap_replica := set_voice g user (Some c) (bot_replica b)\<rparr>
    in bot_presence b' = bot_presence b \<and> bot_replica b' = ap_replica s \<and>
       ap_hub (bt_app b') =
         (case room_to_open s user c of
            None \<Rightarrow> ap_hub (bt_app b)
          | Some (u, room) \<Rightarrow> publish_to_user u (RoomJoin room) (ap_hub (bt_app b)))"
proof -
  have ch: "voice_channel (Some c) = Some ch" "u64_try_from ch = Some c" "ch = c"
    using assms by (auto simp: voice_channel_def i64_or_default_def i64_try_from_def u64_try_from_def split: if_splits)
  show ?thesis
    using assms ch
    by (auto simp: on_voice_state_update_def Let_def announce_room_def room_to_open_def on_replica_def
        split: option.split Option.bind_split)
qed

section \<open>Witnesses\<close>

definition sample_bot :: bot where
  "sample_bot = \<lparr>bt_app = sample_app\<lparr>ap_presence := [(7, sample_row)]\<rparr>, bt_removed = [], bt_announcing = True, bt_refresh = [], bt_codes = []\<rparr>"

definition sample_channel :: discord_channel where
  "sample_channel = \<lparr>dch_id = 900, dch_guild_id = 100, dch_kind = Voice, dch_name = ''jogos'', dch_overwrites = []\<rparr>"

definition sample_discord_guild :: discord_guild where
  "sample_discord_guild = \<lparr>dg_id = 100, dg_owner_id = 1,
     dg_roles = [(100, \<lparr>role_id = 100, role_permissions = VIEW_CHANNEL OR CONNECT\<rparr>)],
     dg_members = [(1, []), (2, [])], dg_channels = [(900, sample_channel)], dg_voice_states = [(2, Some 900)], dg_member_count = 2\<rparr>"

lemma sample_bot_facts: "hm_ok (bot_presence sample_bot)" "replica_ok (bot_replica sample_bot)" "serves sample_pairing_config g"
  using replica_reachable_ok [OF sample_reachable]
  by (simp_all add: sample_bot_def hm_ok_def sample_app_def serves_def sample_pairing_config_def)

theorem bot_run_inv_witness:
  "bot_inv sample_pairing_config 60
     (fold (bot_step sample_pairing_config) [EvReady 5, EvGuildCreate sample_discord_guild [], EvMemberRemoval 100 2] sample_bot)"
proof (rule bot_run_inv)
  have "ap_replica (bt_app sample_bot) = sample_replica" by (simp add: sample_bot_def sample_app_def)
  then show "bot_inv sample_pairing_config 60 sample_bot"
    using sample_reachable by (simp add: bot_inv_def sample_bot_facts)
  show "list_all bot_event_ok [EvReady 5, EvGuildCreate sample_discord_guild [], EvMemberRemoval 100 2]"
    by (simp add: sample_discord_guild_def hm_ok_def)
qed

theorem events_evict_exactly_witness:
  "let b' = bot_step sample_pairing_config (EvMemberRemoval 100 2) sample_bot
   in hm_get (bot_presence sample_bot) 7 \<noteq> None \<and> hm_get (bot_presence b') 7 = None \<and> set (bt_removed b') = {(900, 7)}"
proof -
  let ?b = "bot_step sample_pairing_config (EvMemberRemoval 100 2) sample_bot"
  have facts: "room_of_guild (bot_replica ?b) 100 900" "\<not> entitled (bt_app ?b) 900 7" "bt_removed sample_bot = []"
    by code_simp+
  have only: "channel_of (bot_presence sample_bot) u = Some ch \<longleftrightarrow> u = 7 \<and> ch = 900" for u ch
    by (auto simp: sample_bot_def channel_of_def hm_get_def sample_row_def)
  have "{(ch, u). channel_of (bot_presence sample_bot) u = Some ch \<and>
      swept sample_pairing_config (EvMemberRemoval 100 2) (bot_replica ?b) ch \<and> \<not> entitled (bt_app ?b) ch u} = {(900, 7)}"
    using facts by (auto simp: only simp del: bot_step.simps)
  then show ?thesis
    using events_evict_exactly [OF sample_bot_facts(1), of sample_pairing_config "EvMemberRemoval 100 2"] facts(3) only [of 7 900]
    by (auto simp: evicts_def Let_def channel_of_def simp del: bot_step.simps)
qed

theorem guard_follows_last_report_witness:
  "let b = sample_bot\<lparr>bt_app := (bt_app sample_bot)\<lparr>ap_replica := replica_new 60\<rparr>\<rparr>;
       run = (\<lambda>evs. bt_app (fold (bot_step sample_pairing_config) evs b))
   in room_access 200 (run [EvReady 5, EvGuildCreate sample_discord_guild [], EvShardStage 100 OtherStage]) 7 900 = Inl ReplicaStale \<and>
      room_access 200 (run [EvReady 5, EvShardStage 100 OtherStage, EvShardStage 150 OtherStage]) 7 900 \<noteq> Inl ReplicaStale"
proof -
  have start: "bot_replica (sample_bot\<lparr>bt_app := (bt_app sample_bot)\<lparr>ap_replica := replica_new 60\<rparr>\<rparr>) = replica_new 60" by simp
  have "last_report [EvReady 5, EvGuildCreate sample_discord_guild [], EvShardStage 100 OtherStage] = Some (100, False)"
    "last_report [EvReady 5, EvShardStage 100 OtherStage, EvShardStage 150 OtherStage] = Some (150, False)"
    by (simp_all add: last_report_def)
  then show ?thesis
    unfolding Let_def guard_follows_last_report [OF start] by simp
qed

theorem guild_removal_evicts_nobody_witness:
  "channel_of (bot_presence (bot_step sample_pairing_config (EvGuildDelete 100 False) sample_bot)) 7 = Some 900 \<and>
   \<not> may_join (bot_replica (bot_step sample_pairing_config (EvGuildDelete 100 False) sample_bot)) 2 900"
proof -
  have r: "room_of_guild (bot_replica sample_bot) 100 900" "u64_try_from (900 :: i64) = Some 900"
    "channel_of (bot_presence sample_bot) 7 = Some 900" by code_simp+
  from guild_removal_evicts_nobody [OF sample_bot_facts(2), of sample_pairing_config 100] r show ?thesis
    by (auto simp: Let_def)
qed

theorem voice_join_followed_witness:
  "let b' = bot_step sample_pairing_config (EvVoiceState None (Some 100) 2 (Some 900)) sample_bot
   in bot_presence b' = bot_presence sample_bot \<and> bot_replica b' = set_voice 100 2 (Some 900) (bot_replica sample_bot)"
proof -
  have "i64_try_from (900 :: u64) = Some 900" by code_simp
  from voice_join_followed [OF this, of sample_pairing_config 100 2 sample_bot] show ?thesis by (simp add: Let_def)
qed

end
