(* ===== verification/Bot_Announce.thy ===== *)
theory Bot_Announce
  imports Access Auth_Tokens
begin

text \<open>
  \<^verbatim>\<open>crates/bot/src/announce.rs\<close> and \<^verbatim>\<open>crates/db/src/repo/live_tags.rs\<close>: the tag put on the nickname of whoever is
  sharing, and the table that remembers the nickname underneath.  What Discord does is a parameter
  \<open>discord_api\<close> over a world of its own: reading a member, renaming one (which may fail) and the cached
  hierarchy of a guild.  Strings are UTF-8.  A \<^verbatim>\<open>HashSet\<close> is a list in one iteration order.
\<close>

section \<open>Nicknames\<close>

definition PREFIX :: string where
  "PREFIX = map char_of [91, 240, 159, 148, 180, 76, 73, 86, 69, 93, 32 :: nat]"

definition LEGACY_PREFIX :: string where "LEGACY_PREFIX = ''[LIVE] ''"

definition NICK_LIMIT :: nat where "NICK_LIMIT = 32"

datatype rename_verdict = Allowed | Owner | AboveBot

definition may_rename :: "u64 \<Rightarrow> 16 word \<Rightarrow> 16 word \<Rightarrow> u64 \<Rightarrow> rename_verdict" where
  "may_rename target_id target_top_role bot_top_role owner_id =
    (if target_id = owner_id then Owner else if target_top_role \<ge> bot_top_role then AboveBot else Allowed)"

text \<open>The characters of a string, and \<^verbatim>\<open>len_utf16\<close>: two units for a character of four bytes.\<close>

function utf8_chars :: "string \<Rightarrow> string list" where
  "utf8_chars [] = []"
| "utf8_chars (c # cs) = (c # takeWhile is_continuation cs) # utf8_chars (dropWhile is_continuation cs)"
  by pat_completeness auto
termination by (relation "measure length") (auto simp: le_imp_less_Suc length_dropWhile_le)

definition byte_units :: "char \<Rightarrow> nat" where
  "byte_units c = (if is_continuation c then 0 else if 240 \<le> char_code c then 2 else 1)"

definition utf16_count :: "string \<Rightarrow> nat" where
  "utf16_count s = sum_list (map byte_units s)"

fun take_units :: "nat \<Rightarrow> nat \<Rightarrow> string list \<Rightarrow> string list" where
  "take_units room used [] = []"
| "take_units room used (c # cs) =
     (if used + utf16_count c \<le> room then c # take_units room (used + utf16_count c) cs else [])"

definition starts_with :: "string \<Rightarrow> string \<Rightarrow> bool" where
  "starts_with p s \<longleftrightarrow> strip_prefix p s \<noteq> None"

definition tagged_nickname :: "string option \<Rightarrow> string \<Rightarrow> string option" where
  "tagged_nickname current username =
    (let base = (case current of Some n \<Rightarrow> n | None \<Rightarrow> username) in
     if starts_with PREFIX base \<or> starts_with LEGACY_PREFIX base then None
     else (let room = NICK_LIMIT - utf16_count PREFIX
           in Some (PREFIX @ concat (take_units room 0 (utf8_chars base)))))"

section \<open>The table\<close>

record live_tag =
  lt_discord_guild_id :: i64
  lt_discord_user_id :: i64
  lt_previous_nick :: "string option"
  lt_tagged_at :: instant

type_synonym live_tags = "live_tag list"

definition tag_of :: "i64 \<Rightarrow> i64 \<Rightarrow> live_tag \<Rightarrow> bool" where
  "tag_of g u t \<longleftrightarrow> lt_discord_guild_id t = g \<and> lt_discord_user_id t = u"

definition tags_remember :: "i64 \<Rightarrow> i64 \<Rightarrow> string option \<Rightarrow> instant \<Rightarrow> live_tags \<Rightarrow> live_tags" where
  "tags_remember g u nick at t =
    (if list_ex (tag_of g u) t then t
     else t @ [\<lparr>lt_discord_guild_id = g, lt_discord_user_id = u, lt_previous_nick = nick, lt_tagged_at = at\<rparr>])"

definition tags_forget :: "i64 \<Rightarrow> i64 \<Rightarrow> live_tags \<Rightarrow> live_tags \<times> live_tag option" where
  "tags_forget g u t = (filter (\<lambda>r. \<not> tag_of g u r) t, find (tag_of g u) t)"

definition tags_all :: "live_tags \<Rightarrow> live_tags" where
  "tags_all t = sort_key lt_tagged_at t"

section \<open>Discord\<close>

record member_info =
  mi_user_id :: u64
  mi_username :: string
  mi_nick :: "string option"
  mi_roles :: "u64 list"

record guild_cache =
  gca_positions :: "(u64, 16 word) hmap"
  gca_bot_roles :: "u64 list option"
  gca_owner_id :: u64

record 'w discord_api =
  da_member :: "'w \<Rightarrow> u64 \<Rightarrow> u64 \<Rightarrow> member_info option"
  da_rename :: "u64 \<Rightarrow> u64 \<Rightarrow> string \<Rightarrow> 'w \<Rightarrow> 'w \<times> bool"
  da_cache :: "'w \<Rightarrow> u64 \<Rightarrow> guild_cache option"

definition unsigned_abs :: "i64 \<Rightarrow> u64" where
  "unsigned_abs x = (if sint x < 0 then - x else x)"

definition top_role :: "guild_cache \<Rightarrow> u64 list \<Rightarrow> 16 word" where
  "top_role g roles = fold max (List.map_filter (hm_get (gca_positions g)) roles) 0"

definition verdict :: "guild_cache option \<Rightarrow> member_info \<Rightarrow> rename_verdict" where
  "verdict cache member =
    (case cache of
       None \<Rightarrow> AboveBot
     | Some guild \<Rightarrow>
       (case gca_bot_roles guild of
          None \<Rightarrow> AboveBot
        | Some bot_roles \<Rightarrow> may_rename (mi_user_id member) (top_role guild (mi_roles member)) (top_role guild bot_roles) (gca_owner_id guild)))"

section \<open>Applying and restoring\<close>

record 'w tagging =
  tg_tags :: live_tags
  tg_world :: 'w

definition apply_nickname :: "'w discord_api \<Rightarrow> instant \<Rightarrow> i64 \<Rightarrow> i64 \<Rightarrow> 'w tagging \<Rightarrow> 'w tagging" where
  "apply_nickname api now guild_id user_id s =
    (let g = unsigned_abs guild_id; u = unsigned_abs user_id in
     case da_member api (tg_world s) g u of
       None \<Rightarrow> s
     | Some member \<Rightarrow>
       if verdict (da_cache api (tg_world s) g) member \<noteq> Allowed then s
       else case tagged_nickname (mi_nick member) (mi_username member) of
         None \<Rightarrow> s
       | Some nickname \<Rightarrow>
         (let s1 = s\<lparr>tg_tags := tags_remember guild_id user_id (mi_nick member) now (tg_tags s)\<rparr> in
          case da_rename api g u nickname (tg_world s1) of
            (w, ok) \<Rightarrow>
              (if ok then s1\<lparr>tg_world := w\<rparr>
               else s1\<lparr>tg_world := w, tg_tags := fst (tags_forget guild_id user_id (tg_tags s1))\<rparr>)))"

definition restore_nickname :: "'w discord_api \<Rightarrow> i64 \<Rightarrow> i64 \<Rightarrow> 'w tagging \<Rightarrow> 'w tagging" where
  "restore_nickname api guild_id user_id s =
    (case tags_forget guild_id user_id (tg_tags s) of
       (t, None) \<Rightarrow> s\<lparr>tg_tags := t\<rparr>
     | (t, Some saved) \<Rightarrow>
         s\<lparr>tg_tags := t,
           tg_world := fst (da_rename api (unsigned_abs guild_id) (unsigned_abs user_id)
             (case lt_previous_nick saved of None \<Rightarrow> [] | Some n \<Rightarrow> n) (tg_world s))\<rparr>)"

text \<open>The tagged people, as the running task remembers them.\<close>

type_synonym tagged = "(i64 \<times> i64) hset"

definition update_tags ::
  "'w discord_api \<Rightarrow> instant \<Rightarrow> i64 \<Rightarrow> room_broadcast \<Rightarrow> tagged \<times> 'w tagging \<Rightarrow> tagged \<times> 'w tagging" where
  "update_tags api now guild_id snapshot x =
    (let wanted = remdups (rb_publishers snapshot);
         x1 = fold (\<lambda>user (tagged, s).
                 if (guild_id, user) \<in> set tagged then (tagged, s)
                 else (hs_insert (guild_id, user) tagged, apply_nickname api now guild_id user s)) wanted x;
         stale = map snd (filter (\<lambda>(guild, user). guild = guild_id \<and> user \<notin> set wanted) (fst x1))
     in fold (\<lambda>user (tagged, s). (hs_remove (guild_id, user) tagged, restore_nickname api guild_id user s)) stale x1)"

definition apply_snapshot ::
  "'w discord_api \<Rightarrow> instant \<Rightarrow> replica \<Rightarrow> room_broadcast \<Rightarrow> tagged \<times> 'w tagging \<Rightarrow> tagged \<times> 'w tagging" where
  "apply_snapshot api now r snapshot x =
    (case channel_info r (unsigned_abs (rb_discord_channel_id snapshot)) of
       None \<Rightarrow> x
     | Some (guild, _) \<Rightarrow> update_tags api now (i64_or_default guild) snapshot x)"

definition sweep_stale_tags :: "'w discord_api \<Rightarrow> 'w tagging \<Rightarrow> 'w tagging" where
  "sweep_stale_tags api s =
     fold (\<lambda>tag. restore_nickname api (lt_discord_guild_id tag) (lt_discord_user_id tag)) (tags_all (tg_tags s)) s"

section \<open>The loop\<close>

datatype announce_event = Received room_broadcast | Lagged | ClosedChannel | FlushTick instant replica

record 'w announcer =
  an_pending :: "(i64, room_broadcast) hmap"
  an_tagged :: tagged
  an_tagging :: "'w tagging"
  an_running :: bool

definition announce_step :: "'w discord_api \<Rightarrow> announce_event \<Rightarrow> 'w announcer \<Rightarrow> 'w announcer" where
  "announce_step api ev a =
    (if \<not> an_running a then a
     else case ev of
       Received b \<Rightarrow> a\<lparr>an_pending := hm_insert (rb_discord_channel_id b) b (an_pending a)\<rparr>
     | Lagged \<Rightarrow> a
     | ClosedChannel \<Rightarrow> a\<lparr>an_running := False\<rparr>
     | FlushTick now r \<Rightarrow>
         (case fold (\<lambda>(_, b). apply_snapshot api now r b) (an_pending a) (an_tagged a, an_tagging a) of
            (tagged, s) \<Rightarrow> a\<lparr>an_pending := [], an_tagged := tagged, an_tagging := s\<rparr>))"

text \<open>\<^verbatim>\<open>spawn\<close>: the sweep comes before the loop.\<close>

definition announcer_start :: "'w discord_api \<Rightarrow> 'w tagging \<Rightarrow> 'w announcer" where
  "announcer_start api s =
     \<lparr>an_pending = [], an_tagged = [], an_tagging = sweep_stale_tags api s, an_running = True\<rparr>"

section \<open>The tagged nickname\<close>

lemma utf16_append [simp]: "utf16_count (xs @ ys) = utf16_count xs + utf16_count ys"
  by (simp add: utf16_count_def)

lemma prefix_units: "utf16_count PREFIX = 9" "NICK_LIMIT - utf16_count PREFIX = 23"
  by code_simp+

lemma concat_utf8_chars [simp]: "concat (utf8_chars s) = s"
  by (induction s rule: utf8_chars.induct) simp_all

lemma starts_with_append [simp]: "starts_with p (p @ s)"
  by (induction p) (simp_all add: starts_with_def)

lemma take_units_fits: "used \<le> room \<Longrightarrow> used + utf16_count (concat (take_units room used cs)) \<le> room"
proof (induction room used cs rule: take_units.induct)
  case (1 room used)
  then show ?case by (simp add: utf16_count_def)
qed (auto simp: utf16_count_def)

lemma take_units_take:
  "\<exists>k \<le> length cs. take_units room used cs = take k cs \<and>
     (k < length cs \<longrightarrow> room < used + utf16_count (concat (take (Suc k) cs)))"
proof (induction room used cs rule: take_units.induct)
  case (2 room used c cs)
  show ?case
  proof (cases "used + utf16_count c \<le> room")
    case True
    then obtain k where "k \<le> length cs" "take_units room (used + utf16_count c) cs = take k cs"
      "k < length cs \<longrightarrow> room < used + utf16_count c + utf16_count (concat (take (Suc k) cs))" using 2 by blast
    with True show ?thesis by (intro exI [of _ "Suc k"]) (simp add: add.assoc)
  next
    case False
    then show ?thesis by (intro exI [of _ 0]) simp
  qed
qed simp

text \<open>
  The tag always fits and never stacks: a nickname that gets tagged is the prefix followed by whole characters of
  the old one, as many as fit in Discord's 32 UTF-16 units, and tagging it again does nothing.
\<close>
theorem tagged_nickname_fits:
  "case tagged_nickname current username of
     None \<Rightarrow> starts_with PREFIX (coalesce current username) \<or> starts_with LEGACY_PREFIX (coalesce current username)
   | Some nick \<Rightarrow>
       utf16_count nick \<le> NICK_LIMIT \<and> tagged_nickname (Some nick) other = None \<and>
       (\<exists>k \<le> length (utf8_chars (coalesce current username)).
          nick = PREFIX @ concat (take k (utf8_chars (coalesce current username))) \<and>
          (k = length (utf8_chars (coalesce current username)) \<or>
           NICK_LIMIT < utf16_count (PREFIX @ concat (take (Suc k) (utf8_chars (coalesce current username))))))"
proof (cases "tagged_nickname current username")
  case None
  then show ?thesis by (auto simp: tagged_nickname_def Let_def coalesce_def split: option.splits if_splits)
next
  case (Some nick)
  let ?cs = "utf8_chars (coalesce current username)"
  obtain k where k: "k \<le> length ?cs" "take_units 23 0 ?cs = take k ?cs" "k < length ?cs \<longrightarrow> 23 < utf16_count (concat (take (Suc k) ?cs))"
    using take_units_take [of ?cs 23 0] by auto
  have n: "nick = PREFIX @ concat (take_units 23 0 ?cs)"
    using Some by (auto simp: tagged_nickname_def Let_def coalesce_def prefix_units NICK_LIMIT_def split: option.splits if_splits)
  have "utf16_count nick \<le> NICK_LIMIT"
    using take_units_fits [of 0 23 ?cs] by (simp add: n prefix_units NICK_LIMIT_def)
  moreover have "tagged_nickname (Some nick) other = None"
    by (simp add: tagged_nickname_def Let_def n)
  moreover have "\<exists>k \<le> length ?cs. nick = PREFIX @ concat (take k ?cs) \<and>
      (k = length ?cs \<or> NICK_LIMIT < utf16_count (PREFIX @ concat (take (Suc k) ?cs)))"
    using k by (intro exI [of _ k]) (auto simp: n prefix_units NICK_LIMIT_def)
  ultimately show ?thesis using Some by simp
qed

section \<open>The table\<close>

lemma tag_of_self [simp]: "tag_of (lt_discord_guild_id r) (lt_discord_user_id r) r"
  by (simp add: tag_of_def)

lemma tags_forget_remember:
  assumes "\<not> list_ex (tag_of g u) t"
  shows "tags_forget g u (tags_remember g u nick at t) =
    (t, Some \<lparr>lt_discord_guild_id = g, lt_discord_user_id = u, lt_previous_nick = nick, lt_tagged_at = at\<rparr>)"
proof -
  have "find (tag_of g u) t = None" "filter (\<lambda>r. \<not> tag_of g u r) t = t"
    using assms by (auto simp: find_None_iff list_ex_iff intro: filter_True)
  with assms show ?thesis by (simp add: tags_forget_def tags_remember_def find_append tag_of_def)
qed

lemma tags_forget_absent: "\<not> list_ex (tag_of g u) t \<Longrightarrow> tags_forget g u t = (t, None)"
  by (auto simp: tags_forget_def find_None_iff list_ex_iff intro: filter_True)

lemma restore_tags: "tg_tags (restore_nickname api g u s) = filter (\<lambda>r. \<not> tag_of g u r) (tg_tags s)"
  by (simp add: restore_nickname_def tags_forget_def split: option.split)

lemma sweep_tags:
  "tg_tags (fold (\<lambda>tag. restore_nickname api (lt_discord_guild_id tag) (lt_discord_user_id tag)) ts s) =
     filter (\<lambda>r. \<forall>tag \<in> set ts. \<not> tag_of (lt_discord_guild_id tag) (lt_discord_user_id tag) r) (tg_tags s)"
  by (induction ts arbitrary: s) (auto simp: restore_tags intro!: filter_cong)

lemma sweep_stale_empties: "tg_tags (sweep_stale_tags api s) = []"
  by (force simp: sweep_stale_tags_def sweep_tags tags_all_def filter_empty_conv)

section \<open>Undoing the tag\<close>

text \<open>
  What the documentation of Discord says of renaming: an empty nickname is none, and nobody but the member is touched.
  A call that fails may still have been served, when only its answer was lost, so it leaves the member as they
  were or as it asked.
\<close>

definition renamed :: "string \<Rightarrow> member_info option \<Rightarrow> member_info option" where
  "renamed n m = map_option (\<lambda>m. m\<lparr>mi_nick := if n = [] then None else Some n\<rparr>) m"

definition renames_honestly :: "'w discord_api \<Rightarrow> bool" where
  "renames_honestly api \<longleftrightarrow> (\<forall>g u n w.
     let after = da_member api (fst (da_rename api g u n w)); before = da_member api w in
     (\<forall>g' u'. (g', u') \<noteq> (g, u) \<longrightarrow> after g' u' = before g' u') \<and>
     (after g u = renamed n (before g u) \<or> \<not> snd (da_rename api g u n w) \<and> after g u = before g u))"

lemma honest_others:
  "renames_honestly api \<Longrightarrow> (g', u') \<noteq> (g, u) \<Longrightarrow> da_member api (fst (da_rename api g u n w)) g' u' = da_member api w g' u'"
  unfolding renames_honestly_def Let_def by blast

lemma honest_member:
  "renames_honestly api \<Longrightarrow> da_member api (fst (da_rename api g u n w)) g u = renamed n (da_member api w g u) \<or>
     \<not> snd (da_rename api g u n w) \<and> da_member api (fst (da_rename api g u n w)) g u = da_member api w g u"
  unfolding renames_honestly_def Let_def by blast

lemma tagged_nickname_nonempty: "tagged_nickname current username = Some n \<Longrightarrow> n \<noteq> []"
  by (auto simp: tagged_nickname_def Let_def PREFIX_def split: if_splits)

text \<open>The two renames of a tag put on and taken off at once, with the answer to the first.\<close>

lemma apply_restore:
  assumes untagged: "\<not> list_ex (tag_of g u) (tg_tags s)"
    and m: "da_member api (tg_world s) (unsigned_abs g) (unsigned_abs u) = Some m"
      "verdict (da_cache api (tg_world s) (unsigned_abs g)) m = Allowed" "tagged_nickname (mi_nick m) (mi_username m) = Some nick"
  defines "r \<equiv> da_rename api (unsigned_abs g) (unsigned_abs u) nick (tg_world s)"
  shows "tg_world (apply_nickname api now g u s) = fst r"
    and "restore_nickname api g u (apply_nickname api now g u s) =
      s\<lparr>tg_world := if snd r then fst (da_rename api (unsigned_abs g) (unsigned_abs u) (coalesce (mi_nick m) []) (fst r)) else fst r\<rparr>"
  using m tags_forget_remember [OF untagged] tags_forget_absent [OF untagged]
  by (auto simp: apply_nickname_def restore_nickname_def r_def Let_def case_prod_beta coalesce_def split: option.splits)

text \<open>
  C38.  A tag is undone unless Discord fails the bot: tagging a member the table has no record of and untagging them right
  after, with any role, rank or nickname, leaves the table and every other member as they were, and gives the member
  back the nickname they had, none if they had none.  The one exception is a rename call that failed: then the member may
  be left with the tagged nickname, and with no record of it in the table.
\<close>
theorem tag_is_undone_unless_refused:
  assumes api: "renames_honestly api"
    and nick: "\<And>m. da_member api (tg_world s) (unsigned_abs g) (unsigned_abs u) = Some m \<Longrightarrow> mi_nick m \<noteq> Some []"
    and untagged: "\<not> list_ex (tag_of g u) (tg_tags s)"
  shows "let s1 = apply_nickname api now g u s; s2 = restore_nickname api g u s1; g' = unsigned_abs g; u' = unsigned_abs u;
      old = da_member api (tg_world s); new = da_member api (tg_world s2) in
    tg_tags s2 = tg_tags s \<and> (\<forall>x y. (x, y) \<noteq> (g', u') \<longrightarrow> new x y = old x y) \<and>
    (new g' u' = old g' u' \<or>
     (\<exists>m tag. old g' u' = Some m \<and> tagged_nickname (mi_nick m) (mi_username m) = Some tag \<and>
        new g' u' = Some (m\<lparr>mi_nick := Some tag\<rparr>) \<and>
        \<not> (snd (da_rename api g' u' tag (tg_world s)) \<and> snd (da_rename api g' u' (coalesce (mi_nick m) []) (tg_world s1)))))"
proof -
  let ?g = "unsigned_abs g" and ?u = "unsigned_abs u"
  show ?thesis
  proof (cases "apply_nickname api now g u s = s")
    case True
    moreover have "restore_nickname api g u s = s"
      using tags_forget_absent [OF untagged] by (simp add: restore_nickname_def)
    ultimately show ?thesis by (simp add: Let_def)
  next
    case False
    then obtain m tag where m: "da_member api (tg_world s) ?g ?u = Some m"
      "verdict (da_cache api (tg_world s) ?g) m = Allowed" "tagged_nickname (mi_nick m) (mi_username m) = Some tag"
      by (auto simp: apply_nickname_def Let_def split: option.splits if_splits)
    note run = apply_restore [OF untagged m, of now]
    let ?r = "da_rename api ?g ?u tag (tg_world s)" and ?prev = "coalesce (mi_nick m) []"
    have others: "da_member api (tg_world (restore_nickname api g u (apply_nickname api now g u s))) x y = da_member api (tg_world s) x y"
      if "(x, y) \<noteq> (?g, ?u)" for x y
      using honest_others [OF api that] by (simp add: run(2))
    have tag: "renamed tag (Some m) = Some (m\<lparr>mi_nick := Some tag\<rparr>)"
      using tagged_nickname_nonempty [OF m(3)] by (simp add: renamed_def)
    have restored: "renamed ?prev (Some m) = Some m" "renamed ?prev (Some (m\<lparr>mi_nick := Some tag\<rparr>)) = Some m"
      using nick [OF m(1)] by (cases m; cases "mi_nick m"; simp add: renamed_def coalesce_def)+
    show ?thesis
      using m(1,3) others honest_member [OF api, of ?g ?u tag "tg_world s"] honest_member [OF api, of ?g ?u ?prev "fst ?r"] tag restored
      by (auto simp: Let_def run)
  qed
qed

text \<open>
  A rename that Discord refuses strands the tag: untagging forgets the saved nickname before it renames, so when
  the rename fails the member keeps the tag and no record of it is left for the next start to clean up.
\<close>
theorem failed_restore_strands_tag:
  assumes "list_ex (tag_of g u) (tg_tags s)"
    and "\<And>n. da_rename api (unsigned_abs g) (unsigned_abs u) n (tg_world s) = (tg_world s, False)"
  shows "let s' = restore_nickname api g u s
    in tg_world s' = tg_world s \<and> \<not> list_ex (tag_of g u) (tg_tags s') \<and> restore_nickname api g u s' = s'"
proof -
  have "tg_world (restore_nickname api g u s) = tg_world s"
    using assms(2) by (simp add: restore_nickname_def split: option.split prod.split)
  moreover have gone: "\<not> list_ex (tag_of g u) (tg_tags (restore_nickname api g u s))"
    by (simp add: restore_tags list_ex_iff)
  moreover have "restore_nickname api g u (restore_nickname api g u s) = restore_nickname api g u s"
    using tags_forget_absent [OF gone] by (simp add: restore_nickname_def [of api g u "restore_nickname api g u s"])
  ultimately show ?thesis by (simp add: Let_def)
qed

section \<open>Following the snapshots\<close>

lemma tag_wanted:
  "set (fst (fold (\<lambda>user (tagged, s). if (g, user) \<in> set tagged then (tagged, s)
       else (hs_insert (g, user) tagged, apply_nickname api now g user s)) us x)) = set (fst x) \<union> Pair g ` set us"
  by (induction us arbitrary: x) (auto simp: case_prod_beta)

lemma untag_stale:
  "set (fst (fold (\<lambda>user (tagged, s). (hs_remove (g, user) tagged, restore_nickname api g user s)) us x)) =
     set (fst x) - Pair g ` set us"
  "tg_tags (snd (fold (\<lambda>user (tagged, s). (hs_remove (g, user) tagged, restore_nickname api g user s)) us x)) =
     filter (\<lambda>r. \<forall>u \<in> set us. \<not> tag_of g u r) (tg_tags (snd x))"
  by (induction us arbitrary: x) (auto simp: case_prod_beta restore_tags intro!: filter_cong)

lemma stale_untagged:
  assumes "(g, u) \<in> set (fst x)" and "u \<notin> set (rb_publishers b)"
  shows "\<not> list_ex (tag_of g u) (tg_tags (snd (update_tags api now g b x)))"
  using assms by (auto simp: update_tags_def Let_def untag_stale tag_wanted list_ex_iff image_iff)

lemma tagged_after:
  "set (fst (update_tags api now g b x)) = {t \<in> set (fst x). fst t \<noteq> g} \<union> Pair g ` set (rb_publishers b)"
  by (auto simp: update_tags_def Let_def untag_stale tag_wanted image_iff)

text \<open>
  Who the bot holds as tagged in a guild after a snapshot is exactly who is publishing in it: members of other
  guilds are left alone, and nobody of this guild is kept from before.
\<close>
theorem tags_follow_snapshot:
  "set (fst (update_tags api now g b x)) = {t \<in> set (fst x). fst t \<noteq> g} \<union> Pair g ` set (rb_publishers b)"
  by (rule tagged_after)

text \<open>
  Two rooms of one guild undo each other: a snapshot of room \<open>A\<close> tags its publisher, and a later snapshot of room
  \<open>B\<close>, where they are not, untags them and deletes the saved nickname, although they are still live in \<open>A\<close>.
\<close>
theorem other_room_untags:
  assumes "channel_info r (unsigned_abs (rb_discord_channel_id a)) = Some (guild, n)"
    and "channel_info r (unsigned_abs (rb_discord_channel_id b)) = Some (guild, m)"
    and "u \<in> set (rb_publishers a)" and "u \<notin> set (rb_publishers b)"
  shows "let x1 = apply_snapshot api now r a x; x2 = apply_snapshot api later r b x1; g = i64_or_default guild
    in (g, u) \<in> set (fst x1) \<and> (g, u) \<notin> set (fst x2) \<and> \<not> list_ex (tag_of g u) (tg_tags (snd x2))"
proof -
  let ?g = "i64_or_default guild"
  let ?x1 = "apply_snapshot api now r a x"
  have x1: "(?g, u) \<in> set (fst ?x1)"
    using assms(1,3) tagged_after [of api now ?g a x] by (simp add: apply_snapshot_def)
  have "(?g, u) \<notin> set (fst (apply_snapshot api later r b ?x1))"
    using assms(2,4) tagged_after [of api later ?g b ?x1] by (auto simp: apply_snapshot_def)
  moreover have "\<not> list_ex (tag_of ?g u) (tg_tags (snd (apply_snapshot api later r b ?x1)))"
    using assms(2) stale_untagged [OF x1 assms(4)] by (simp add: apply_snapshot_def)
  ultimately show ?thesis using x1 by (simp add: Let_def)
qed

section \<open>Witnesses\<close>

type_synonym sample_world = "u64 \<times> u64 \<Rightarrow> member_info option"

definition sample_discord :: "bool \<Rightarrow> sample_world discord_api" where
  "sample_discord works = \<lparr>da_member = (\<lambda>w g u. w (g, u)),
     da_rename = (\<lambda>g u n w.
       if works then (w((g, u) := map_option (\<lambda>m. m\<lparr>mi_nick := if n = [] then None else Some n\<rparr>) (w (g, u))), True)
       else (w, False)),
     da_cache = (\<lambda>w g. Some \<lparr>gca_positions = [(5, 3)], gca_bot_roles = Some [5], gca_owner_id = 1\<rparr>)\<rparr>"

definition sample_members :: sample_world where
  "sample_members = (\<lambda>(g, u). if g = 100 \<and> u = 2 then Some \<lparr>mi_user_id = 2, mi_username = ''ana'', mi_nick = None, mi_roles = []\<rparr> else None)"

definition sample_tagging :: "sample_world tagging" where
  "sample_tagging = \<lparr>tg_tags = [], tg_world = sample_members\<rparr>"

text \<open>The witness member does get a tag in between.\<close>

lemma sample_tagged:
  "let s = apply_nickname (sample_discord True) 0 100 2 sample_tagging
   in map lt_previous_nick (tg_tags s) = [None] \<and> map_option mi_nick (tg_world s (100, 2)) = Some (Some (PREFIX @ ''ana''))"
  by code_simp

theorem tag_is_undone_unless_refused_witness:
  "let s' = restore_nickname (sample_discord True) 100 2 (apply_nickname (sample_discord True) 0 100 2 sample_tagging)
   in tg_tags s' = [] \<and> map_option mi_nick (tg_world s' (100, 2)) = Some None"
proof -
  have a: "renames_honestly (sample_discord True)"
    by (auto simp: renames_honestly_def sample_discord_def renamed_def Let_def)
  have m: "mi_nick m \<noteq> Some []"
    if "da_member (sample_discord True) (tg_world sample_tagging) (unsigned_abs 100) (unsigned_abs 2) = Some m" for m
    using that by (auto simp: sample_discord_def sample_tagging_def sample_members_def split: if_splits)
  have u: "\<not> list_ex (tag_of 100 2) (tg_tags sample_tagging)" by (simp add: sample_tagging_def)
  have ok: "snd (da_rename (sample_discord True) g u n w)" for g u n w by (simp add: sample_discord_def)
  let ?s' = "restore_nickname (sample_discord True) 100 2 (apply_nickname (sample_discord True) 0 100 2 sample_tagging)"
  have ids: "unsigned_abs 100 = 100" "unsigned_abs 2 = 2" by code_simp+
  have "tg_tags ?s' = tg_tags sample_tagging"
    "da_member (sample_discord True) (tg_world ?s') 100 2 = da_member (sample_discord True) (tg_world sample_tagging) 100 2"
    using tag_is_undone_unless_refused [OF a m u, of 0] ok by (simp_all add: Let_def ids)
  then show ?thesis by (simp add: sample_discord_def sample_tagging_def sample_members_def Let_def)
qed

text \<open>A Discord that refuses everything is honest too.\<close>

lemma refusing_is_honest: "renames_honestly (sample_discord False)"
  by (auto simp: renames_honestly_def sample_discord_def Let_def)

theorem failed_restore_strands_tag_witness:
  "let s = sample_tagging\<lparr>tg_tags := tags_remember 100 2 None 0 []\<rparr>; s' = restore_nickname (sample_discord False) 100 2 s
   in tg_world s' = tg_world s \<and> list_ex (tag_of 100 2) (tg_tags s) \<and> \<not> list_ex (tag_of 100 2) (tg_tags s')"
proof -
  have t: "list_ex (tag_of 100 2) (tg_tags (sample_tagging\<lparr>tg_tags := tags_remember 100 2 None 0 []\<rparr>))"
    by (simp add: tags_remember_def tag_of_def)
  have r: "da_rename (sample_discord False) (unsigned_abs 100) (unsigned_abs 2) n
      (tg_world (sample_tagging\<lparr>tg_tags := tags_remember 100 2 None 0 []\<rparr>)) =
      (tg_world (sample_tagging\<lparr>tg_tags := tags_remember 100 2 None 0 []\<rparr>), False)" for n
    by (simp add: sample_discord_def)
  from failed_restore_strands_tag [OF t r] t show ?thesis by (simp add: Let_def)
qed

theorem other_room_untags_witness:
  "let r = replace_guild (sample_guild\<lparr>gd_channels := [(900, \<lparr>cd_id = 900, cd_name = ''jogos'', cd_overwrites = []\<rparr>),
             (901, \<lparr>cd_id = 901, cd_name = ''musica'', cd_overwrites = []\<rparr>)]\<rparr>) (replica_new 60);
       x1 = apply_snapshot (sample_discord True) 0 r \<lparr>rb_discord_channel_id = 900, rb_publishers = [2], rb_viewers = 0\<rparr> ([], sample_tagging);
       x2 = apply_snapshot (sample_discord True) 1 r \<lparr>rb_discord_channel_id = 901, rb_publishers = [], rb_viewers = 3\<rparr> x1
   in (100, 2) \<in> set (fst x1) \<and> (100, 2) \<notin> set (fst x2)"
proof -
  let ?r = "replace_guild (sample_guild\<lparr>gd_channels := [(900, \<lparr>cd_id = 900, cd_name = ''jogos'', cd_overwrites = []\<rparr>),
             (901, \<lparr>cd_id = 901, cd_name = ''musica'', cd_overwrites = []\<rparr>)]\<rparr>) (replica_new 60)"
  let ?a = "\<lparr>rb_discord_channel_id = 900, rb_publishers = [2], rb_viewers = 0\<rparr>"
  let ?b = "\<lparr>rb_discord_channel_id = 901, rb_publishers = [], rb_viewers = 3\<rparr>"
  have i: "channel_info ?r (unsigned_abs (rb_discord_channel_id ?a)) = Some (100, ''jogos'')"
    "channel_info ?r (unsigned_abs (rb_discord_channel_id ?b)) = Some (100, ''musica'')" by code_simp+
  have u: "2 \<in> set (rb_publishers ?a)" "2 \<notin> set (rb_publishers ?b)" by simp_all
  have "i64_or_default 100 = 100" by code_simp
  with other_room_untags [OF i u, of "sample_discord True" 0 "([], sample_tagging)" 1] show ?thesis by (simp add: Let_def)
qed

end
