(* ===== verification/Http_Edge.thy ===== *)
theory Http_Edge
  imports Wire
begin

text \<open>
  The edge of the HTTP server: the extractors that turn axum's rejections into the contract's errors
  (\<^verbatim>\<open>crates/api/src/extract.rs\<close>) and the request id (\<^verbatim>\<open>crates/api/src/middleware/request_id.rs\<close>).  What axum made
  of a body, a path or a query is an argument: a value, or its rejection with the text it carries.
\<close>

section \<open>Extractors\<close>

datatype json_rejection = BytesRejection | JsonText string

datatype path_rejection = MissingPathParams string | BadPath string

definition is_alphanumeric :: "char \<Rightarrow> bool" where
  "is_alphanumeric c \<longleftrightarrow> is_digit c \<or> 65 \<le> char_code c \<and> char_code c \<le> 90 \<or> 97 \<le> char_code c \<and> char_code c \<le> 122"

text \<open>\<^verbatim>\<open>split_once(pat).map(|(_, rest)| rest)\<close>\<close>

fun after_first :: "string \<Rightarrow> string \<Rightarrow> string option" where
  "after_first pat [] = (if pat = [] then Some [] else None)"
| "after_first pat (c # cs) = (case strip_prefix pat (c # cs) of Some rest \<Rightarrow> Some rest | None \<Rightarrow> after_first pat cs)"

definition path_char :: "char \<Rightarrow> bool" where
  "path_char c \<longleftrightarrow> is_alphanumeric c \<or> c \<in> {CHR ''_'', CHR ''.'', CHR ''['', CHR '']''}"

definition looks_like_a_path :: "string \<Rightarrow> bool" where
  "looks_like_a_path s \<longleftrightarrow> s \<noteq> [] \<and> length s \<le> 64 \<and> list_all path_char s"

definition field_from_serde_message :: "string \<Rightarrow> string" where
  "field_from_serde_message message =
    (let tail = (case after_first ''target type: '' message of Some rest \<Rightarrow> rest | None \<Rightarrow> message);
         candidate = str_trim (takeWhile (\<lambda>c. c \<noteq> CHR '':'') tail)
     in if looks_like_a_path candidate then candidate else ''body'')"

definition invalid_format :: "string \<Rightarrow> app_error" where
  "invalid_format detail =
     Validation [(field_from_serde_message detail, ''INVALID_FORMAT'')]"

definition map_json_rejection :: "json_rejection \<Rightarrow> app_error" where
  "map_json_rejection r = (case r of BytesRejection \<Rightarrow> PayloadTooLarge | JsonText detail \<Rightarrow> invalid_format detail)"

definition map_query_rejection :: "string \<Rightarrow> app_error" where
  "map_query_rejection detail = invalid_format detail"

definition json_from_request :: "json_rejection + 'a \<Rightarrow> app_error + 'a" where
  "json_from_request r = (case r of Inr v \<Rightarrow> Inr v | Inl rej \<Rightarrow> Inl (map_json_rejection rej))"

definition path_from_request :: "path_rejection + 'a \<Rightarrow> app_error + 'a" where
  "path_from_request r =
    (case r of
       Inr v \<Rightarrow> Inr v
     | Inl (MissingPathParams e) \<Rightarrow> Inl (Internal (''path params: '' @ e))
     | Inl (BadPath _) \<Rightarrow> Inl (invisible ''resource''))"

definition query_from_request :: "string + 'a \<Rightarrow> app_error + 'a" where
  "query_from_request r = (case r of Inr v \<Rightarrow> Inr v | Inl detail \<Rightarrow> Inl (map_query_rejection detail))"

section \<open>The request id\<close>

definition id_char :: "char \<Rightarrow> bool" where
  "id_char c \<longleftrightarrow> is_alphanumeric c \<or> c = CHR ''-'' \<or> c = CHR ''_''"

definition sanitise :: "string \<Rightarrow> string option" where
  "sanitise value =
    (let trimmed = str_trim value in
     if 8 \<le> length trimmed \<and> length trimmed \<le> 64 \<and> list_all id_char trimmed then Some trimmed else None)"

text \<open>
  \<open>inbound\<close> is the header as text, if it is there and is text; \<open>fresh\<close> what a new id would be.  The response
  carries the id the request ran under.
\<close>

definition propagate :: "string option \<Rightarrow> string \<Rightarrow> (string \<Rightarrow> error_response) \<Rightarrow> string \<times> error_response" where
  "propagate inbound fresh next =
    (let i = (case Option.bind inbound sanitise of Some v \<Rightarrow> v | None \<Rightarrow> fresh)
     in (i, next i))"

section \<open>Properties\<close>

definition safe_to_log :: "string \<Rightarrow> bool" where
  "safe_to_log s \<longleftrightarrow> 8 \<le> length s \<and> length s \<le> 64 \<and> list_all id_char s"

lemma sanitise_safe: "sanitise v = Some s \<Longrightarrow> safe_to_log s"
  by (auto simp: sanitise_def safe_to_log_def Let_def split: if_splits)

lemma field_safe: "field_from_serde_message m = ''body'' \<or> looks_like_a_path (field_from_serde_message m)"
  by (simp add: field_from_serde_message_def Let_def)

text \<open>
  The edge never passes raw client text on: a body or query that axum refuses answers 413, or 400 with one field,
  which is \<^verbatim>\<open>body\<close> or at most 64 characters of a path, and the fixed code; a bad path answers as a hidden
  resource does; and the request id a request runs under is the fresh one or a short word safe to log.
\<close>
theorem edge_never_echoes:
  "(case map_json_rejection r of
      PayloadTooLarge \<Rightarrow> True
    | Validation [(field, code)] \<Rightarrow> code = ''INVALID_FORMAT'' \<and> (field = ''body'' \<or> looks_like_a_path field)
    | _ \<Rightarrow> False) \<and>
   map_query_rejection q = invalid_format q \<and>
   path_from_request (Inl (BadPath p)) = Inl (invisible ''resource'') \<and>
   (fst (propagate inbound fresh next) = fresh \<or> safe_to_log (fst (propagate inbound fresh next)))"
proof -
  have "fst (propagate inbound fresh next) = fresh \<or> safe_to_log (fst (propagate inbound fresh next))"
    by (auto simp: propagate_def Let_def sanitise_safe split: option.split Option.bind_split)
  then show ?thesis
    using field_safe
    by (auto simp: map_json_rejection_def map_query_rejection_def invalid_format_def path_from_request_def
        split: json_rejection.split)
qed

lemma field_recovered:
  "field_from_serde_message (''Failed to deserialize the JSON body into the target type: '' @ ''positions[0].id'' @ '': invalid length'')
     = ''positions[0].id''"
  by code_simp

end
