(* ===== verification/Server_Start.thy ===== *)
theory Server_Start
  imports Rooms_Service Config
begin

text \<open>
  \<^verbatim>\<open>crates/server/src/main.rs\<close>, \<^verbatim>\<open>crates/api/src/lib.rs\<close>, \<^verbatim>\<open>crates/db/src/lib.rs\<close> and \<^verbatim>\<open>crates/api/src/routes/health.rs\<close>:
  how the process starts over the tables it finds, in what order it gives up, the routes it answers, and how it goes
  down.  Postgres, the listener and the runtime appear as their answers (\<open>start_deps\<close>).  The start touches no other
  table than \<^verbatim>\<open>share_sessions\<close>, so \<open>database\<close> holds the tables of the shared state only.
\<close>

section \<open>Routes (api/src/lib.rs, routes)\<close>

datatype http_method = GET_Method | POST_Method

definition API_BASE :: string where "API_BASE = ''/api/v1''"
definition MAX_BODY_BYTES :: nat where "MAX_BODY_BYTES = 16 * 1024"

definition ALLOWED_ORIGINS :: "string list" where
  "ALLOWED_ORIGINS = [''http://localhost:1420'', ''http://127.0.0.1:1420'', ''http://tauri.localhost'',
     ''https://tauri.localhost'', ''tauri://localhost'']"

definition cors_methods :: "http_method list" where
  "cors_methods = [GET_Method, POST_Method]"

definition health_routes :: "(http_method \<times> string) list" where
  "health_routes = [(GET_Method, ''/health'')]"

definition auth_routes :: "(http_method \<times> string) list" where
  "auth_routes = [(POST_Method, ''/auth/pair''), (POST_Method, ''/auth/refresh''), (POST_Method, ''/auth/logout'')]"

definition users_routes :: "(http_method \<times> string) list" where
  "users_routes = [(GET_Method, ''/users/@me'')]"

definition rooms_routes :: "(http_method \<times> string) list" where
  "rooms_routes = [(GET_Method, ''/rooms/{discord_channel_id}''), (POST_Method, ''/rooms/{discord_channel_id}/token''),
     (POST_Method, ''/internal/livekit/webhook'')]"

definition rest_routes :: "(http_method \<times> string) list" where
  "rest_routes = health_routes @ auth_routes @ users_routes @ rooms_routes"

definition gateway_routes :: "(http_method \<times> string) list" where
  "gateway_routes = [(GET_Method, ''/gateway'')]"

definition router :: "(http_method \<times> string) list" where
  "router = map (\<lambda>(m, path). (m, API_BASE @ path)) rest_routes @ gateway_routes"

definition health :: "string \<Rightarrow> string \<times> string" where
  "health version = (''ok'', version)"

section \<open>Start (server/src/main.rs)\<close>

datatype startup_error =
    Loading_Configuration config_error
  | Building_Runtime string
  | Unknown_Subcommand string
  | Connecting_To_Postgres string
  | Applying_Migrations string
  | Binding string

text \<open>\<open>args\<close> with the name of the program first.\<close>

definition run_server ::
  "config_error + 'addr config \<Rightarrow> string + unit \<Rightarrow> string list \<Rightarrow> ('addr config \<Rightarrow> startup_error + 'a) \<Rightarrow> startup_error + 'a" where
  "run_server config runtime args serving =
     (case config of
        Inl e \<Rightarrow> Inl (Loading_Configuration e)
      | Inr c \<Rightarrow>
        (case runtime of
           Inl e \<Rightarrow> Inl (Building_Runtime e)
         | Inr _ \<Rightarrow> (case drop 1 args of [] \<Rightarrow> serving c | other # _ \<Rightarrow> Inl (Unknown_Subcommand other))))"

datatype exit_code = Exit_Success | Exit_Failure

definition main_exit :: "startup_error + 'a \<Rightarrow> exit_code" where
  "main_exit r = (case r of Inl _ \<Rightarrow> Exit_Failure | Inr _ \<Rightarrow> Exit_Success)"

record database =
  db_users :: users
  db_presence :: presence
  db_shares :: share_sessions

record 'addr start_deps =
  sd_connect :: "string \<Rightarrow> int \<Rightarrow> string + unit"
  sd_migrate :: "database \<Rightarrow> database \<times> (string + unit)"
  sd_close :: "string + unit"
  sd_bind :: "'addr \<Rightarrow> string + unit"

definition open_database :: "'addr start_deps \<Rightarrow> 'addr config \<Rightarrow> database \<Rightarrow> database \<times> (startup_error + unit)" where
  "open_database deps config db =
     (case sd_connect deps (cf_database_url config) (cf_database_max_connections config) of
        Inl e \<Rightarrow> (db, Inl (Connecting_To_Postgres e))
      | Inr _ \<Rightarrow> (case sd_migrate deps db of
          (db', Inl e) \<Rightarrow> (db', Inl (Applying_Migrations e))
        | (db', Inr _) \<Rightarrow> (db', Inr ())))"

text \<open>\<^verbatim>\<open>AppState::new\<close> over a pool: what lives in memory starts empty, what lives in the tables is what they hold.\<close>

definition app_over :: "database \<Rightarrow> 'addr config \<Rightarrow> app_state" where
  "app_over db config =
     (app_state_new (db_users db) (cf_gateway config) (cf_rooms config) (dc_replica_grace_seconds (cf_discord config)))
       \<lparr>ap_presence := db_presence db, ap_shares := db_shares db\<rparr>"

text \<open>\<^verbatim>\<open>serve\<close> up to the first request: closing what a crash left open may fail, and the start goes on.\<close>

definition serve_start ::
  "'addr start_deps \<Rightarrow> instant \<Rightarrow> 'addr config \<Rightarrow> database \<Rightarrow> database \<times> (startup_error + app_state)" where
  "serve_start deps now config db =
     (case open_database deps config db of
        (db1, Inl e) \<Rightarrow> (db1, Inl e)
      | (db1, Inr _) \<Rightarrow>
        (let db2 = (case sd_close deps of
               Inr _ \<Rightarrow> db1\<lparr>db_shares := fst (close_all_open now (db_shares db1))\<rparr>
             | Inl _ \<Rightarrow> db1)
         in case sd_bind deps (cf_bind_addr config) of
              Inl e \<Rightarrow> (db2, Inl (Binding e))
            | Inr _ \<Rightarrow> (db2, Inr (app_over db2 config))))"

text \<open>The tasks spawned before the first request.\<close>

datatype background = Session_Sweeper | Token_Cleanup | Pairing_Cleanup | Discord_Bot

definition background_tasks :: "background list" where
  "background_tasks = [Session_Sweeper, Token_Cleanup, Pairing_Cleanup, Discord_Bot]"

text \<open>What the shutdown signal does before the listener closes.\<close>

definition graceful_shutdown :: "app_state \<Rightarrow> app_state" where
  "graceful_shutdown s = s\<lparr>ap_hub := broadcast_reconnect (ap_hub s)\<rparr>"

section \<open>The surface\<close>

text \<open>Every route has one handler, and a client of another origin may call each with the methods CORS lets through.\<close>

lemma router_sound:
  "distinct router" "fst ` set router \<subseteq> set cors_methods"
  "(m, path) \<in> set router \<Longrightarrow> path = ''/gateway'' \<or> (\<exists>rest. path = API_BASE @ rest)"
proof -
  show "distinct router" by code_simp
  show "fst ` set router \<subseteq> set cors_methods" by (metis (full_types) UNIV_I cors_methods_def http_method.exhaust
      insertCI list.set(2) subsetI)
  show "(m, path) \<in> set router \<Longrightarrow> path = ''/gateway'' \<or> (\<exists>rest. path = API_BASE @ rest)"
    by (auto simp: router_def gateway_routes_def)
qed

section \<open>A start that fails\<close>

text \<open>
  The process takes no argument: any is refused, and nothing of the database was touched.  A start that fails ends the
  process with a failure.
\<close>

lemma argument_refused:
  "config = Inr c \<Longrightarrow> runtime = Inr () \<Longrightarrow> run_server config runtime (name # arg # args) serving = Inl (Unknown_Subcommand arg)"
  "main_exit (Inl e) = Exit_Failure"
  by (simp_all add: run_server_def main_exit_def)

lemma failed_start_keeps_tables:
  assumes "serve_start deps now config db = (db', Inl e)" and "\<forall>a. e \<noteq> Binding a"
  shows "db' = fst (open_database deps config db)"
  using assms by (auto simp: serve_start_def Let_def split: prod.splits sum.splits)

section \<open>What a start leaves\<close>

lemma started:
  assumes "serve_start deps now config db = (db', Inr s)"
  shows "s = app_over db' config"
    and "db' = (let db1 = fst (open_database deps config db) in
      db1\<lparr>db_shares := if sd_close deps = Inr () then fst (close_all_open now (db_shares db1)) else db_shares db1\<rparr>)"
  using assms by (auto simp: serve_start_def Let_def split: prod.splits sum.splits)

text \<open>
  Until Discord is heard, nobody enters: whoever asks for a room of a server that just started is told the
  replica is stale, whatever the tables hold and however long it takes.
\<close>

theorem started_fails_closed:
  assumes "serve_start deps now config db = (db', Inr s)"
  shows "room_access later s u ch = Inl ReplicaStale"
  using started(1) [OF assms]
  by (simp add: room_access_def app_over_def app_state_new_def replica_new_def staleness_def)

text \<open>No session is left open, and with the slots gone from memory nobody holds one.\<close>

lemma started_clean:
  assumes "serve_start deps now config db = (db', Inr s)"
  shows "sd_close deps = Inr () \<Longrightarrow> \<not> has_open c p (ap_shares s)"
    and "publisher_slots_taken ch src (ap_grants s) = 0" and "hb_sessions (ap_hub s) = []"
    and "ap_presence s = db_presence (fst (open_database deps config db))"
  using started [OF assms]
  by (simp_all add: Let_def app_over_def app_state_new_def has_open_iff_count open_count_close_all publisher_slots_taken_def hub_new_def)

text \<open>
  The presence of the people is not cleared with the sessions: whoever was on the air when the process went down, and
  still is, is on the air without an open session, so what they publish from then on is not metered; and their slot
  counts for nobody, so the ceiling of the room can be filled again over them.
\<close>

theorem restart_stops_metering:
  assumes "serve_start deps now config db = (db', Inr s)" and "sd_close deps = Inr ()"
    and "live_in (db_presence (fst (open_database deps config db))) u"
    and "channel_of (db_presence (fst (open_database deps config db))) u = Some ch"
  shows "live_in (ap_presence s) u \<and> \<not> has_open ch u (ap_shares s) \<and> \<not> room_inv {u} s \<and> u \<notin> held (ap_grants s) ch src"
proof -
  note clean = started_clean [OF assms(1)]
  have live: "live_in (ap_presence s) u" "channel_of (ap_presence s) u = Some ch"
    using assms(3,4) by (simp_all add: clean(4))
  have closed: "\<not> has_open ch u (ap_shares s)" by (rule clean(1) [OF assms(2)])
  then have "\<not> room_inv {u} s" using live room_invD(3) by blast
  moreover have "u \<notin> held (ap_grants s) ch src"
    by (simp add: started(1) [OF assms(1)] held_def app_over_def app_state_new_def)
  ultimately show ?thesis using live closed by blast
qed

definition sample_discord_config :: discord_config where
  "sample_discord_config = \<lparr>dc_bot_token = [], dc_replica_grace_seconds = 60, dc_pairing_code_ttl_seconds = 600,
     dc_pairing_max_per_hour = 5, dc_allowed_guilds = None\<rparr>"

definition sample_config_of :: "discord_config \<Rightarrow> unit config" where
  "sample_config_of d =
     \<lparr>cf_app_env = Production, cf_bind_addr = (), cf_public_base_url = '''', cf_database_url = ''postgres:'',
      cf_database_max_connections = 10, cf_jwt_signing_key = '''', cf_access_token_ttl_seconds = 900,
      cf_refresh_token_ttl_days = 30, cf_gateway = sample_config, cf_discord = d, cf_rooms = sample_room_config,
      cf_livekit_api_key = '''', cf_livekit_api_secret = ''''\<rparr>"

definition sample_deps :: "unit start_deps" where
  "sample_deps = \<lparr>sd_connect = (\<lambda>_ _. Inr ()), sd_migrate = (\<lambda>db. (db, Inr ())), sd_close = Inr (), sd_bind = (\<lambda>_. Inr ())\<rparr>"

definition sample_database :: database where
  "sample_database = \<lparr>db_users = sample_users,
     db_presence = [(7, \<lparr>pr_discord_channel_id = 900, pr_publishing = True, pr_joined_at = 1,
        pr_screen_since = Some 2, pr_camera_since = None\<rparr>)],
     db_shares = fst (sessions_open 2 1 900 7 [])\<rparr>"

text \<open>Someone on the air, with their session open, when the server went down.\<close>

theorem restart_stops_metering_witness:
  "has_open 900 7 (db_shares sample_database)
   \<and> (\<exists>db' s. serve_start sample_deps 5 (sample_config_of sample_discord_config) sample_database = (db', Inr s)
     \<and> live_in (ap_presence s) 7 \<and> \<not> has_open 900 7 (ap_shares s))"
proof -
  obtain db' s where start: "serve_start sample_deps 5 (sample_config_of sample_discord_config) sample_database = (db', Inr s)"
    by (simp add: serve_start_def open_database_def sample_deps_def Let_def)
  have same: "fst (open_database sample_deps (sample_config_of sample_discord_config) sample_database) = sample_database"
    by (simp add: open_database_def sample_deps_def)
  have on_air: "live_in (db_presence sample_database) 7" "channel_of (db_presence sample_database) 7 = Some 900"
    by (simp_all add: sample_database_def live_in_def channel_of_def hm_get_def)
  have "has_open 900 7 (db_shares sample_database)" by (simp add: sample_database_def has_open_ops)
  moreover have "sd_close sample_deps = Inr ()" by (simp add: sample_deps_def)
  ultimately show ?thesis using restart_stops_metering [OF start, of 7 900] start by (auto simp: same on_air)
qed

text \<open>The registry of the gateway starts empty too: no session of before is resumed, whoever asks and however soon.\<close>

theorem restart_resumes_nobody:
  assumes "serve_start deps now config db = (db', Inr s)"
  shows "resumable sid user (ap_hub s) = None"
  using started_clean(3) [OF assms] by (simp add: resumable_def registered_def)

section \<open>Going down\<close>

lemma send_to_session_keeps:
  "hb_heap (send_to_session sid f h) = hb_heap h" "hb_sessions (send_to_session sid f h) = hb_sessions h"
  by (simp_all add: send_to_session_def split: option.split)

lemma reconnects_sent:
  "set (hb_out (fold (\<lambda>sid. send_to_session sid f) sids h)) =
     set (hb_out h) \<union> {(tx, f) |tx. \<exists>sid \<in> set sids. \<exists>s. hm_get (hb_heap h) sid = Some s \<and> ses_outbox s = Some tx}"
proof (induction sids arbitrary: h)
  case (Cons sid sids)
  have "set (hb_out (send_to_session sid f h)) =
      set (hb_out h) \<union> {(tx, f) |tx. \<exists>s. hm_get (hb_heap h) sid = Some s \<and> ses_outbox s = Some tx}"
    by (auto simp: send_to_session_def send_text_def split: option.split)
  then show ?case using Cons.IH [of "send_to_session sid f h"] by (auto simp: send_to_session_keeps)
qed simp

text \<open>Every session of the registry that has a socket is told to reconnect, and nobody's session is dropped.\<close>

theorem shutdown_tells_everyone:
  assumes "registered (ap_hub s) sid = Some ses" and "ses_outbox ses = Some tx"
  shows "(tx, Control op_RECONNECT) \<in> set (hb_out (ap_hub (graceful_shutdown s)))
    \<and> registered (ap_hub (graceful_shutdown s)) sid = Some ses"
proof -
  have keep: "hb_heap (fold (\<lambda>i. send_to_session i f) sids h) = hb_heap h
      \<and> hb_sessions (fold (\<lambda>i. send_to_session i f) sids h) = hb_sessions h" for f sids h
    by (induction sids arbitrary: h) (simp_all add: send_to_session_keeps)
  from assms have "sid \<in> set (hb_sessions (ap_hub s))" "hm_get (hb_heap (ap_hub s)) sid = Some ses"
    by (simp_all add: registered_def split: if_splits)
  with assms keep show ?thesis
    by (auto simp: graceful_shutdown_def broadcast_reconnect_def reconnects_sent registered_def)
qed

end
