(* ===== verification/Slices.thy ===== *)
theory Slices
  imports Ldk_Prelude
begin

text \<open>
  What the desktop core uses of Rust's slices and loops: \<^verbatim>\<open>&xs[a..b]\<close>, \<^verbatim>\<open>copy_from_slice\<close>, indexing, \<^verbatim>\<open>resize\<close>,
  \<^verbatim>\<open>as_chunks\<close>, \<^verbatim>\<open>div_ceil\<close>, and \<^verbatim>\<open>for row in 0..n\<close>.  Each operation that panics out of range answers
  \<open>None\<close> there, so that a routine that returns \<open>Some\<close> is one that does not panic.  Lengths, offsets and pitches are
  \<^verbatim>\<open>usize\<close> and read as natural numbers; that they stay below \<open>2 ^ 64\<close> is proved where they are computed.
\<close>

type_synonym u8 = "8 word"
type_synonym i32 = "32 word"
type_synonym bytes = "u8 list"

section \<open>Operations\<close>

definition slice :: "'a list \<Rightarrow> nat \<Rightarrow> nat \<Rightarrow> 'a list option" where
  "slice xs a b = (if a \<le> b \<and> b \<le> length xs then Some (take (b - a) (drop a xs)) else None)"

text \<open>\<^verbatim>\<open>xs[a..a + from.len()].copy_from_slice(from)\<close>.\<close>

definition copy_at :: "'a list \<Rightarrow> nat \<Rightarrow> 'a list \<Rightarrow> 'a list option" where
  "copy_at xs a from =
     (if a + length from \<le> length xs
      then Some (take a xs @ from @ drop (a + length from) xs) else None)"

definition index :: "'a list \<Rightarrow> nat \<Rightarrow> 'a option" where
  "index xs i = (if i < length xs then Some (xs ! i) else None)"

definition resize :: "nat \<Rightarrow> 'a \<Rightarrow> 'a list \<Rightarrow> 'a list" where
  "resize n x xs = take n xs @ replicate (n - length xs) x"

definition div_ceil :: "nat \<Rightarrow> nat \<Rightarrow> nat" where
  "div_ceil a b = a div b + (if a mod b > 0 then 1 else 0)"

text \<open>\<^verbatim>\<open>xs.as_chunks::<n>().0\<close>: the whole chunks; a shorter rest is left out.\<close>

definition whole_chunks :: "nat \<Rightarrow> 'a list \<Rightarrow> 'a list list" where
  "whole_chunks n xs = map (\<lambda>i. take n (drop (i * n) xs)) [0..<length xs div n]"

text \<open>\<^verbatim>\<open>xs.chunks(n)\<close>: the last chunk may be shorter.\<close>

function chunks :: "nat \<Rightarrow> 'a list \<Rightarrow> 'a list list" where
  "chunks n xs = (if n = 0 \<or> xs = [] then [] else take n xs # chunks n (drop n xs))"
  by pat_completeness auto
termination
  by (relation "measure (length \<circ> snd)") (auto simp: comp_def)

declare chunks.simps [simp del]

text \<open>Evaluate a list of fallible elements from the left, stopping at the first that fails.\<close>

fun all_some :: "'a option list \<Rightarrow> 'a list option" where
  "all_some [] = Some []"
| "all_some (None # xs) = None"
| "all_some (Some x # xs) = map_option (Cons x) (all_some xs)"

text \<open>\<^verbatim>\<open>for i in 0..n { state = body(i, state)?; }\<close>.\<close>

primrec for_upto :: "nat \<Rightarrow> (nat \<Rightarrow> 's \<Rightarrow> 's option) \<Rightarrow> 's \<Rightarrow> 's option" where
  "for_upto 0 body s = Some s"
| "for_upto (Suc n) body s = Option.bind (for_upto n body s) (body n)"

section \<open>Their laws\<close>

lemma slice_Some: "a \<le> b \<Longrightarrow> b \<le> length xs \<Longrightarrow> slice xs a b = Some (take (b - a) (drop a xs))"
  by (simp add: slice_def)

lemma slice_row: "a + w \<le> length xs \<Longrightarrow> slice xs a (a + w) = Some (take w (drop a xs))"
  by (simp add: slice_def)

lemma length_slice: "slice xs a b = Some ys \<Longrightarrow> length ys = b - a"
  by (auto simp: slice_def split: if_splits)

lemma length_copy_at: "copy_at xs a ys = Some zs \<Longrightarrow> length zs = length xs"
  by (auto simp: copy_at_def split: if_splits)

lemma length_resize [simp]: "length (resize n x xs) = n"
  by (simp add: resize_def)

lemma length_whole_chunks [simp]: "length (whole_chunks n xs) = length xs div n"
  by (simp add: whole_chunks_def)

lemma all_some_map: "\<forall>x \<in> set xs. f x = Some (g x) \<Longrightarrow> all_some (map f xs) = Some (map g xs)"
  by (induction xs) auto

lemma div_ceil_le: "0 < b \<Longrightarrow> a \<le> div_ceil a b * b"
proof -
  assume "0 < b"
  then have "a mod b < b" by simp
  moreover have "div_ceil a b * b = a div b * b + (if a mod b > 0 then b else 0)"
    by (simp add: div_ceil_def)
  moreover have "x = q + r \<Longrightarrow> r < b \<Longrightarrow> c = q + (if r > 0 then b else 0) \<Longrightarrow> x \<le> c" for x q r c :: nat
    by (auto split: if_splits)
  ultimately show ?thesis by (metis div_mult_mod_eq)
qed

lemma div_ceil_even: "even a \<Longrightarrow> div_ceil a 2 = a div 2"
  by (simp add: div_ceil_def even_iff_mod_2_eq_zero)

lemma div_ceil_2_le: "div_ceil a 2 \<le> (a + 1) div 2"
  unfolding div_ceil_def by presburger

text \<open>Concatenating pieces of one length.\<close>

lemma concat_chunks_length:
  "\<forall>x \<in> set xs. length (f x) = n \<Longrightarrow> length (concat (map f xs)) = n * length xs"
  by (induction xs) auto

lemma nth_concat_chunks:
  "\<forall>x \<in> set xs. length (f x) = n \<Longrightarrow> i < length xs \<Longrightarrow> j < n
   \<Longrightarrow> concat (map f xs) ! (n * i + j) = f (xs ! i) ! j"
proof (induction xs arbitrary: i)
  case (Cons x xs)
  show ?case
  proof (cases i)
    case 0
    with Cons.prems show ?thesis by (simp add: nth_append)
  next
    case (Suc i')
    then have "concat (map f (x # xs)) ! (n * i + j) = concat (map f xs) ! (n * i' + j)"
      using Cons.prems by (simp add: nth_append)
    with Suc Cons show ?thesis by simp
  qed
qed simp

text \<open>The rule for loops: an invariant that the body keeps without panicking holds at the end.\<close>

lemma for_upto_rule:
  assumes "P 0 s" and "\<And>i t. i < n \<Longrightarrow> P i t \<Longrightarrow> \<exists>t'. body i t = Some t' \<and> P (Suc i) t'"
  shows "\<exists>t. for_upto n body s = Some t \<and> P n t"
  using assms(2)
proof (induction n)
  case 0
  then show ?case using assms(1) by simp
next
  case (Suc n)
  then obtain t where "for_upto n body s = Some t" "P n t" by (meson less_SucI)
  with Suc.prems [of n t] show ?case by auto
qed

section \<open>Writing an image row by row\<close>

text \<open>
  \<open>rows_written st w n row d r\<close>: \<open>r\<close> is \<open>d\<close> with the first \<open>w\<close> elements of each of the first \<open>n\<close> rows, \<open>st\<close>
  apart, replaced by those of \<open>row 0, row 1, \<dots>\<close>; every other element is still that of \<open>d\<close>.
\<close>

definition rows_written :: "nat \<Rightarrow> nat \<Rightarrow> nat \<Rightarrow> (nat \<Rightarrow> 'a list) \<Rightarrow> 'a list \<Rightarrow> 'a list \<Rightarrow> bool" where
  "rows_written st w n row d r \<longleftrightarrow> length r = length d \<and>
     (\<forall>k < length d. r ! k = (if k div st < n \<and> k mod st < w then row (k div st) ! (k mod st) else d ! k))"

lemma rows_written_0 [simp]: "rows_written st w 0 row d d"
  by (simp add: rows_written_def)

lemma rows_written_length: "rows_written st w n row d r \<Longrightarrow> length r = length d"
  by (simp add: rows_written_def)

lemma row_offset_le: "n < rows \<Longrightarrow> w \<le> st \<Longrightarrow> st * rows \<le> len \<Longrightarrow> n * st + w \<le> (len :: nat)"
proof -
  assume n: "n < rows" and "w \<le> st" "st * rows \<le> len"
  moreover have "Suc n * st \<le> rows * st" using n by (intro mult_le_mono1) simp
  ultimately show ?thesis by (simp add: algebra_simps)
qed

lemma copy_at_row:
  assumes "rows_written st w n row d r" and "length (row n) = w" and "w \<le> st" and "0 < st"
    and "n * st + w \<le> length d"
  shows "\<exists>r'. copy_at r (n * st) (row n) = Some r' \<and> rows_written st w (Suc n) row d r'"
proof -
  have len: "length r = length d" using assms(1) by (simp add: rows_written_def)
  define r' where "r' = take (n * st) r @ row n @ drop (n * st + w) r"
  have copied: "copy_at r (n * st) (row n) = Some r'"
    using assms(2,5) len by (simp add: copy_at_def r'_def)
  moreover have "r' ! k = (if k div st < Suc n \<and> k mod st < w then row (k div st) ! (k mod st) else d ! k)"
    if k: "k < length d" for k
  proof (cases "k div st = n")
    case True
    then have kn: "k = n * st + k mod st" by (metis div_mult_mod_eq)
    show ?thesis
    proof (cases "k mod st < w")
      case True
      have off: "k - n * st = k mod st" using kn by linarith
      moreover have "r' ! k = row n ! (k - n * st)"
        unfolding r'_def using kn True off assms(2,5) len by (simp add: nth_append)
      ultimately show ?thesis using True \<open>k div st = n\<close> by simp
    next
      case False
      then have "\<not> k - n * st < w" "n * st \<le> k" using kn by linarith+
      then have "r' ! k = r ! k"
        unfolding r'_def using assms(2,5) len k by (simp add: nth_append)
      with False assms(1) k show ?thesis by (simp add: rows_written_def)
    qed
  next
    case False
    have "r' ! k = r ! k"
    proof (cases "k < n * st")
      case True
      then show ?thesis unfolding r'_def using assms(5) len by (simp add: nth_append)
    next
      case ge: False
      then have "n \<le> k div st" using assms(4) by (simp add: less_eq_div_iff_mult_less_eq)
      with False have "Suc n \<le> k div st" by simp
      then have "Suc n * st \<le> k" using assms(4) by (simp add: less_eq_div_iff_mult_less_eq)
      then have "\<not> k - n * st < w" using assms(3) by simp
      then show ?thesis unfolding r'_def using assms(2,5) len k by (simp add: nth_append)
    qed
    moreover have "(k div st < Suc n) = (k div st < n)" using False by auto
    ultimately show ?thesis using assms(1) k by (simp add: rows_written_def)
  qed
  ultimately show ?thesis using assms(2,5) len by (auto simp: rows_written_def r'_def)
qed

text \<open>The whole picture, for a loop that copies one row at a time.\<close>

lemma copy_rows:
  assumes "\<And>i. i < n \<Longrightarrow> length (row i) = w" and "w \<le> st" and "0 < st" and "st * n \<le> length d"
    and "\<And>i r. i < n \<Longrightarrow> length r = length d \<Longrightarrow> body i r = copy_at r (i * st) (row i)"
  shows "\<exists>r. for_upto n body d = Some r \<and> rows_written st w n row d r"
proof (rule for_upto_rule)
  show "rows_written st w 0 row d d" by simp
next
  fix i r assume i: "i < n" and r: "rows_written st w i row d r"
  show "\<exists>r'. body i r = Some r' \<and> rows_written st w (Suc i) row d r'"
    unfolding assms(5) [OF i rows_written_length [OF r]]
    by (rule copy_at_row [OF r assms(1) [OF i] assms(2,3) row_offset_le [OF i assms(2,4)]])
qed

lemma rows_written_at:
  assumes "rows_written st w n row d r" and "i < n" and "c < w" and "w \<le> st" and "st * n \<le> length d"
  shows "r ! (i * st + c) = row i ! c"
proof -
  have "i * st + w \<le> length d" using row_offset_le assms(2,4,5) by blast
  then have "i * st + c < length d" using assms(3) by simp
  moreover have "(i * st + c) div st = i" "(i * st + c) mod st = c" using assms(3,4) by auto
  ultimately show ?thesis using assms(1,2,3) by (simp add: rows_written_def)
qed

lemma rows_written_outside:
  assumes "rows_written st w n row d r" and "k < length d" and "n \<le> k div st \<or> w \<le> k mod st"
  shows "r ! k = d ! k"
  using assms by (auto simp: rows_written_def)

lemma rows_written_unique:
  "rows_written st w n row d r \<Longrightarrow> rows_written st w n row d r' \<Longrightarrow> r = r'"
  by (rule nth_equalityI) (auto simp: rows_written_def)

end
