(* ===== verification/Scaling.thy ===== *)
theory Scaling
  imports Complex_Main Slices
begin

text \<open>
  \<^verbatim>\<open>capture::Size\<close>, \<^verbatim>\<open>even\<close> and \<^verbatim>\<open>fit\<close>: how large a captured picture is sent.  \<^verbatim>\<open>fit\<close> computes in double precision, and
  so does the model: an \<^verbatim>\<open>f64\<close> is the rational number it stands for, and every operation is the exact one followed by
  \<open>f64\<close>, the rounding to 53 significant bits with ties to even.  Subnormal numbers, infinities and NaN do
  not occur: the operands are below \<open>2 ^ 64\<close> and quotients of 32-bit integers.
\<close>

section \<open>Double precision\<close>

definition round_half_even :: "rat \<Rightarrow> int" where
  "round_half_even q =
     (let n = \<lfloor>q\<rfloor>; d = q - of_int n in
      if d < 1 / 2 \<or> d = 1 / 2 \<and> even n then n else n + 1)"

text \<open>The exponent of a positive number; \<open>1100\<close> steps cover every double that is not subnormal.\<close>

fun binade :: "nat \<Rightarrow> rat \<Rightarrow> int" where
  "binade 0 q = 0"
| "binade (Suc n) q =
     (if q \<ge> 2 then binade n (q / 2) + 1 else if q < 1 then binade n (2 * q) - 1 else 0)"

definition f64 :: "rat \<Rightarrow> rat" where
  "f64 q =
     (if q = 0 then 0
      else let ulp = 2 powi (binade 1100 q - 52) in of_int (round_half_even (q / ulp)) * ulp)"

text \<open>\<^verbatim>\<open>f64::round\<close> of a number that is not negative, and the saturating \<^verbatim>\<open>as u32\<close>.\<close>

definition f64_round :: "rat \<Rightarrow> int" where
  "f64_round q = \<lfloor>q + 1 / 2\<rfloor>"

definition as_u32 :: "int \<Rightarrow> u32" where
  "as_u32 n = (if n < 0 then 0 else if n < 2 ^ 32 then word_of_int n else - 1)"

lemma round_half_even_error: "\<bar>of_int (round_half_even q) - q\<bar> \<le> 1 / 2"
proof -
  have "of_int \<lfloor>q\<rfloor> \<le> q" "q < of_int \<lfloor>q\<rfloor> + 1" by linarith+
  then show ?thesis by (auto simp: round_half_even_def Let_def abs_le_iff)
qed

lemma round_half_even_ge: "of_int n \<le> q \<Longrightarrow> n \<le> round_half_even q"
  by (auto simp: round_half_even_def Let_def le_floor_iff intro: add_increasing2)

lemma binade_bounds:
  assumes "1 / 2 ^ n \<le> q" and "q < 2 ^ Suc n"
  shows "2 powi binade n q \<le> q \<and> q < 2 powi (binade n q + 1)"
  using assms
proof (induction n arbitrary: q)
  case 0
  then show ?case by simp
next
  case (Suc n)
  consider "q \<ge> 2" | "q < 1" | "1 \<le> q" "q < 2" by linarith
  then show ?case
  proof cases
    case 1
    have "1 / 2 ^ n \<le> (1 :: rat)" by simp
    also have "1 \<le> q / 2" using 1 by simp
    finally have "1 / 2 ^ n \<le> q / 2" .
    moreover have "q / 2 < 2 ^ Suc n" using Suc.prems by simp
    ultimately have "2 powi binade n (q / 2) \<le> q / 2 \<and> q / 2 < 2 powi (binade n (q / 2) + 1)"
      by (rule Suc.IH)
    with 1 show ?thesis by (simp add: power_int_add)
  next
    case 2
    have "1 / 2 ^ n \<le> 2 * q" using Suc.prems by (simp add: field_simps)
    moreover have "2 * q < 2 ^ Suc n"
      using less_le_trans [OF 2 one_le_power [of "2 :: rat" n]] by simp
    ultimately have "2 powi binade n (2 * q) \<le> 2 * q \<and> 2 * q < 2 powi (binade n (2 * q) + 1)"
      by (rule Suc.IH)
    with 2 show ?thesis by (simp add: power_int_diff power_int_add)
  next
    case 3
    then show ?thesis by simp
  qed
qed

text \<open>Numbers a conversion, product or quotient of \<^verbatim>\<open>u32\<close> values can be.\<close>

definition in_range :: "rat \<Rightarrow> bool" where
  "in_range q \<longleftrightarrow> q = 0 \<or> 1 / 2 ^ 64 \<le> q \<and> q < 2 ^ 65"

lemma in_range_binade:
  assumes "in_range q" and "q \<noteq> 0"
  shows "2 powi binade 1100 q \<le> q" "q < 2 powi (binade 1100 q + 1)"
proof -
  have "1 / 2 ^ 1100 \<le> (1 / 2 ^ 64 :: rat)" by (rule divide_left_mono) simp_all
  then have low: "1 / 2 ^ 1100 \<le> q" using assms by (simp add: in_range_def)
  have "(2 :: rat) ^ 65 \<le> 2 ^ Suc 1100" by (rule power_increasing) simp_all
  moreover have "q < 2 ^ 65" using assms unfolding in_range_def by blast
  ultimately have "q < 2 ^ Suc 1100" by (rule less_le_trans [rotated])
  from binade_bounds [OF low this]
  show "2 powi binade 1100 q \<le> q" "q < 2 powi (binade 1100 q + 1)" by blast+
qed

lemma f64_error:
  assumes "in_range q"
  shows "\<bar>f64 q - q\<bar> \<le> q / 2 ^ 53"
proof (cases "q = 0")
  case True
  then show ?thesis by (simp add: f64_def)
next
  case False
  define ulp :: rat where "ulp = 2 powi (binade 1100 q - 52)"
  have ulp: "0 < ulp" by (simp add: ulp_def)
  have "\<bar>of_int (round_half_even (q / ulp)) - q / ulp\<bar> * ulp \<le> 1 / 2 * ulp"
    using round_half_even_error ulp by (intro mult_right_mono) simp_all
  then have "\<bar>(of_int (round_half_even (q / ulp)) - q / ulp) * ulp\<bar> \<le> ulp / 2"
    using ulp by (simp add: abs_mult)
  moreover have "(of_int (round_half_even (q / ulp)) - q / ulp) * ulp = f64 q - q"
    using ulp False by (simp add: f64_def ulp_def [symmetric] Let_def left_diff_distrib)
  moreover have "ulp / 2 = 2 powi binade 1100 q / 2 ^ 53"
    by (simp add: ulp_def power_int_diff)
  moreover have "2 powi binade 1100 q / 2 ^ 53 \<le> q / 2 ^ 53"
    using in_range_binade [OF assms False] by (intro divide_right_mono) simp_all
  ultimately show ?thesis by linarith
qed

lemma f64_ge_1:
  assumes "in_range q" and "1 \<le> q"
  shows "1 \<le> f64 q"
proof -
  define b where "b = binade 1100 q"
  have q: "2 powi b \<le> q" "q < 2 powi (b + 1)" "q \<noteq> 0"
    using in_range_binade [OF assms(1)] assms(2) by (auto simp: b_def)
  have "0 \<le> b"
  proof (rule ccontr)
    assume "\<not> 0 \<le> b"
    then have "(2 :: rat) powi (b + 1) \<le> 2 powi 0" by (intro power_int_increasing) simp_all
    then show False using q assms(2) by simp
  qed
  then have one: "(1 :: rat) \<le> 2 powi b" using power_int_increasing [of 0 b "2 :: rat"] by simp
  have "q / 2 powi (b - 52) = q / 2 powi b * 2 ^ 52" by (simp add: power_int_diff)
  moreover have "1 \<le> q / 2 powi b" using q by simp
  then have "1 * 2 ^ 52 \<le> q / 2 powi b * 2 ^ 52" by (intro mult_right_mono) simp_all
  ultimately have "of_int (2 ^ 52) \<le> q / 2 powi (b - 52)" by simp
  then have "2 ^ 52 \<le> round_half_even (q / 2 powi (b - 52))" by (rule round_half_even_ge)
  then have "(of_int (2 ^ 52) :: rat) \<le> of_int (round_half_even (q / 2 powi (b - 52)))"
    by (simp only: of_int_le_iff)
  then have "of_int (2 ^ 52) * 2 powi (b - 52) \<le> f64 q"
    using q(3) by (simp add: f64_def b_def [symmetric] Let_def mult_right_mono)
  moreover have "of_int (2 ^ 52) * 2 powi (b - 52) = (2 powi b :: rat)" by (simp add: power_int_diff)
  ultimately show ?thesis using one by simp
qed

section \<open>Sizes\<close>

record dims =
  sz_width :: u32
  sz_height :: u32

definition even_side :: "u32 \<Rightarrow> u32" where
  "even_side v = v - v mod 2"

definition of_u32 :: "u32 \<Rightarrow> rat" where
  "of_u32 v = of_nat (unat v)"

definition fit_side :: "u32 \<Rightarrow> rat \<Rightarrow> u32" where
  "fit_side side scale = even_side (max (as_u32 (f64_round (f64 (of_u32 side * scale)))) 2)"

definition fit_scale :: "dims \<Rightarrow> dims \<Rightarrow> rat" where
  "fit_scale source ceil =
     min (min (f64 (of_u32 (sz_width ceil) / of_u32 (sz_width source)))
              (f64 (of_u32 (sz_height ceil) / of_u32 (sz_height source)))) 1"

definition fit :: "dims \<Rightarrow> dims \<Rightarrow> dims" where
  "fit source ceil =
     (if sz_width source = 0 \<or> sz_height source = 0 then \<lparr>sz_width = 0, sz_height = 0\<rparr>
      else let scale = fit_scale source ceil in
        \<lparr>sz_width = fit_side (sz_width source) scale, sz_height = fit_side (sz_height source) scale\<rparr>)"

lemma unat_even_side: "unat (even_side v) = 2 * (unat v div 2)"
proof -
  have "v mod 2 \<le> v" by (simp add: word_le_nat_alt unat_mod)
  then have "unat (v - v mod 2) = unat v - unat (v mod 2)" by (rule unat_sub)
  then show ?thesis by (simp only: even_side_def unat_mod) (simp add: minus_mod_eq_mult_div)
qed

text \<open>The exact scale, which the code computes with two roundings.\<close>

definition exact_scale :: "dims \<Rightarrow> dims \<Rightarrow> rat" where
  "exact_scale source ceil =
     min (min (of_u32 (sz_width ceil) / of_u32 (sz_width source))
              (of_u32 (sz_height ceil) / of_u32 (sz_height source))) 1"

lemma of_u32_bounds: "0 \<le> of_u32 v" "of_u32 v < 2 ^ 32" "v \<noteq> 0 \<Longrightarrow> 1 \<le> of_u32 v"
proof -
  have "unat v < 2 ^ 32" using unsigned_less [of v] by simp
  then show "of_u32 v < 2 ^ 32" unfolding of_u32_def by (metis of_nat_less_iff of_nat_numeral of_nat_power)
  show "1 \<le> of_u32 v" if "v \<noteq> 0"
  proof -
    have "of_nat 1 \<le> (of_nat (unat v) :: rat)" using that unat_gt_0 [of v] by (simp only: of_nat_le_iff) simp
    then show ?thesis by (simp only: of_u32_def of_nat_1)
  qed
  show "0 \<le> of_u32 v" unfolding of_u32_def by (rule of_nat_0_le_iff)
qed

lemma quotient_in_range: "w \<noteq> 0 \<Longrightarrow> in_range (of_u32 v / of_u32 w)"
proof (cases "v = 0")
  case True
  then show ?thesis by (simp add: in_range_def of_u32_def)
next
  case False
  assume w: "w \<noteq> 0"
  have "1 / 2 ^ 64 \<le> of_u32 v / of_u32 w"
    using of_u32_bounds [of v] of_u32_bounds [of w] False w by (intro frac_le) simp_all
  moreover have "of_u32 v / of_u32 w < 2 ^ 65 / 1"
    using of_u32_bounds [of v] of_u32_bounds [of w] w
    by (intro frac_less) (simp_all add: order.strict_trans1 [OF less_imp_le])
  ultimately show ?thesis by (simp add: in_range_def)
qed

lemma min_error:
  fixes a b a' b' e :: rat
  assumes "\<bar>a' - a\<bar> \<le> a * e" and "\<bar>b' - b\<bar> \<le> b * e" and "0 \<le> e" and "e \<le> 1"
  shows "\<bar>min a' b' - min a b\<bar> \<le> min a b * e"
proof -
  have "min a b * (1 - e) \<le> a * (1 - e)" "min a b * (1 - e) \<le> b * (1 - e)"
    using assms(4) by (auto intro: mult_right_mono)
  then have "min a b - min a b * e \<le> min a' b'"
    using assms(1,2) by (auto simp: right_diff_distrib abs_le_iff)
  moreover have "min a' b' \<le> min a b + min a b * e"
    using assms(1,2) by (auto simp: min_def abs_le_iff)
  ultimately show ?thesis unfolding abs_le_iff by linarith
qed

lemma fit_scale_error:
  assumes "sz_width source \<noteq> 0" and "sz_height source \<noteq> 0"
  shows "\<bar>fit_scale source ceil - exact_scale source ceil\<bar> \<le> exact_scale source ceil / 2 ^ 53"
proof -
  let ?e = "1 / 2 ^ 53 :: rat"
  have "\<bar>f64 (of_u32 v / of_u32 w) - of_u32 v / of_u32 w\<bar> \<le> of_u32 v / of_u32 w * ?e" if "w \<noteq> 0" for v w
    using f64_error [OF quotient_in_range [OF that, of v]] by simp
  then have "\<bar>fit_scale source ceil - exact_scale source ceil\<bar> \<le> exact_scale source ceil * ?e"
    unfolding fit_scale_def exact_scale_def using assms by (intro min_error) simp_all
  then show ?thesis by simp
qed

lemma exact_scale_bounds:
  assumes "sz_width source \<noteq> 0" and "sz_height source \<noteq> 0"
  shows "0 \<le> exact_scale source ceil" "exact_scale source ceil \<le> 1"
    "of_u32 (sz_width source) * exact_scale source ceil \<le> of_u32 (sz_width ceil)"
    "of_u32 (sz_height source) * exact_scale source ceil \<le> of_u32 (sz_height ceil)"
proof -
  have pos: "0 < of_u32 (sz_width source)" "0 < of_u32 (sz_height source)"
    using of_u32_bounds(3) [OF assms(1)] of_u32_bounds(3) [OF assms(2)] by linarith+
  show "0 \<le> exact_scale source ceil"
    using pos of_u32_bounds(1) by (simp add: exact_scale_def)
  show "exact_scale source ceil \<le> 1" by (simp add: exact_scale_def)
  have "exact_scale source ceil \<le> of_u32 (sz_width ceil) / of_u32 (sz_width source)"
    "exact_scale source ceil \<le> of_u32 (sz_height ceil) / of_u32 (sz_height source)"
    by (simp_all add: exact_scale_def)
  then show "of_u32 (sz_width source) * exact_scale source ceil \<le> of_u32 (sz_width ceil)"
    "of_u32 (sz_height source) * exact_scale source ceil \<le> of_u32 (sz_height ceil)"
    using pos by (simp_all add: pos_le_divide_eq mult.commute)
qed

lemma exact_scale_positive:
  assumes "sz_width source \<noteq> 0" and "sz_height source \<noteq> 0"
  shows "exact_scale source ceil = 0 \<or> 1 / 2 ^ 32 \<le> exact_scale source ceil"
proof -
  have "of_u32 v / of_u32 w = 0 \<or> 1 / 2 ^ 32 \<le> of_u32 v / of_u32 w" if "w \<noteq> 0" for v w
  proof (cases "v = 0")
    case True
    then show ?thesis by (simp add: of_u32_def)
  next
    case False
    then show ?thesis
      using of_u32_bounds [of v] of_u32_bounds [of w] that by (intro disjI2 frac_le) simp_all
  qed
  from this [OF assms(1), of "sz_width ceil"] this [OF assms(2), of "sz_height ceil"]
  show ?thesis unfolding exact_scale_def min_def by (auto split: if_splits)
qed

text \<open>A side computed in double precision is within a quarter of a pixel of the exact one before it is rounded.\<close>

lemma fit_side_raw:
  assumes "side \<noteq> 0" and "\<bar>s - t\<bar> \<le> t / 2 ^ 53" and "t = 0 \<or> 1 / 2 ^ 32 \<le> t" and "t \<le> 1"
  shows "\<bar>f64 (of_u32 side * s) - of_u32 side * t\<bar> < 1 / 4"
proof -
  define v where "v = of_u32 side"
  have v: "1 \<le> v" "v < 2 ^ 32" using of_u32_bounds [of side] assms(1) by (simp_all add: v_def)
  have t: "0 \<le> t" using assms(3) by (auto intro: order_trans [of 0 "1 / 2 ^ 32"])
  have "t / 2 ^ 53 \<le> t / 2" using t by simp
  then have s: "\<bar>s - t\<bar> \<le> t / 2" using assms(2) by linarith
  then have "s \<le> 2" using assms(4) t by linarith
  have "in_range (v * s)"
  proof (cases "t = 0")
    case True
    with s have "s = 0" by simp
    then show ?thesis by (simp add: in_range_def)
  next
    case False
    then have "2 * (1 / 2 ^ 33) \<le> t" using assms(3) by simp
    then have "1 / 2 ^ 33 \<le> s" using s by linarith
    then have "1 * (1 / 2 ^ 33) \<le> v * s" using v by (intro mult_mono) simp_all
    moreover have "v * s \<le> 2 ^ 32 * 2" using v \<open>s \<le> 2\<close> \<open>1 / 2 ^ 33 \<le> s\<close> by (intro mult_mono) simp_all
    ultimately show ?thesis by (simp add: in_range_def)
  qed
  then have f: "\<bar>f64 (v * s) - v * s\<bar> \<le> v * s / 2 ^ 53" by (rule f64_error)
  have "v * t \<le> v * 1" using v assms(4) by (intro mult_left_mono) simp_all
  then have "v * t \<le> v" by (simp only: mult_1_right)
  then have x: "0 \<le> v * t" "v * t < 2 ^ 32" using v t by (simp, linarith)
  have "v * \<bar>s - t\<bar> \<le> v * (t / 2 ^ 53)" using assms(2) v by (intro mult_left_mono) simp_all
  then have e: "\<bar>v * s - v * t\<bar> \<le> v * t / 2 ^ 53"
    using v by (simp add: abs_mult right_diff_distrib [symmetric])
  have small: "y < 2 ^ 33 \<Longrightarrow> y / 2 ^ 53 < 1 / 16" for y :: rat by simp
  have "v * t / 2 ^ 53 < 1 / 16" by (rule small) (use x in simp)
  with e have d: "\<bar>v * s - v * t\<bar> < 1 / 16" by (rule le_less_trans)
  then have "v * s < 2 ^ 32 + 1" using x by linarith
  then have "v * s / 2 ^ 53 < 1 / 16" by (intro small) simp
  with f have "\<bar>f64 (v * s) - v * s\<bar> < 1 / 16" by (rule le_less_trans)
  with d show ?thesis unfolding v_def [symmetric] by linarith
qed

lemma as_u32_floor:
  assumes "\<bar>p - x\<bar> < 1 / 4" and "0 \<le> x" and "x \<le> of_nat n" and "n < 2 ^ 32"
  shows "x - 3 / 4 < of_nat (unat (as_u32 (f64_round p)))" "of_nat (unat (as_u32 (f64_round p))) < x + 3 / 4"
    "unat (as_u32 (f64_round p)) \<le> n"
proof -
  define r where "r = f64_round p"
  have r: "of_int r \<le> p + 1 / 2" "p + 1 / 2 < of_int r + 1"
    unfolding r_def f64_round_def by linarith+
  have "of_int r < (of_int (int n) + 1 :: rat)" using r(1) assms(1,3) by (simp only: of_int_of_nat_eq)
  then have le: "r \<le> int n" by linarith
  have "(- 1 :: rat) < of_int r" using r(2) assms(1,2) by linarith
  then have ge: "0 \<le> r" by linarith
  have "unat (as_u32 r) = nat r"
    using le ge assms(4) by (simp add: as_u32_def unat_eq_nat_uint uint_word_of_int)
  then have eq: "int (unat (as_u32 r)) = r" using ge by simp
  then have eq': "of_nat (unat (as_u32 r)) = (of_int r :: rat)" by (metis of_int_of_nat_eq)
  show "x - 3 / 4 < of_nat (unat (as_u32 (f64_round p)))" "of_nat (unat (as_u32 (f64_round p))) < x + 3 / 4"
    unfolding r_def [symmetric] eq' using r assms(1) by linarith+
  show "unat (as_u32 (f64_round p)) \<le> n"
    unfolding r_def [symmetric] using eq le by linarith
qed

text \<open>Everything the properties need of one side, with \<open>x\<close> its exact length.\<close>

lemma fit_side_bounds:
  assumes "sz_width source \<noteq> 0" and "sz_height source \<noteq> 0" and "side \<noteq> 0"
    and "x = of_u32 side * exact_scale source ceil" and "x \<le> of_u32 bound"
  defines "r \<equiv> unat (fit_side side (fit_scale source ceil))"
  shows "even r" "2 \<le> r" "r \<le> max 2 (unat side)" "r \<le> max 2 (unat bound)"
    "2 \<le> x \<Longrightarrow> \<bar>of_nat r - x\<bar> < 2"
proof -
  define p where "p = f64 (of_u32 side * fit_scale source ceil)"
  define k where "k = unat (as_u32 (f64_round p))"
  have near: "\<bar>p - x\<bar> < 1 / 4"
    unfolding p_def assms(4)
    by (rule fit_side_raw) (use assms fit_scale_error exact_scale_bounds exact_scale_positive in auto)
  have x: "0 \<le> x" "x \<le> of_u32 side"
    unfolding assms(4) using exact_scale_bounds [OF assms(1,2)] of_u32_bounds(1)
    by (simp_all add: mult_left_le)
  have small: "unat v < 2 ^ 32" for v :: u32 using unsigned_less [of v] by simp
  note side = as_u32_floor [OF near x(1) x(2) [unfolded of_u32_def] small, folded k_def]
  note bound = as_u32_floor(3) [OF near x(1) assms(5) [unfolded of_u32_def] small, folded k_def]
  have "r = 2 * (max k 2 div 2)"
    by (simp add: r_def fit_side_def unat_even_side p_def k_def max_def word_le_nat_alt)
  moreover have "2 * (max k 2 div 2) \<le> max k 2" by simp
  moreover have "max k 2 < 2 * (max k 2 div 2) + 2" by presburger
  ultimately have r: "r \<le> max k 2" "max k 2 < r + 2" "even r" by simp_all
  then show "even r" "2 \<le> r" "r \<le> max 2 (unat side)" "r \<le> max 2 (unat bound)"
    using side(3) bound by auto
  assume "2 \<le> x"
  then have "1 < k" using side(1) by linarith
  then have "r \<le> k" "k < r + 2" using r by auto
  then have "of_nat r \<le> (of_nat k :: rat)" "of_nat k \<le> (of_nat r + 1 :: rat)"
    by (simp_all flip: of_nat_Suc add: of_nat_le_iff)
  then show "\<bar>of_nat r - x\<bar> < 2" using side(1,2) by linarith
qed

lemma fit_within_ceiling_facts:
  assumes "sz_width source \<noteq> 0" and "sz_height source \<noteq> 0"
  shows "even (unat (sz_width (fit source ceil)))" "even (unat (sz_height (fit source ceil)))"
    "2 \<le> unat (sz_width (fit source ceil))" "2 \<le> unat (sz_height (fit source ceil))"
    "unat (sz_width (fit source ceil)) \<le> max 2 (min (unat (sz_width source)) (unat (sz_width ceil)))"
    "unat (sz_height (fit source ceil)) \<le> max 2 (min (unat (sz_height source)) (unat (sz_height ceil)))"
    "2 \<le> of_u32 (sz_width source) * exact_scale source ceil \<Longrightarrow>
       \<bar>of_u32 (sz_width (fit source ceil)) - of_u32 (sz_width source) * exact_scale source ceil\<bar> < 2"
    "2 \<le> of_u32 (sz_height source) * exact_scale source ceil \<Longrightarrow>
       \<bar>of_u32 (sz_height (fit source ceil)) - of_u32 (sz_height source) * exact_scale source ceil\<bar> < 2"
proof -
  note w = fit_side_bounds [OF assms assms(1) refl exact_scale_bounds(3) [OF assms]]
  note h = fit_side_bounds [OF assms assms(2) refl exact_scale_bounds(4) [OF assms]]
  have fit: "sz_width (fit source ceil) = fit_side (sz_width source) (fit_scale source ceil)"
    "sz_height (fit source ceil) = fit_side (sz_height source) (fit_scale source ceil)"
    using assms by (simp_all add: fit_def Let_def)
  show "even (unat (sz_width (fit source ceil)))" "even (unat (sz_height (fit source ceil)))"
    "2 \<le> unat (sz_width (fit source ceil))" "2 \<le> unat (sz_height (fit source ceil))"
    unfolding fit by (rule w h)+
  show "unat (sz_width (fit source ceil)) \<le> max 2 (min (unat (sz_width source)) (unat (sz_width ceil)))"
    "unat (sz_height (fit source ceil)) \<le> max 2 (min (unat (sz_height source)) (unat (sz_height ceil)))"
    unfolding fit using w(3,4) [of ceil] h(3,4) [of ceil] by auto
  show "2 \<le> of_u32 (sz_width source) * exact_scale source ceil \<Longrightarrow>
       \<bar>of_u32 (sz_width (fit source ceil)) - of_u32 (sz_width source) * exact_scale source ceil\<bar> < 2"
    unfolding fit of_u32_def [of "fit_side _ _"] by (rule w(5))
  show "2 \<le> of_u32 (sz_height source) * exact_scale source ceil \<Longrightarrow>
       \<bar>of_u32 (sz_height (fit source ceil)) - of_u32 (sz_height source) * exact_scale source ceil\<bar> < 2"
    unfolding fit of_u32_def [of "fit_side _ _"] by (rule h(5))
qed

text \<open>
  C36. The size a picture is sent at: both sides are even and at least 2, as NV12 needs; neither is larger than the
  captured side or the ceiling allows (but for sides below 2); and each is less than 2 pixels away from the exact
  side of the same shape, in spite of the roundings of double precision.
\<close>

theorem fit_within_ceiling:
  assumes "sz_width source \<noteq> 0" and "sz_height source \<noteq> 0"
  shows "even (unat (sz_width (fit source ceil))) \<and> even (unat (sz_height (fit source ceil)))
    \<and> 2 \<le> unat (sz_width (fit source ceil)) \<and> 2 \<le> unat (sz_height (fit source ceil))
    \<and> unat (sz_width (fit source ceil)) \<le> max 2 (min (unat (sz_width source)) (unat (sz_width ceil)))
    \<and> unat (sz_height (fit source ceil)) \<le> max 2 (min (unat (sz_height source)) (unat (sz_height ceil)))
    \<and> (2 \<le> of_u32 (sz_width source) * exact_scale source ceil \<longrightarrow>
         \<bar>of_u32 (sz_width (fit source ceil)) - of_u32 (sz_width source) * exact_scale source ceil\<bar> < 2)
    \<and> (2 \<le> of_u32 (sz_height source) * exact_scale source ceil \<longrightarrow>
         \<bar>of_u32 (sz_height (fit source ceil)) - of_u32 (sz_height source) * exact_scale source ceil\<bar> < 2)"
  using fit_within_ceiling_facts [OF assms] by blast

lemma even_side_even: "even (unat v) \<Longrightarrow> even_side v = v"
  by (rule unsigned_word_eqI [where ?'a = nat]) (simp add: unat_even_side)

text \<open>A picture that already fits is sent as it is, but for an odd row or column.\<close>

lemma fit_small_unchanged:
  assumes "2 \<le> unat (sz_width source)" and "2 \<le> unat (sz_height source)"
    and "sz_width source \<le> sz_width ceil" and "sz_height source \<le> sz_height ceil"
  shows "fit source ceil = \<lparr>sz_width = even_side (sz_width source), sz_height = even_side (sz_height source)\<rparr>"
proof -
  have nz: "sz_width source \<noteq> 0" "sz_height source \<noteq> 0" using assms(1,2) by auto
  have mono: "v \<le> w \<Longrightarrow> of_u32 v \<le> of_u32 w" for v w
    by (simp only: of_u32_def word_le_nat_alt of_nat_le_iff)
  have "1 \<le> of_u32 w / of_u32 v" if "v \<noteq> 0" "v \<le> w" for v w
    using mono [OF that(2)] of_u32_bounds(3) [OF that(1)] by simp
  then have "1 \<le> f64 (of_u32 (sz_width ceil) / of_u32 (sz_width source))"
    "1 \<le> f64 (of_u32 (sz_height ceil) / of_u32 (sz_height source))"
    using assms nz f64_ge_1 quotient_in_range by blast+
  then have scale: "fit_scale source ceil = 1" by (simp add: fit_scale_def)
  have "fit_side v 1 = even_side v" if v: "2 \<le> unat v" for v
  proof -
    have "v \<noteq> 0" using v by auto
    then have near: "\<bar>f64 (of_u32 v * 1) - of_u32 v * 1\<bar> < 1 / 4" by (rule fit_side_raw) simp_all
    have small: "unat v < 2 ^ 32" using unsigned_less [of v] by simp
    define k where "k = unat (as_u32 (f64_round (f64 (of_u32 v * 1))))"
    note k = as_u32_floor [OF near _ _ small, folded k_def]
    have "of_u32 v * 1 \<le> of_nat (unat v)" "0 \<le> of_u32 v * 1"
      using of_u32_bounds(1) [of v] by (simp_all only: of_u32_def mult_1_right order_refl)
    then have "k \<le> unat v" "of_u32 v - 3 / 4 < of_nat k" using k by simp_all
    then have "of_nat (unat v) < (of_nat (k + 1) :: rat)" unfolding of_u32_def by simp
    then have "unat v < k + 1" by (simp only: of_nat_less_iff)
    with \<open>k \<le> unat v\<close> have "k = unat v" by simp
    then have "as_u32 (f64_round (f64 (of_u32 v * 1))) = v"
      unfolding k_def by (rule unsigned_word_eqI)
    moreover have "max v 2 = v" using v by (simp add: max_def word_le_nat_alt unsigned_word_eqI [where ?'a = nat])
    ultimately show ?thesis by (simp add: fit_side_def)
  qed
  with assms scale nz show ?thesis by (simp add: fit_def)
qed

text \<open>An ultrawide monitor on a 1080p ladder, evaluated.\<close>

lemma binade_numeral [simp]:
  "binade (numeral k) q =
     (if q \<ge> 2 then binade (pred_numeral k) (q / 2) + 1
      else if q < 1 then binade (pred_numeral k) (2 * q) - 1 else 0)"
  by (simp add: numeral_eq_Suc)

definition ultrawide :: dims where
  "ultrawide = \<lparr>sz_width = 3440, sz_height = 1440\<rparr>"

definition ladder_1080 :: dims where
  "ladder_1080 = \<lparr>sz_width = 1920, sz_height = 1080\<rparr>"

lemma floor_rat_numeral [simp]: "\<lfloor>numeral a / numeral b :: rat\<rfloor> = numeral a div numeral b"
  using floor_divide_of_int_eq [of "numeral a" "numeral b", where ?'a = rat] by simp

lemma f64_ultrawide:
  "f64 (24 / 43) = 5027274002646135 / 2 ^ 53" "f64 (3 / 4) = 3 / 4"
  "f64 (3440 * (5027274002646135 / 2 ^ 53)) = 1920"
  "f64 (1440 * (5027274002646135 / 2 ^ 53)) = 7069604066221127 / 2 ^ 43"
  by (simp_all add: f64_def Let_def power_int_def power_one_over round_half_even_def)

lemma fit_ultrawide: "fit ultrawide ladder_1080 = \<lparr>sz_width = 1920, sz_height = 804\<rparr>"
proof -
  let ?s = "5027274002646135 / 2 ^ 53 :: rat"
  have "fit_scale ultrawide ladder_1080 = ?s"
    using f64_ultrawide(1,2) by (simp add: fit_scale_def ultrawide_def ladder_1080_def of_u32_def)
  moreover have "f64 (of_u32 3440 * ?s) = 1920" "f64 (of_u32 1440 * ?s) = 7069604066221127 / 2 ^ 43"
    using f64_ultrawide(3,4) by (simp_all add: of_u32_def)
  then have "fit_side 3440 ?s = 1920" "fit_side 1440 ?s = 804"
    unfolding fit_side_def by (simp_all only:) (simp_all add: f64_round_def as_u32_def even_side_def)
  ultimately show ?thesis unfolding fit_def Let_def by (simp only:) (simp add: ultrawide_def)
qed

theorem fit_within_ceiling_witness:
  "unat (sz_width (fit ultrawide ladder_1080)) \<le> 1920 \<and> even (unat (sz_height (fit ultrawide ladder_1080)))
   \<and> \<bar>of_u32 (sz_height (fit ultrawide ladder_1080)) - 1440 * exact_scale ultrawide ladder_1080\<bar> < 2"
  using fit_within_ceiling [of ultrawide ladder_1080]
  by (simp add: ultrawide_def ladder_1080_def exact_scale_def of_u32_def)

end
