(* ===== verification/Camera_Convert.thy ===== *)
theory Camera_Convert
  imports Scaling
begin

text \<open>
  \<^verbatim>\<open>desktop/src-tauri/src/camera/convert.rs\<close>: the camera's pixel formats into NV12.  A frame is a list of bytes with a
  pitch and an orientation; the destination is libwebrtc's NV12 buffer, two planes with their strides.  The
  conversions the file hands to libyuv (\<^verbatim>\<open>i420_to_nv12\<close>, \<^verbatim>\<open>argb_to_nv12\<close>) are a parameter; the copies, shuffles
  and checks are the code's own.  \<open>None\<close> is a panic: an index or a slice out of range, or libyuv refusing its
  arguments.
\<close>

section \<open>Formats\<close>

text \<open>
  The GUIDs are constants of the Windows bindings: one constructor each, and one for every other GUID.
\<close>

datatype subtype =
    MEDIASUBTYPE_NV12 | MEDIASUBTYPE_I420 | MEDIASUBTYPE_IYUV | MEDIASUBTYPE_YUY2 | MEDIASUBTYPE_UYVY
  | MEDIASUBTYPE_RGB32 | MFVideoFormat_RGB32 | MFVideoFormat_ARGB32 | MEDIASUBTYPE_RGB24 | MFVideoFormat_RGB24
  | Other_Subtype "128 word"

datatype pixels = Nv12 | I420 | Yuy2 | Uyvy | Rgb32 | Rgb24

definition PREFERENCE :: "pixels list" where
  "PREFERENCE = [Nv12, I420, Yuy2, Uyvy, Rgb32, Rgb24]"

fun from_subtype :: "subtype \<Rightarrow> pixels option" where
  "from_subtype MEDIASUBTYPE_NV12 = Some Nv12"
| "from_subtype MEDIASUBTYPE_I420 = Some I420"
| "from_subtype MEDIASUBTYPE_IYUV = Some I420"
| "from_subtype MEDIASUBTYPE_YUY2 = Some Yuy2"
| "from_subtype MEDIASUBTYPE_UYVY = Some Uyvy"
| "from_subtype MEDIASUBTYPE_RGB32 = Some Rgb32"
| "from_subtype MFVideoFormat_RGB32 = Some Rgb32"
| "from_subtype MFVideoFormat_ARGB32 = Some Rgb32"
| "from_subtype MEDIASUBTYPE_RGB24 = Some Rgb24"
| "from_subtype MFVideoFormat_RGB24 = Some Rgb24"
| "from_subtype (Other_Subtype g) = None"

fun px_stride :: "pixels \<Rightarrow> u32 \<Rightarrow> nat" where
  "px_stride Nv12 w = unat w"
| "px_stride I420 w = unat w"
| "px_stride Yuy2 w = unat w * 2"
| "px_stride Uyvy w = unat w * 2"
| "px_stride Rgb32 w = unat w * 4"
| "px_stride Rgb24 w = div_ceil (unat w * 3) 4 * 4"

fun needed :: "pixels \<Rightarrow> nat \<Rightarrow> u32 \<Rightarrow> nat" where
  "needed Nv12 pitch h = pitch * unat h + pitch * div_ceil (unat h) 2"
| "needed I420 pitch h = pitch * unat h + 2 * (pitch div 2) * div_ceil (unat h) 2"
| "needed _ pitch h = pitch * unat h"

definition frame_bytes :: "pixels \<Rightarrow> dims \<Rightarrow> nat" where
  "frame_bytes k sz = needed k (px_stride k (sz_width sz)) (sz_height sz)"

definition can_be_bottom_up :: "pixels \<Rightarrow> bool" where
  "can_be_bottom_up k \<longleftrightarrow> \<not> (k = Nv12 \<or> k = I420)"

fun minimum_pitch :: "pixels \<Rightarrow> u32 \<Rightarrow> nat" where
  "minimum_pitch Nv12 w = unat w"
| "minimum_pitch I420 w = unat w"
| "minimum_pitch Yuy2 w = unat w * 2"
| "minimum_pitch Uyvy w = unat w * 2"
| "minimum_pitch Rgb32 w = unat w * 4"
| "minimum_pitch Rgb24 w = unat w * 3"

section \<open>Frames\<close>

record raw =
  raw_data :: bytes
  raw_pitch :: nat
  raw_bottom_up :: bool

record converter =
  cv_kind :: pixels
  cv_scratch :: bytes

text \<open>\<^verbatim>\<open>NV12Buffer\<close>: the two planes and their strides.\<close>

record nv12 =
  nv_stride_y :: u32
  nv_stride_uv :: u32
  nv_y :: bytes
  nv_uv :: bytes

text \<open>
  libyuv, as the code calls it: source planes with their pitches, the two destination planes with their strides,
  width and height, a negative height for a source stored bottom-up.  \<open>None\<close> when it panics.
\<close>

record yuv =
  i420_to_nv12 :: "bytes \<Rightarrow> u32 \<Rightarrow> bytes \<Rightarrow> u32 \<Rightarrow> bytes \<Rightarrow> u32 \<Rightarrow> bytes \<Rightarrow> u32 \<Rightarrow> bytes \<Rightarrow> u32
    \<Rightarrow> i32 \<Rightarrow> i32 \<Rightarrow> (bytes \<times> bytes) option"
  argb_to_nv12 :: "bytes \<Rightarrow> u32 \<Rightarrow> bytes \<Rightarrow> u32 \<Rightarrow> bytes \<Rightarrow> u32 \<Rightarrow> i32 \<Rightarrow> i32 \<Rightarrow> (bytes \<times> bytes) option"

definition converter_new :: "pixels \<Rightarrow> converter" where
  "converter_new k = \<lparr>cv_kind = k, cv_scratch = []\<rparr>"

definition nv12_into ::
  "bytes \<Rightarrow> nat \<Rightarrow> dims \<Rightarrow> bytes \<Rightarrow> nat \<Rightarrow> bytes \<Rightarrow> nat \<Rightarrow> (bool \<times> bytes \<times> bytes) option" where
  "nv12_into source pitch sz dst_y stride_y dst_uv stride_uv =
     (let rows = unat (sz_height sz); width = unat (sz_width sz); chroma_rows = rows div 2 in
      if pitch < width \<or> length source < pitch * rows + pitch * chroma_rows then Some (False, dst_y, dst_uv)
      else if stride_y < width \<or> stride_uv < width then Some (False, dst_y, dst_uv)
      else if length dst_y < stride_y * rows \<or> length dst_uv < stride_uv * chroma_rows
        then Some (False, dst_y, dst_uv)
      else
        let uv = pitch * rows in
        Option.bind (for_upto rows (\<lambda>row dst.
            Option.bind (slice source (row * pitch) (row * pitch + width))
              (copy_at dst (row * stride_y))) dst_y) (\<lambda>dst_y'.
        Option.bind (for_upto chroma_rows (\<lambda>row dst.
            Option.bind (slice source (uv + row * pitch) (uv + row * pitch + width))
              (copy_at dst (row * stride_uv))) dst_uv) (\<lambda>dst_uv'.
        Some (True, dst_y', dst_uv'))))"

text \<open>One row of a packed 4:2:2 frame: its luma, and on even rows its interleaved chroma.\<close>

definition packed_luma :: "bytes \<Rightarrow> nat \<Rightarrow> nat \<Rightarrow> bytes option" where
  "packed_luma from width luma_at = all_some (map (\<lambda>pixel. index from (pixel * 2 + luma_at)) [0..<width])"

definition packed_chroma :: "bytes \<Rightarrow> nat \<Rightarrow> nat \<Rightarrow> nat \<Rightarrow> bytes option" where
  "packed_chroma from width u_at v_at =
     map_option concat (all_some (map (\<lambda>pair.
       Option.bind (index from (pair * 4 + u_at)) (\<lambda>u.
       Option.bind (index from (pair * 4 + v_at)) (\<lambda>v. Some [u, v]))) [0..<width div 2]))"

definition stored_row :: "bool \<Rightarrow> nat \<Rightarrow> nat \<Rightarrow> nat" where
  "stored_row bottom_up rows row = (if bottom_up then rows - 1 - row else row)"

definition packed_422_into ::
  "raw \<Rightarrow> dims \<Rightarrow> nat \<times> nat \<times> nat \<Rightarrow> bytes \<Rightarrow> nat \<Rightarrow> bytes \<Rightarrow> nat \<Rightarrow> (bool \<times> bytes \<times> bytes) option" where
  "packed_422_into raw sz offsets dst_y stride_y dst_uv stride_uv =
     (let rows = unat (sz_height sz); width = unat (sz_width sz);
          (luma_at, u_at, v_at) = offsets; pitch = raw_pitch raw in
      if pitch < width * 2 \<or> length (raw_data raw) < pitch * rows then Some (False, dst_y, dst_uv)
      else if stride_y < width \<or> stride_uv < width then Some (False, dst_y, dst_uv)
      else
        map_option (\<lambda>(y, uv). (True, y, uv)) (for_upto rows (\<lambda>row (y, uv).
          let stored = stored_row (raw_bottom_up raw) rows row in
          Option.bind (slice (raw_data raw) (stored * pitch) (stored * pitch + width * 2)) (\<lambda>from.
          Option.bind (packed_luma from width luma_at) (\<lambda>luma.
          Option.bind (copy_at y (row * stride_y) luma) (\<lambda>y'.
          if row mod 2 \<noteq> 0 then Some (y', uv)
          else
            Option.bind (packed_chroma from width u_at v_at) (\<lambda>chroma.
            Option.bind (slice uv (row div 2 * stride_uv) (row div 2 * stride_uv + width)) (\<lambda>_.
            Option.bind (copy_at uv (row div 2 * stride_uv) chroma) (\<lambda>uv'. Some (y', uv'))))))))
          (dst_y, dst_uv)))"

text \<open>Rgb24 is widened to Rgb32 in the scratch buffer, row by row in memory order.\<close>

definition widen_row :: "bytes \<Rightarrow> bytes" where
  "widen_row from = concat (map (\<lambda>bgr. bgr @ [0xFF]) (whole_chunks 3 from))"

definition widen_into :: "bytes \<Rightarrow> nat \<Rightarrow> nat \<Rightarrow> nat \<Rightarrow> bytes \<Rightarrow> bytes option" where
  "widen_into src pitch width rows scratch =
     (let widened = width * 4 in
      for_upto rows (\<lambda>row scratch.
        Option.bind (slice src (row * pitch) (row * pitch + width * 3)) (\<lambda>from.
        Option.bind (slice scratch (row * widened) ((row + 1) * widened)) (\<lambda>_.
        copy_at scratch (row * widened) (widen_row from)))) (resize (widened * rows) 0 scratch))"

definition offsets_of :: "pixels \<Rightarrow> nat \<times> nat \<times> nat" where
  "offsets_of k = (if k = Yuy2 then (0, 1, 3) else (1, 0, 2))"

definition put_planes :: "nv12 \<Rightarrow> bytes \<times> bytes \<Rightarrow> nv12" where
  "put_planes dst planes = dst\<lparr>nv_y := fst planes, nv_uv := snd planes\<rparr>"

section \<open>\<^verbatim>\<open>Converter::write\<close>\<close>

definition write_refuses :: "converter \<Rightarrow> raw \<Rightarrow> dims \<Rightarrow> nv12 \<Rightarrow> bool" where
  "write_refuses c raw sz dst \<longleftrightarrow>
     (let w = unat (sz_width sz); h = unat (sz_height sz) in
      w < 2 \<or> h < 2 \<or> w mod 2 \<noteq> 0 \<or> h mod 2 \<noteq> 0
      \<or> raw_bottom_up raw \<and> \<not> can_be_bottom_up (cv_kind c)
      \<or> raw_pitch raw < minimum_pitch (cv_kind c) (sz_width sz)
      \<or> length (raw_data raw) < needed (cv_kind c) (raw_pitch raw) (sz_height sz)
      \<or> length (nv_y dst) < unat (nv_stride_y dst) * h
      \<or> length (nv_uv dst) < unat (nv_stride_uv dst) * (h div 2))"

definition convert_frame :: "yuv \<Rightarrow> converter \<Rightarrow> raw \<Rightarrow> dims \<Rightarrow> nv12 \<Rightarrow> (bool \<times> converter \<times> nv12) option" where
  "convert_frame yuv c raw sz dst =
     (let rows = unat (sz_height sz); width = unat (sz_width sz);
          height = (sz_height sz :: i32);
          signed_height = (if raw_bottom_up raw then - height else height);
          pitch = raw_pitch raw; src = raw_data raw;
          st_y = nv_stride_y dst; st_uv = nv_stride_uv dst in
      case cv_kind c of
        Nv12 \<Rightarrow>
          map_option (\<lambda>(ok, planes). (ok, c, put_planes dst planes))
            (nv12_into src pitch sz (nv_y dst) (unat st_y) (nv_uv dst) (unat st_uv))
      | I420 \<Rightarrow>
          let chroma_pitch = pitch div 2; luma = pitch * rows; chroma = chroma_pitch * div_ceil rows 2 in
          Option.bind (slice src 0 luma) (\<lambda>y.
          Option.bind (slice src luma (luma + chroma)) (\<lambda>u.
          Option.bind (slice src (luma + chroma) (luma + chroma + chroma)) (\<lambda>v.
          map_option (\<lambda>planes. (True, c, put_planes dst planes))
            (i420_to_nv12 yuv y (of_nat pitch) u (of_nat chroma_pitch) v (of_nat chroma_pitch)
               (nv_y dst) st_y (nv_uv dst) st_uv (sz_width sz) height))))
      | Rgb32 \<Rightarrow>
          Option.bind (slice src 0 (pitch * rows)) (\<lambda>whole.
          map_option (\<lambda>planes. (True, c, put_planes dst planes))
            (argb_to_nv12 yuv whole (of_nat pitch) (nv_y dst) st_y (nv_uv dst) st_uv (sz_width sz) signed_height))
      | Rgb24 \<Rightarrow>
          Option.bind (widen_into src pitch width rows (cv_scratch c)) (\<lambda>scratch.
          map_option (\<lambda>planes. (True, c\<lparr>cv_scratch := scratch\<rparr>, put_planes dst planes))
            (argb_to_nv12 yuv scratch (of_nat (width * 4)) (nv_y dst) st_y (nv_uv dst) st_uv (sz_width sz)
               signed_height))
      | kind \<Rightarrow>
          map_option (\<lambda>(ok, planes). (ok, c, put_planes dst planes))
            (packed_422_into raw sz (offsets_of kind) (nv_y dst) (unat st_y) (nv_uv dst) (unat st_uv)))"

definition converter_write :: "yuv \<Rightarrow> converter \<Rightarrow> raw \<Rightarrow> dims \<Rightarrow> nv12 \<Rightarrow> (bool \<times> converter \<times> nv12) option" where
  "converter_write yuv c raw sz dst =
     (if write_refuses c raw sz dst then Some (False, c, dst) else convert_frame yuv c raw sz dst)"

section \<open>Copying rows\<close>

text \<open>Row \<open>i\<close> of a plane that starts at \<open>base\<close>.\<close>

definition src_row :: "bytes \<Rightarrow> nat \<Rightarrow> nat \<Rightarrow> nat \<Rightarrow> nat \<Rightarrow> bytes" where
  "src_row source base pitch width i = take width (drop (base + i * pitch) source)"

lemma copy_plane:
  assumes "base + pitch * n \<le> length source" and "w \<le> pitch" and "w \<le> st" and "0 < st" and "st * n \<le> length d"
  shows "\<exists>r. for_upto n (\<lambda>row dst.
      Option.bind (slice source (base + row * pitch) (base + row * pitch + w)) (copy_at dst (row * st))) d = Some r
    \<and> rows_written st w n (src_row source base pitch w) d r"
proof (rule copy_rows)
  have in_source: "base + i * pitch + w \<le> length source" if "i < n" for i
    using row_offset_le [OF that assms(2) order_refl] assms(1) by simp
  then show "length (src_row source base pitch w i) = w" if "i < n" for i
    using in_source [OF that] by (simp add: src_row_def min_absorb2)
  show "Option.bind (slice source (base + i * pitch) (base + i * pitch + w)) (copy_at r (i * st))
      = copy_at r (i * st) (src_row source base pitch w i)" if "i < n" for i r
    using slice_row [OF in_source [OF that]] by (simp add: src_row_def)
qed (use assms in auto)

lemma src_row_nth:
  "c < w \<Longrightarrow> base + i * pitch + c < length source \<Longrightarrow> src_row source base pitch w i ! c = source ! (base + i * pitch + c)"
  by (simp add: src_row_def)

lemma nv12_into_rows:
  assumes "w \<le> pitch" and "pitch * h + pitch * (h div 2) \<le> length source"
    and "w \<le> sy" and "w \<le> suv" and "0 < w" and "sy * h \<le> length y" and "suv * (h div 2) \<le> length uv"
    and "w = unat (sz_width sz)" and "h = unat (sz_height sz)"
  shows "\<exists>y' uv'. nv12_into source pitch sz y sy uv suv = Some (True, y', uv')
    \<and> rows_written sy w h (src_row source 0 pitch w) y y'
    \<and> rows_written suv w (h div 2) (src_row source (pitch * h) pitch w) uv uv'"
proof -
  obtain y' where y': "for_upto h (\<lambda>row dst.
      Option.bind (slice source (0 + row * pitch) (0 + row * pitch + w)) (copy_at dst (row * sy))) y = Some y'"
    "rows_written sy w h (src_row source 0 pitch w) y y'"
    using copy_plane [of 0 pitch h source w sy y] assms by auto
  obtain uv' where uv': "for_upto (h div 2) (\<lambda>row dst.
      Option.bind (slice source (pitch * h + row * pitch) (pitch * h + row * pitch + w)) (copy_at dst (row * suv))) uv
        = Some uv'"
    "rows_written suv w (h div 2) (src_row source (pitch * h) pitch w) uv uv'"
    using copy_plane [of "pitch * h" pitch "h div 2" source w suv uv] assms by auto
  show ?thesis
    unfolding nv12_into_def Let_def assms(8,9) [symmetric]
    using assms(1-7) y' uv' by (simp add: not_less)
qed

section \<open>Shuffling packed rows\<close>

definition packed_row_y :: "raw \<Rightarrow> nat \<Rightarrow> nat \<Rightarrow> nat \<Rightarrow> nat \<Rightarrow> bytes" where
  "packed_row_y raw h w l row =
     map (\<lambda>c. raw_data raw ! (stored_row (raw_bottom_up raw) h row * raw_pitch raw + c * 2 + l)) [0..<w]"

definition packed_row_uv :: "raw \<Rightarrow> nat \<Rightarrow> nat \<Rightarrow> nat \<Rightarrow> nat \<Rightarrow> nat \<Rightarrow> bytes" where
  "packed_row_uv raw h w u v row =
     concat (map (\<lambda>p. let off = stored_row (raw_bottom_up raw) h row * raw_pitch raw + p * 4 in
       [raw_data raw ! (off + u), raw_data raw ! (off + v)]) [0..<w div 2])"

lemma stored_row_less: "row < h \<Longrightarrow> stored_row b h row < h"
  by (auto simp: stored_row_def)

lemma packed_from:
  assumes "row < h" and "w * 2 \<le> raw_pitch raw" and "raw_pitch raw * h \<le> length (raw_data raw)"
  defines "off \<equiv> stored_row (raw_bottom_up raw) h row * raw_pitch raw"
  shows "off + w * 2 \<le> length (raw_data raw)"
    "slice (raw_data raw) off (off + w * 2) = Some (take (w * 2) (drop off (raw_data raw)))"
proof -
  show le: "off + w * 2 \<le> length (raw_data raw)"
    unfolding off_def by (rule row_offset_le [OF stored_row_less [OF assms(1)] assms(2,3)])
  show "slice (raw_data raw) off (off + w * 2) = Some (take (w * 2) (drop off (raw_data raw)))"
    by (rule slice_row [OF le])
qed

lemma packed_luma_row:
  assumes "off + w * 2 \<le> length src" and "l < 2"
  shows "packed_luma (take (w * 2) (drop off src)) w l = Some (map (\<lambda>c. src ! (off + c * 2 + l)) [0..<w])"
  unfolding packed_luma_def
proof (rule all_some_map)
  show "\<forall>c \<in> set [0..<w]. index (take (w * 2) (drop off src)) (c * 2 + l) = Some (src ! (off + c * 2 + l))"
    using assms by (auto simp: index_def add.assoc)
qed

lemma packed_chroma_row:
  assumes "off + w * 2 \<le> length src" and "u < 4" and "v < 4" and "even w"
  shows "packed_chroma (take (w * 2) (drop off src)) w u v =
    Some (concat (map (\<lambda>p. [src ! (off + p * 4 + u), src ! (off + p * 4 + v)]) [0..<w div 2]))"
proof -
  have "p * 4 + j < w * 2" if "p < w div 2" "j < 4" for p j
    using that assms(4) by presburger
  then have "all_some (map (\<lambda>p. Option.bind (index (take (w * 2) (drop off src)) (p * 4 + u)) (\<lambda>u.
       Option.bind (index (take (w * 2) (drop off src)) (p * 4 + v)) (\<lambda>v. Some [u, v]))) [0..<w div 2])
    = Some (map (\<lambda>p. [src ! (off + p * 4 + u), src ! (off + p * 4 + v)]) [0..<w div 2])"
    using assms by (intro all_some_map) (auto simp: index_def add.assoc)
  then show ?thesis by (simp add: packed_chroma_def)
qed

lemma packed_422_rows:
  assumes "w * 2 \<le> raw_pitch raw" and "raw_pitch raw * h \<le> length (raw_data raw)"
    and "w \<le> sy" and "w \<le> suv" and "0 < w" and "even w" and "even h"
    and "sy * h \<le> length y" and "suv * (h div 2) \<le> length uv" and "l < 2" and "u < 4" and "v < 4"
    and "w = unat (sz_width sz)" and "h = unat (sz_height sz)"
  shows "\<exists>y' uv'. packed_422_into raw sz (l, u, v) y sy uv suv = Some (True, y', uv')
    \<and> rows_written sy w h (packed_row_y raw h w l) y y'
    \<and> rows_written suv w (h div 2) (\<lambda>k. packed_row_uv raw h w u v (2 * k)) uv uv'"
proof -
  let ?ry = "packed_row_y raw h w l" and ?ruv = "\<lambda>k. packed_row_uv raw h w u v (2 * k)"
  define body where "body = (\<lambda>row (y, uv).
          let stored = stored_row (raw_bottom_up raw) h row in
          Option.bind (slice (raw_data raw) (stored * raw_pitch raw) (stored * raw_pitch raw + w * 2)) (\<lambda>from.
          Option.bind (packed_luma from w l) (\<lambda>luma.
          Option.bind (copy_at y (row * sy) luma) (\<lambda>y'.
          if row mod 2 \<noteq> 0 then Some (y', uv)
          else
            Option.bind (packed_chroma from w u v) (\<lambda>chroma.
            Option.bind (slice uv (row div 2 * suv) (row div 2 * suv + w)) (\<lambda>_.
            Option.bind (copy_at uv (row div 2 * suv) chroma) (\<lambda>uv'. Some (y', uv'))))))))"
  let ?P = "\<lambda>i (y', uv'). rows_written sy w i ?ry y y' \<and> rows_written suv w ((i + 1) div 2) ?ruv uv uv'"
  have len_y: "length (?ry i) = w" for i by (simp add: packed_row_y_def)
  have len_uv: "length (?ruv i) = w" for i
    using assms(6) by (simp add: packed_row_uv_def Let_def concat_chunks_length [where n = 2])
  have step: "\<exists>t'. body i t = Some t' \<and> ?P (Suc i) t'" if i: "i < h" and t: "?P i t" for i t
  proof -
    obtain y1 uv1 where t1: "t = (y1, uv1)" by (cases t)
    note rd = packed_from [OF i assms(1,2)]
    obtain y2 where y2: "copy_at y1 (i * sy) (?ry i) = Some y2" "rows_written sy w (Suc i) ?ry y y2"
      using copy_at_row [of sy w i ?ry y y1] t t1 assms(3,5,8) len_y row_offset_le [OF i assms(3,8)] by auto
    have luma: "packed_luma (take (w * 2) (drop (stored_row (raw_bottom_up raw) h i * raw_pitch raw) (raw_data raw))) w l
        = Some (?ry i)"
      using packed_luma_row [OF rd(1) assms(10)] by (simp add: packed_row_y_def)
    show ?thesis
    proof (cases "even i")
      case False
      then have "(Suc i + 1) div 2 = (i + 1) div 2" by presburger
      then show ?thesis
        using False t t1 y2 luma rd(2) by (simp add: body_def Let_def odd_iff_mod_2_eq_one)
    next
      case True
      then have half: "(i + 1) div 2 = i div 2" "(Suc i + 1) div 2 = Suc (i div 2)" "2 * (i div 2) = i" by presburger+
      have "i div 2 < h div 2" using True i assms(7) by presburger
      then have fits: "i div 2 * suv + w \<le> length uv" by (rule row_offset_le [OF _ assms(4,9)])
      have r1: "rows_written suv w (i div 2) ?ruv uv uv1" using t t1 half(1) by simp
      obtain uv2 where uv2: "copy_at uv1 (i div 2 * suv) (?ruv (i div 2)) = Some uv2"
        "rows_written suv w (Suc (i div 2)) ?ruv uv uv2"
        using copy_at_row [where row = ?ruv, OF r1 len_uv assms(4) _ fits] assms(4,5) by auto
      have "length uv1 = length uv" using t t1 by (auto simp: rows_written_def)
      then have "slice uv1 (i div 2 * suv) (i div 2 * suv + w) \<noteq> None" using fits by (simp add: slice_def)
      moreover have "packed_chroma (take (w * 2) (drop (stored_row (raw_bottom_up raw) h i * raw_pitch raw)
          (raw_data raw))) w u v = Some (?ruv (i div 2))"
        using packed_chroma_row [OF rd(1) assms(11,12,6)] half(3) by (simp add: packed_row_uv_def Let_def)
      ultimately show ?thesis
        using True t1 y2 uv2 luma rd(2) half by (auto simp: body_def Let_def even_iff_mod_2_eq_zero)
    qed
  qed
  have "?P 0 (y, uv)" by simp
  then obtain t where "for_upto h body (y, uv) = Some t" "?P h t"
    using for_upto_rule [of ?P "(y, uv)" h body] step by blast
  moreover have "(h + 1) div 2 = h div 2" using assms(7) by presburger
  ultimately show ?thesis
    unfolding packed_422_into_def Let_def assms(13,14) [symmetric]
    using assms(1-4) by (cases t) (simp add: body_def Let_def not_less)
qed

section \<open>The picture\<close>

text \<open>
  What each format means: the luma of a pixel, and the interleaved chroma of a 2x2 block (even columns U, odd V).
  Packed formats carry chroma on every row; the even rows of the picture count.
\<close>

fun source_luma :: "pixels \<Rightarrow> raw \<Rightarrow> nat \<Rightarrow> nat \<Rightarrow> nat \<Rightarrow> u8" where
  "source_luma Nv12 raw h row col = raw_data raw ! (row * raw_pitch raw + col)"
| "source_luma k raw h row col =
     raw_data raw ! (stored_row (raw_bottom_up raw) h row * raw_pitch raw + col * 2 + fst (offsets_of k))"

fun source_chroma :: "pixels \<Rightarrow> raw \<Rightarrow> nat \<Rightarrow> nat \<Rightarrow> nat \<Rightarrow> u8" where
  "source_chroma Nv12 raw h row col = raw_data raw ! (raw_pitch raw * h + row * raw_pitch raw + col)"
| "source_chroma k raw h row col =
     raw_data raw ! (stored_row (raw_bottom_up raw) h (2 * row) * raw_pitch raw + col div 2 * 4
       + (if even col then fst (snd (offsets_of k)) else snd (snd (offsets_of k))))"

text \<open>
  \<open>shows_picture dst sz luma chroma\<close>: the planes hold this picture; \<open>outside_kept\<close>: every byte that belongs to no sample
  of it, in the padding of a row or past the last row, is as it was.
\<close>

definition shows_picture :: "nv12 \<Rightarrow> dims \<Rightarrow> (nat \<Rightarrow> nat \<Rightarrow> u8) \<Rightarrow> (nat \<Rightarrow> nat \<Rightarrow> u8) \<Rightarrow> bool" where
  "shows_picture dst sz luma chroma \<longleftrightarrow>
     (\<forall>row < unat (sz_height sz). \<forall>col < unat (sz_width sz).
        nv_y dst ! (row * unat (nv_stride_y dst) + col) = luma row col)
     \<and> (\<forall>row < unat (sz_height sz) div 2. \<forall>col < unat (sz_width sz).
        nv_uv dst ! (row * unat (nv_stride_uv dst) + col) = chroma row col)"

definition outside_kept :: "nv12 \<Rightarrow> nv12 \<Rightarrow> dims \<Rightarrow> bool" where
  "outside_kept dst dst' sz \<longleftrightarrow>
     nv_stride_y dst' = nv_stride_y dst \<and> nv_stride_uv dst' = nv_stride_uv dst
     \<and> length (nv_y dst') = length (nv_y dst) \<and> length (nv_uv dst') = length (nv_uv dst)
     \<and> (\<forall>k < length (nv_y dst).
          unat (sz_height sz) \<le> k div unat (nv_stride_y dst) \<or> unat (sz_width sz) \<le> k mod unat (nv_stride_y dst) \<longrightarrow>
          nv_y dst' ! k = nv_y dst ! k)
     \<and> (\<forall>k < length (nv_uv dst).
          unat (sz_height sz) div 2 \<le> k div unat (nv_stride_uv dst) \<or> unat (sz_width sz) \<le> k mod unat (nv_stride_uv dst) \<longrightarrow>
          nv_uv dst' ! k = nv_uv dst ! k)"

lemma planes_picture:
  assumes "rows_written (unat (nv_stride_y dst)) w h ry (nv_y dst) y"
    and "rows_written (unat (nv_stride_uv dst)) w (h div 2) ruv (nv_uv dst) uv"
    and "w = unat (sz_width sz)" and "h = unat (sz_height sz)"
    and "w \<le> unat (nv_stride_y dst)" and "w \<le> unat (nv_stride_uv dst)"
    and "unat (nv_stride_y dst) * h \<le> length (nv_y dst)" and "unat (nv_stride_uv dst) * (h div 2) \<le> length (nv_uv dst)"
    and "\<And>row col. row < h \<Longrightarrow> col < w \<Longrightarrow> ry row ! col = luma row col"
    and "\<And>row col. row < h div 2 \<Longrightarrow> col < w \<Longrightarrow> ruv row ! col = chroma row col"
  shows "shows_picture (put_planes dst (y, uv)) sz luma chroma" "outside_kept dst (put_planes dst (y, uv)) sz"
proof -
  show "shows_picture (put_planes dst (y, uv)) sz luma chroma"
    unfolding shows_picture_def assms(3,4) [symmetric]
    using rows_written_at [OF assms(1) _ _ assms(5,7)] rows_written_at [OF assms(2) _ _ assms(6,8)] assms(9,10)
    by (simp add: put_planes_def)
  show "outside_kept dst (put_planes dst (y, uv)) sz"
    unfolding outside_kept_def assms(3,4) [symmetric]
    using assms(1,2) by (auto simp: put_planes_def rows_written_def)
qed

lemma not_refused:
  assumes "\<not> write_refuses c raw sz dst"
  defines "w \<equiv> unat (sz_width sz)" and "h \<equiv> unat (sz_height sz)"
  shows "2 \<le> w" "2 \<le> h" "even w" "even h" "raw_bottom_up raw \<longrightarrow> can_be_bottom_up (cv_kind c)"
    "minimum_pitch (cv_kind c) (sz_width sz) \<le> raw_pitch raw"
    "needed (cv_kind c) (raw_pitch raw) (sz_height sz) \<le> length (raw_data raw)"
    "unat (nv_stride_y dst) * h \<le> length (nv_y dst)" "unat (nv_stride_uv dst) * (h div 2) \<le> length (nv_uv dst)"
  using assms(1) unfolding w_def h_def write_refuses_def Let_def
  by (auto simp: not_less even_iff_mod_2_eq_zero)

lemma packed_row_uv_nth:
  assumes "even w" and "col < w"
  shows "packed_row_uv raw h w u v row ! col =
    raw_data raw ! (stored_row (raw_bottom_up raw) h row * raw_pitch raw + col div 2 * 4 + (if even col then u else v))"
proof -
  have "col div 2 < w div 2" using assms by presburger
  moreover have "col = 2 * (col div 2) + col mod 2" "col mod 2 < 2" by simp_all
  ultimately have "packed_row_uv raw h w u v row ! col =
      [raw_data raw ! (stored_row (raw_bottom_up raw) h row * raw_pitch raw + col div 2 * 4 + u),
       raw_data raw ! (stored_row (raw_bottom_up raw) h row * raw_pitch raw + col div 2 * 4 + v)] ! (col mod 2)"
    unfolding packed_row_uv_def Let_def
    by (subst (1) \<open>col = 2 * (col div 2) + col mod 2\<close>, subst nth_concat_chunks [where n = 2]) simp_all
  then show ?thesis by (cases "even col") (simp_all add: even_iff_mod_2_eq_zero odd_iff_mod_2_eq_one)
qed

lemma yuv_frame_copied:
  assumes "\<not> write_refuses c raw sz dst" and "cv_kind c \<in> {Nv12, Yuy2, Uyvy}"
    and "sz_width sz \<le> nv_stride_y dst" and "sz_width sz \<le> nv_stride_uv dst"
  shows "\<exists>dst'. converter_write yuv c raw sz dst = Some (True, c, dst')
    \<and> shows_picture dst' sz (source_luma (cv_kind c) raw (unat (sz_height sz)))
        (source_chroma (cv_kind c) raw (unat (sz_height sz)))
    \<and> outside_kept dst dst' sz"
proof -
  let ?w = "unat (sz_width sz)" and ?h = "unat (sz_height sz)"
  let ?sy = "unat (nv_stride_y dst)" and ?suv = "unat (nv_stride_uv dst)"
  note ok = not_refused [OF assms(1)]
  have strides: "?w \<le> ?sy" "?w \<le> ?suv" using assms(3,4) by (simp_all add: word_le_nat_alt)
  have pos: "0 < ?w" using ok(1) by simp
  show ?thesis
  proof (cases "cv_kind c = Nv12")
    case True
    have pitch: "?w \<le> raw_pitch raw"
      and data: "raw_pitch raw * ?h + raw_pitch raw * (?h div 2) \<le> length (raw_data raw)"
      using ok(4,6,7) True by (simp_all add: div_ceil_even)
    obtain y uv where into: "nv12_into (raw_data raw) (raw_pitch raw) sz (nv_y dst) ?sy (nv_uv dst) ?suv = Some (True, y, uv)"
      and rows: "rows_written ?sy ?w ?h (src_row (raw_data raw) 0 (raw_pitch raw) ?w) (nv_y dst) y"
        "rows_written ?suv ?w (?h div 2) (src_row (raw_data raw) (raw_pitch raw * ?h) (raw_pitch raw) ?w) (nv_uv dst) uv"
      using nv12_into_rows [OF pitch data strides pos ok(8,9) refl refl] by blast
    have "src_row (raw_data raw) 0 (raw_pitch raw) ?w row ! col = source_luma Nv12 raw ?h row col"
      if "row < ?h" "col < ?w" for row col
      using that row_offset_le [OF that(1) pitch order_refl] data by (subst src_row_nth) simp_all
    moreover have "src_row (raw_data raw) (raw_pitch raw * ?h) (raw_pitch raw) ?w row ! col = source_chroma Nv12 raw ?h row col"
      if "row < ?h div 2" "col < ?w" for row col
      using that row_offset_le [OF that(1) pitch order_refl] data by (subst src_row_nth) simp_all
    ultimately have "shows_picture (put_planes dst (y, uv)) sz (source_luma Nv12 raw ?h) (source_chroma Nv12 raw ?h)"
      "outside_kept dst (put_planes dst (y, uv)) sz"
      using planes_picture [OF rows refl refl strides ok(8,9)] by blast+
    moreover have "converter_write yuv c raw sz dst = Some (True, c, put_planes dst (y, uv))"
      using assms(1) into True by (simp add: converter_write_def convert_frame_def Let_def)
    ultimately show ?thesis using True by auto
  next
    case False
    then have kind: "cv_kind c = Yuy2 \<or> cv_kind c = Uyvy" using assms(2) by auto
    obtain l u v where off: "offsets_of (cv_kind c) = (l, u, v)" "l < 2" "u < 4" "v < 4"
      using kind by (auto simp: offsets_of_def)
    have pitch: "?w * 2 \<le> raw_pitch raw" and data: "raw_pitch raw * ?h \<le> length (raw_data raw)"
      using ok(6,7) kind by auto
    obtain y uv where into: "packed_422_into raw sz (l, u, v) (nv_y dst) ?sy (nv_uv dst) ?suv = Some (True, y, uv)"
      and rows: "rows_written ?sy ?w ?h (packed_row_y raw ?h ?w l) (nv_y dst) y"
        "rows_written ?suv ?w (?h div 2) (\<lambda>k. packed_row_uv raw ?h ?w u v (2 * k)) (nv_uv dst) uv"
      using packed_422_rows [OF pitch data strides pos ok(3,4,8,9) off(2-4) refl refl] by blast
    have "packed_row_y raw ?h ?w l row ! col = source_luma (cv_kind c) raw ?h row col" if "col < ?w" for row col
      using that off(1) kind by (auto simp: packed_row_y_def)
    moreover have "packed_row_uv raw ?h ?w u v (2 * row) ! col = source_chroma (cv_kind c) raw ?h row col"
      if "col < ?w" for row col
      using packed_row_uv_nth [OF ok(3) that] off(1) kind by auto
    ultimately have "shows_picture (put_planes dst (y, uv)) sz (source_luma (cv_kind c) raw ?h) (source_chroma (cv_kind c) raw ?h)"
      "outside_kept dst (put_planes dst (y, uv)) sz"
      using planes_picture [OF rows refl refl strides ok(8,9)] by blast+
    moreover have "converter_write yuv c raw sz dst = Some (True, c, put_planes dst (y, uv))"
      using assms(1) into kind off(1) by (auto simp: converter_write_def convert_frame_def Let_def)
    ultimately show ?thesis by blast
  qed
qed

lemma narrow_buffer_refused:
  assumes "cv_kind c \<in> {Nv12, Yuy2, Uyvy}" and "nv_stride_y dst < sz_width sz \<or> nv_stride_uv dst < sz_width sz"
  shows "converter_write yuv c raw sz dst = Some (False, c, dst)"
proof -
  have "unat (nv_stride_y dst) < unat (sz_width sz) \<or> unat (nv_stride_uv dst) < unat (sz_width sz)"
    using assms(2) by (simp add: word_less_nat_alt)
  then show ?thesis
    using assms(1)
    by (auto simp: converter_write_def convert_frame_def nv12_into_def packed_422_into_def put_planes_def Let_def
        split: prod.split)
qed

text \<open>
  C6.  NV12, YUY2 and UYVY, the three formats the code converts by itself, for any camera data, pitch, orientation and
  buffer: the write panics on none of them and runs no library code.  A frame the checks refuse, or a buffer with rows
  narrower than the picture, is answered \<^verbatim>\<open>false\<close> with nothing written.  Any other frame reaches the buffer as
  the same picture: each luma sample and each chroma pair is the one the format puts at that pixel, whatever the
  padding of the source rows, and every byte of the buffer outside the picture is as it was.
\<close>

theorem write_copies_picture:
  assumes "cv_kind c \<in> {Nv12, Yuy2, Uyvy}"
  shows "if write_refuses c raw sz dst \<or> nv_stride_y dst < sz_width sz \<or> nv_stride_uv dst < sz_width sz
    then converter_write yuv c raw sz dst = Some (False, c, dst)
    else \<exists>dst'. converter_write yuv c raw sz dst = Some (True, c, dst')
      \<and> shows_picture dst' sz (source_luma (cv_kind c) raw (unat (sz_height sz)))
          (source_chroma (cv_kind c) raw (unat (sz_height sz)))
      \<and> outside_kept dst dst' sz"
proof (cases "write_refuses c raw sz dst")
  case True
  then show ?thesis by (simp add: converter_write_def)
next
  case False
  then show ?thesis
    using narrow_buffer_refused [OF assms, of dst sz yuv raw] yuv_frame_copied [OF False assms, of yuv]
    by (cases "nv_stride_y dst < sz_width sz \<or> nv_stride_uv dst < sz_width sz") (auto simp: not_less)
qed

section \<open>RGB24\<close>

lemma length_widen_row: "length from = w * 3 \<Longrightarrow> length (widen_row from) = w * 4"
proof -
  assume len: "length from = w * 3"
  have "i * 3 + 3 \<le> w * 3" if "i < w" for i using that by simp
  then have "\<forall>x \<in> set (whole_chunks 3 from). length (x @ [0xFF]) = 4"
    using len by (auto simp: whole_chunks_def)
  then show ?thesis using len unfolding widen_row_def by (subst concat_chunks_length [where n = 4]) simp_all
qed

lemma widen_row_nth:
  assumes "length from = w * 3" and "col < w" and "j < 4"
  shows "widen_row from ! (col * 4 + j) = (if j < 3 then from ! (col * 3 + j) else 0xFF)"
proof -
  have fit: "i * 3 + 3 \<le> length from" if "i < w" for i using that assms(1) by simp
  then have "\<forall>x \<in> set (whole_chunks 3 from). length (x @ [0xFF]) = 4"
    using assms(1) by (auto simp: whole_chunks_def)
  then have "widen_row from ! (4 * col + j) = (whole_chunks 3 from ! col @ [0xFF]) ! j"
    using assms unfolding widen_row_def by (intro nth_concat_chunks) simp_all
  moreover have "whole_chunks 3 from ! col = take 3 (drop (col * 3) from)"
    using assms by (simp add: whole_chunks_def)
  moreover have "j = 3 \<or> j < 3" using assms(3) by auto
  ultimately show ?thesis
    using fit [OF assms(2)] by (auto simp: nth_append mult.commute)
qed

text \<open>The widened frame: B, G, R and \<open>0xFF\<close> for each pixel, rows as they lie in memory, packed.\<close>

definition widened :: "raw \<Rightarrow> nat \<Rightarrow> nat \<Rightarrow> bytes" where
  "widened raw w h = concat (map (\<lambda>i. widen_row (src_row (raw_data raw) 0 (raw_pitch raw) (w * 3) i)) [0..<h])"

lemma widen_into_widened:
  assumes "w * 3 \<le> raw_pitch raw" and "raw_pitch raw * h \<le> length (raw_data raw)" and "0 < w"
  shows "widen_into (raw_data raw) (raw_pitch raw) w h scratch = Some (widened raw w h)"
proof -
  let ?row = "\<lambda>i. widen_row (src_row (raw_data raw) 0 (raw_pitch raw) (w * 3) i)"
  let ?d = "resize (w * 4 * h) 0 scratch"
  have len: "length (?row i) = w * 4" if "i < h" for i
    using row_offset_le [OF that assms(1,2)] by (intro length_widen_row) (simp add: src_row_def)
  have "\<exists>r. for_upto h (\<lambda>row scratch.
        Option.bind (slice (raw_data raw) (row * raw_pitch raw) (row * raw_pitch raw + w * 3)) (\<lambda>from.
        Option.bind (slice scratch (row * (w * 4)) ((row + 1) * (w * 4))) (\<lambda>_.
        copy_at scratch (row * (w * 4)) (widen_row from)))) ?d = Some r
      \<and> rows_written (w * 4) (w * 4) h ?row ?d r"
  proof (rule copy_rows)
    fix i and r :: bytes assume i: "i < h" and r: "length r = length ?d"
    have "(i + 1) * (w * 4) \<le> h * (w * 4)" using i by (intro mult_le_mono1) simp
    then have "slice r (i * (w * 4)) ((i + 1) * (w * 4)) \<noteq> None"
      using r by (simp add: slice_def mult.commute)
    then show "Option.bind (slice (raw_data raw) (i * raw_pitch raw) (i * raw_pitch raw + w * 3)) (\<lambda>from.
        Option.bind (slice r (i * (w * 4)) ((i + 1) * (w * 4))) (\<lambda>_. copy_at r (i * (w * 4)) (widen_row from)))
        = copy_at r (i * (w * 4)) (?row i)"
      using slice_row [OF row_offset_le [OF i assms(1,2)]] by (auto simp: src_row_def)
  qed (use assms(3) len in auto)
  then obtain r where r: "widen_into (raw_data raw) (raw_pitch raw) w h scratch = Some r"
    "rows_written (w * 4) (w * 4) h ?row ?d r"
    unfolding widen_into_def Let_def by blast
  have "length (widened raw w h) = length r"
    using r(2) len unfolding widened_def by (subst concat_chunks_length [where n = "w * 4"]) (auto simp: rows_written_def)
  moreover have "r ! k = widened raw w h ! k" if "k < length r" for k
  proof -
    have k: "k = (w * 4) * (k div (w * 4)) + k mod (w * 4)" by simp
    have lt: "k mod (w * 4) < w * 4" "k div (w * 4) < h"
      using assms(3) that r(2) by (auto simp: rows_written_def less_mult_imp_div_less mult.commute)
    have "widened raw w h ! k = ?row ([0..<h] ! (k div (w * 4))) ! (k mod (w * 4))"
      unfolding widened_def by (subst (1) k, rule nth_concat_chunks) (use lt len in auto)
    then show ?thesis using r(2) lt that by (simp add: rows_written_def)
  qed
  ultimately show ?thesis using r(1) by (simp add: nth_equalityI)
qed

lemma length_widened:
  assumes "w * 3 \<le> raw_pitch raw" and "raw_pitch raw * h \<le> length (raw_data raw)"
  shows "length (widened raw w h) = w * 4 * h"
proof -
  have "length (widen_row (src_row (raw_data raw) 0 (raw_pitch raw) (w * 3) i)) = w * 4" if "i < h" for i
    using row_offset_le [OF that assms] by (intro length_widen_row) (simp add: src_row_def)
  then show ?thesis unfolding widened_def by (subst concat_chunks_length [where n = "w * 4"]) auto
qed

lemma widened_nth:
  assumes "w * 3 \<le> raw_pitch raw" and "raw_pitch raw * h \<le> length (raw_data raw)"
    and "row < h" and "col < w" and "j < 4"
  shows "widened raw w h ! (row * (w * 4) + col * 4 + j) =
    (if j < 3 then raw_data raw ! (row * raw_pitch raw + col * 3 + j) else 0xFF)"
proof -
  let ?f = "\<lambda>i. widen_row (src_row (raw_data raw) 0 (raw_pitch raw) (w * 3) i)"
  have src: "length (src_row (raw_data raw) 0 (raw_pitch raw) (w * 3) i) = w * 3" if "i < h" for i
    using row_offset_le [OF that assms(1,2)] by (simp add: src_row_def)
  have off: "col * 4 + j < w * 4" using assms(4,5) by simp
  have "widened raw w h ! ((w * 4) * row + (col * 4 + j)) = ?f ([0..<h] ! row) ! (col * 4 + j)"
    unfolding widened_def by (rule nth_concat_chunks) (use assms off src length_widen_row in auto)
  also have "\<dots> = (if j < 3 then src_row (raw_data raw) 0 (raw_pitch raw) (w * 3) row ! (col * 3 + j) else 0xFF)"
    using widen_row_nth [OF src [OF assms(3)] assms(4,5)] assms(3) by simp
  also have "\<dots> = (if j < 3 then raw_data raw ! (row * raw_pitch raw + col * 3 + j) else 0xFF)"
    using row_offset_le [OF assms(3,1,2)] assms(4) by (auto simp: src_row_nth add.assoc)
  finally show ?thesis by (simp add: mult.commute add.assoc)
qed

definition widened_raw :: "raw \<Rightarrow> dims \<Rightarrow> raw" where
  "widened_raw raw sz =
     \<lparr>raw_data = widened raw (unat (sz_width sz)) (unat (sz_height sz)), raw_pitch = unat (sz_width sz) * 4,
      raw_bottom_up = raw_bottom_up raw\<rparr>"

lemma rgb24_is_widened_rgb32_facts:
  assumes "cv_kind c = Rgb24" and "\<not> write_refuses c raw sz dst"
  shows "converter_write yuv c raw sz dst =
      map_option (\<lambda>(ok, _, dst'). (ok, c\<lparr>cv_scratch := raw_data (widened_raw raw sz)\<rparr>, dst'))
        (converter_write yuv (converter_new Rgb32) (widened_raw raw sz) sz dst)"
    "row < unat (sz_height sz) \<Longrightarrow> col < unat (sz_width sz) \<Longrightarrow> j < 4 \<Longrightarrow>
      raw_data (widened_raw raw sz) ! (row * raw_pitch (widened_raw raw sz) + col * 4 + j) =
        (if j < 3 then raw_data raw ! (row * raw_pitch raw + col * 3 + j) else 0xFF)"
proof -
  let ?w = "unat (sz_width sz)" and ?h = "unat (sz_height sz)"
  note ok = not_refused [OF assms(2)]
  have pitch: "?w * 3 \<le> raw_pitch raw" and data: "raw_pitch raw * ?h \<le> length (raw_data raw)"
    using ok(6,7) assms(1) by simp_all
  note len = length_widened [OF pitch data]
  have "\<not> write_refuses (converter_new Rgb32) (widened_raw raw sz) sz dst"
    using ok len unfolding write_refuses_def Let_def
    by (simp add: not_less converter_new_def widened_raw_def can_be_bottom_up_def even_iff_mod_2_eq_zero)
  moreover have "slice (widened raw ?w ?h) 0 (?w * 4 * ?h) = Some (widened raw ?w ?h)"
    using len by (simp add: slice_def)
  ultimately show "converter_write yuv c raw sz dst =
      map_option (\<lambda>(ok, _, dst'). (ok, c\<lparr>cv_scratch := raw_data (widened_raw raw sz)\<rparr>, dst'))
        (converter_write yuv (converter_new Rgb32) (widened_raw raw sz) sz dst)"
    using assms widen_into_widened [OF pitch data, of "cv_scratch c"] ok(1)
    by (simp add: converter_write_def convert_frame_def Let_def converter_new_def widened_raw_def
        option.map_comp comp_def)
  show "row < ?h \<Longrightarrow> col < ?w \<Longrightarrow> j < 4 \<Longrightarrow>
      raw_data (widened_raw raw sz) ! (row * raw_pitch (widened_raw raw sz) + col * 4 + j) =
        (if j < 3 then raw_data raw ! (row * raw_pitch raw + col * 3 + j) else 0xFF)"
    using widened_nth [OF pitch data] by (simp add: widened_raw_def)
qed

text \<open>
  C37. An RGB24 frame converts as the RGB32 frame with the same pixels, for any libyuv: the same destination, whatever
  the scratch buffer held from earlier frames.  The RGB32 frame has B, G, R of each pixel in place, opaque, rows in
  the same order and orientation but without the padding of the source.
\<close>

theorem rgb24_is_widened_rgb32:
  assumes "cv_kind c = Rgb24" and "\<not> write_refuses c raw sz dst"
  shows "converter_write yuv c raw sz dst =
      map_option (\<lambda>(ok, _, dst'). (ok, c\<lparr>cv_scratch := raw_data (widened_raw raw sz)\<rparr>, dst'))
        (converter_write yuv (converter_new Rgb32) (widened_raw raw sz) sz dst)
    \<and> (\<forall>row col j. row < unat (sz_height sz) \<longrightarrow> col < unat (sz_width sz) \<longrightarrow> j < 4 \<longrightarrow>
         raw_data (widened_raw raw sz) ! (row * raw_pitch (widened_raw raw sz) + col * 4 + j) =
           (if j < 3 then raw_data raw ! (row * raw_pitch raw + col * 3 + j) else 0xFF))"
  using rgb24_is_widened_rgb32_facts [OF assms] by blast

section \<open>Bounds and panics\<close>

text \<open>What the code relies on of libyuv: it converts whenever the planes hold the rows they are said to hold.\<close>

definition plane_ok :: "bytes \<Rightarrow> u32 \<Rightarrow> nat \<Rightarrow> nat \<Rightarrow> bool" where
  "plane_ok plane pitch width rows \<longleftrightarrow> width \<le> unat pitch \<and> unat pitch * rows \<le> length plane"

definition yuv_total :: "yuv \<Rightarrow> bool" where
  "yuv_total yuv \<longleftrightarrow>
     (\<forall>src p y sy uv suv w h. 0 < sint w \<longrightarrow> sint h \<noteq> 0 \<longrightarrow> (let cols = nat (sint w); rows = nat \<bar>sint h\<bar> in
        plane_ok src p (4 * cols) rows \<and> plane_ok y sy cols rows \<and> plane_ok uv suv cols (rows div 2))
        \<longrightarrow> argb_to_nv12 yuv src p y sy uv suv w h \<noteq> None)
     \<and> (\<forall>a p b q c r y sy uv suv w h. 0 < sint w \<longrightarrow> 0 < sint h \<longrightarrow> (let cols = nat (sint w); rows = nat (sint h) in
        plane_ok a p cols rows \<and> plane_ok b q (cols div 2) (rows div 2) \<and> plane_ok c r (cols div 2) (rows div 2)
        \<and> plane_ok y sy cols rows \<and> plane_ok uv suv cols (rows div 2))
        \<longrightarrow> i420_to_nv12 yuv a p b q c r y sy uv suv w h \<noteq> None)"

lemma sint_word_of_i32: "- (2 ^ 31) \<le> k \<Longrightarrow> k < 2 ^ 31 \<Longrightarrow> sint (word_of_int k :: i32) = k"
  by (simp add: sint_uint uint_word_of_int_eq signed_take_bit_take_bit signed_take_bit_int_eq_self)

lemma sint_small:
  assumes "unat (x :: i32) < 2 ^ 31"
  shows "sint x = int (unat x)" "sint (- x) = - int (unat x)"
proof -
  have n: "int (unat x) = uint x" by simp
  have "int (unat x) < int (2 ^ 31)" using assms by (simp only: of_nat_less_iff)
  then have "uint x < 2 ^ 31" unfolding n by simp
  moreover have "0 \<le> uint x" by (rule unsigned_greater_eq)
  ultimately have x: "0 \<le> uint x" "uint x < 2 ^ 31" "int (unat x) = uint x" by simp_all
  have "sint x = sint (word_of_int (uint x) :: i32)" by simp
  also have "\<dots> = int (unat x)" unfolding x(3) by (rule sint_word_of_i32) (use x(1,2) in linarith)+
  finally show "sint x = int (unat x)" .
  have "sint (- x) = sint (word_of_int (- uint x) :: i32)" by (simp flip: wi_hom_neg)
  also have "\<dots> = - int (unat x)" unfolding x(3) by (rule sint_word_of_i32) (use x(1,2) in linarith)+
  finally show "sint (- x) = - int (unat x)" .
qed

lemma unat_of_u32: "n < 2 ^ 32 \<Longrightarrow> unat (of_nat n :: u32) = n"
  by (simp add: unat_of_nat)

lemma plane_okI: "unat pitch = p \<Longrightarrow> w \<le> p \<Longrightarrow> p * rows \<le> length plane \<Longrightarrow> plane_ok plane pitch w rows"
  by (simp add: plane_ok_def)

lemma argb_converts:
  assumes "yuv_total yuv" and "plane_ok src p (4 * unat w) (unat h)"
    and "plane_ok y sy (unat w) (unat h)" and "plane_ok uv suv (unat w) (unat h div 2)"
    and "0 < unat w" and "0 < unat h" and "unat w < 2 ^ 31" and "unat h < 2 ^ 31"
  shows "argb_to_nv12 yuv src p y sy uv suv w (if up then - h else h) \<noteq> None"
proof -
  have "sint w = int (unat w)" "\<bar>sint (if up then - h else h)\<bar> = int (unat h)"
    using sint_small assms(7,8) by auto
  then have "0 < sint w" "sint (if up then - h else h) \<noteq> 0"
    "nat (sint w) = unat w" "nat \<bar>sint (if up then - h else h)\<bar> = unat h"
    using assms(5,6) by linarith+
  with assms(1-4) show ?thesis unfolding yuv_total_def Let_def by metis
qed

lemma i420_converts:
  assumes "yuv_total yuv" and "plane_ok a p (unat w) (unat h)"
    and "plane_ok b q (unat w div 2) (unat h div 2)" and "plane_ok c r (unat w div 2) (unat h div 2)"
    and "plane_ok y sy (unat w) (unat h)" and "plane_ok uv suv (unat w) (unat h div 2)"
    and "0 < unat w" and "0 < unat h" and "unat w < 2 ^ 31" and "unat h < 2 ^ 31"
  shows "i420_to_nv12 yuv a p b q c r y sy uv suv w h \<noteq> None"
proof -
  have "sint w = int (unat w)" "sint h = int (unat h)" using sint_small assms(9,10) by simp_all
  then have "0 < sint w" "0 < sint h" "nat (sint w) = unat w" "nat (sint h) = unat h"
    using assms(7,8) by linarith+
  with assms(1-6) show ?thesis unfolding yuv_total_def Let_def by metis
qed

lemma write_total:
  assumes "yuv_total yuv" and "unat (sz_width sz) < 2 ^ 30" and "unat (sz_height sz) < 2 ^ 30" and "raw_pitch raw < 2 ^ 32"
    and "sz_width sz \<le> nv_stride_y dst" and "sz_width sz \<le> nv_stride_uv dst"
  shows "\<exists>ok c' dst'. converter_write yuv c raw sz dst = Some (ok, c', dst')
    \<and> (ok \<longleftrightarrow> \<not> write_refuses c raw sz dst) \<and> (\<not> ok \<longrightarrow> c' = c \<and> dst' = dst)"
proof (cases "write_refuses c raw sz dst")
  case True
  then show ?thesis by (intro exI [of _ False]) (simp add: converter_write_def)
next
  case False
  let ?w = "unat (sz_width sz)" and ?h = "unat (sz_height sz)"
  note ok = not_refused [OF False]
  have strides: "?w \<le> unat (nv_stride_y dst)" "?w \<le> unat (nv_stride_uv dst)"
    using assms(5,6) by (simp_all add: word_le_nat_alt)
  have dst: "plane_ok (nv_y dst) (nv_stride_y dst) ?w ?h"
    "plane_ok (nv_uv dst) (nv_stride_uv dst) ?w (?h div 2)"
    using strides ok(8,9) by (auto intro: plane_okI)
  have pos: "0 < ?w" "0 < ?h" "?w < 2 ^ 31" "?h < 2 ^ 31" using ok(1,2) assms(2,3) by simp_all
  have "\<exists>c' dst'. convert_frame yuv c raw sz dst = Some (True, c', dst')"
  proof (cases "cv_kind c")
    case I420
    let ?p = "raw_pitch raw"
    have pitch: "?w \<le> ?p" and data: "?p * ?h + 2 * (?p div 2) * (?h div 2) \<le> length (raw_data raw)"
      using ok(4,6,7) I420 by (simp_all add: div_ceil_even)
    define chroma where "chroma = ?p div 2 * (?h div 2)"
    obtain y u v where planes: "slice (raw_data raw) 0 (?p * ?h) = Some y" "length y = ?p * ?h"
      "slice (raw_data raw) (?p * ?h) (?p * ?h + chroma) = Some u" "length u = chroma"
      "slice (raw_data raw) (?p * ?h + chroma) (?p * ?h + chroma + chroma) = Some v" "length v = chroma"
      using data by (simp add: slice_def chroma_def)
    have "i420_to_nv12 yuv y (of_nat ?p) u (of_nat (?p div 2)) v (of_nat (?p div 2)) (nv_y dst) (nv_stride_y dst)
        (nv_uv dst) (nv_stride_uv dst) (sz_width sz) (sz_height sz) \<noteq> None"
    proof (rule i420_converts [OF assms(1) _ _ _ dst pos])
      show "plane_ok y (of_nat ?p) ?w ?h"
        using pitch planes(2) assms(4) by (intro plane_okI [of _ ?p]) (simp_all add: unat_of_u32)
      have half: "unat (of_nat (?p div 2) :: u32) = ?p div 2" using assms(4) by (intro unat_of_u32) simp
      show "plane_ok u (of_nat (?p div 2)) (?w div 2) (?h div 2)"
        "plane_ok v (of_nat (?p div 2)) (?w div 2) (?h div 2)"
        using half pitch planes(4,6) by (auto intro!: plane_okI [of _ "?p div 2"] simp: chroma_def div_le_mono)
    qed
    then show ?thesis
      using planes I420 ok(4) by (auto simp: convert_frame_def Let_def div_ceil_even chroma_def)
  next
    case Rgb32
    let ?p = "raw_pitch raw"
    have pitch: "?w * 4 \<le> ?p" and data: "?p * ?h \<le> length (raw_data raw)" using ok(6,7) Rgb32 by simp_all
    have slice: "slice (raw_data raw) 0 (?p * ?h) = Some (take (?p * ?h) (raw_data raw))"
      using data by (simp add: slice_def)
    have "argb_to_nv12 yuv (take (?p * ?h) (raw_data raw)) (of_nat ?p) (nv_y dst) (nv_stride_y dst) (nv_uv dst)
        (nv_stride_uv dst) (sz_width sz) (if raw_bottom_up raw then - sz_height sz else sz_height sz) \<noteq> None"
      using pitch data assms(4)
      by (intro argb_converts [OF assms(1) _ dst pos] plane_okI [of _ ?p]) (simp_all add: unat_of_u32)
    then show ?thesis using Rgb32 slice by (auto simp: convert_frame_def Let_def)
  next
    case Rgb24
    have pitch: "?w * 3 \<le> raw_pitch raw" and data: "raw_pitch raw * ?h \<le> length (raw_data raw)"
      using ok(6,7) Rgb24 by simp_all
    have "argb_to_nv12 yuv (widened raw ?w ?h) (of_nat (?w * 4)) (nv_y dst) (nv_stride_y dst) (nv_uv dst)
        (nv_stride_uv dst) (sz_width sz) (if raw_bottom_up raw then - sz_height sz else sz_height sz) \<noteq> None"
      using length_widened [OF pitch data] assms(2)
      by (intro argb_converts [OF assms(1) _ dst pos] plane_okI [of _ "?w * 4"] unat_of_u32) simp_all
    then show ?thesis using Rgb24 widen_into_widened [OF pitch data pos(1)] by (auto simp: convert_frame_def Let_def)
  qed (use yuv_frame_copied [OF False _ assms(5,6), of yuv] False in \<open>auto simp: converter_write_def\<close>)
  then show ?thesis using False by (auto simp: converter_write_def)
qed

text \<open>
  C25. Converting never reads or writes past the end of a buffer, whatever the camera hands over: for any data, pitch,
  orientation and format the answer comes back without a panic; it is \<^verbatim>\<open>false\<close> exactly for the frames the checks
  refuse, and then the buffer and the converter are as they were.  (The buffer is one for this width, and sides below
  \<open>2 ^ 30\<close> keep the casts to 32 bits exact.)
\<close>

theorem write_never_panics:
  assumes "yuv_total yuv" and "unat (sz_width sz) < 2 ^ 30" and "unat (sz_height sz) < 2 ^ 30" and "raw_pitch raw < 2 ^ 32"
    and "sz_width sz \<le> nv_stride_y dst" and "sz_width sz \<le> nv_stride_uv dst"
  shows "\<exists>ok c' dst'. converter_write yuv c raw sz dst = Some (ok, c', dst')
    \<and> (ok \<longleftrightarrow> \<not> write_refuses c raw sz dst) \<and> (\<not> ok \<longrightarrow> c' = c \<and> dst' = dst)"
  using assms by (rule write_total)

lemma needed_le: "needed k pitch h \<le> pitch * unat h + pitch * div_ceil (unat h) 2"
proof (cases k)
  case I420
  have "2 * (pitch div 2) * div_ceil (unat h) 2 \<le> pitch * div_ceil (unat h) 2"
    by (intro mult_le_mono1) simp
  with I420 show ?thesis by simp
qed simp_all

lemma px_stride_le: "px_stride k w \<le> 4 * unat w"
proof (cases k)
  case Rgb24
  have "div_ceil (3 * n) 4 \<le> n" for n unfolding div_ceil_def by presburger
  from this [of "unat w"] Rgb24 show ?thesis by (simp add: mult.commute)
qed simp_all

text \<open>
  The sizes the code computes in \<^verbatim>\<open>usize\<close> do not wrap: not for a pitch that comes from a 32-bit stride, which is
  what Media Foundation states, with any height; and not for a whole DirectShow frame, whose sides are positive \<^verbatim>\<open>i32\<close>
  values.  So the checks of \<^verbatim>\<open>write\<close> compare true lengths.
\<close>

theorem needed_fits_usize:
  shows "pitch \<le> 2 ^ 31 \<Longrightarrow> needed k pitch h < 2 ^ 64"
    "unat (sz_width sz) < 2 ^ 31 \<Longrightarrow> unat (sz_height sz) < 2 ^ 31 \<Longrightarrow> frame_bytes k sz < 2 ^ 64"
proof -
  assume pitch: "pitch \<le> 2 ^ 31"
  have "unat h < 2 ^ 32" using unsigned_less [of h, where ?'a = nat] by simp
  then have h: "unat h \<le> 2 ^ 32 - 1" by simp
  then have "div_ceil (unat h) 2 \<le> 2 ^ 31" unfolding div_ceil_def by simp presburger
  then have "pitch * div_ceil (unat h) 2 \<le> 2 ^ 31 * 2 ^ 31" using pitch by (intro mult_le_mono)
  moreover have "pitch * unat h \<le> 2 ^ 31 * (2 ^ 32 - 1)" using pitch h by (intro mult_le_mono)
  ultimately show "needed k pitch h < 2 ^ 64" using needed_le [of k pitch h] by simp
next
  assume w: "unat (sz_width sz) < 2 ^ 31" and h: "unat (sz_height sz) < 2 ^ 31"
  define a b where "a = unat (sz_width sz)" and "b = unat (sz_height sz)"
  have ab: "a \<le> 2 ^ 31 - 1" "b \<le> 2 ^ 31 - 1" using w h by (simp_all add: a_def b_def)
  have half: "div_ceil b 2 \<le> 2 ^ 30" using ab(2) unfolding div_ceil_def by simp presburger
  have "frame_bytes k sz \<le> max (4 * a * b) (a * b + a * div_ceil b 2)"
  proof (cases "k = Nv12 \<or> k = I420")
    case True
    then have "px_stride k (sz_width sz) = a" by (auto simp: a_def)
    then show ?thesis using needed_le [of k a "sz_height sz"] by (simp add: frame_bytes_def b_def)
  next
    case False
    then have "frame_bytes k sz = px_stride k (sz_width sz) * b" by (cases k) (simp_all add: frame_bytes_def b_def)
    also have "\<dots> \<le> 4 * a * b" using px_stride_le [of k "sz_width sz"] by (simp add: a_def mult_le_mono1)
    finally show ?thesis by simp
  qed
  moreover have "4 * a * b \<le> 4 * (2 ^ 31 - 1) * (2 ^ 31 - 1)" using ab by (intro mult_le_mono) simp_all
  moreover have "a * b \<le> (2 ^ 31 - 1) * (2 ^ 31 - 1)" using ab by (intro mult_le_mono)
  moreover have "a * div_ceil b 2 \<le> (2 ^ 31 - 1) * 2 ^ 30" using ab half by (intro mult_le_mono)
  ultimately show "frame_bytes k sz < 2 ^ 64" by simp
qed

section \<open>Examples\<close>

text \<open>A 4x2 YUY2 frame, stored bottom-up with 4 bytes of padding per row, and a libyuv that only answers.\<close>

definition tiny :: dims where
  "tiny = \<lparr>sz_width = 4, sz_height = 2\<rparr>"

definition tiny_buffer :: nv12 where
  "tiny_buffer = \<lparr>nv_stride_y = 8, nv_stride_uv = 8, nv_y = replicate 16 0, nv_uv = replicate 8 0\<rparr>"

definition tiny_yuy2 :: raw where
  "tiny_yuy2 = \<lparr>raw_data = [20, 150, 21, 250, 22, 151, 23, 251, 0, 0, 0, 0, 10, 100, 11, 200, 12, 101, 13, 201, 0, 0, 0, 0],
     raw_pitch = 12, raw_bottom_up = True\<rparr>"

definition tiny_rgb24 :: raw where
  "tiny_rgb24 = \<lparr>raw_data = replicate 12 7 @ replicate 12 9, raw_pitch = 12, raw_bottom_up = True\<rparr>"

definition idle_yuv :: yuv where
  "idle_yuv = \<lparr>i420_to_nv12 = (\<lambda>a p b q c r y sy uv suv w h. Some (y, uv)),
     argb_to_nv12 = (\<lambda>src p y sy uv suv w h. Some (y, uv))\<rparr>"

lemmas tiny_defs = tiny_def tiny_buffer_def tiny_yuy2_def tiny_rgb24_def converter_new_def

lemma tiny_accepted:
  "\<not> write_refuses (converter_new Yuy2) tiny_yuy2 tiny tiny_buffer"
  "\<not> write_refuses (converter_new Rgb24) tiny_rgb24 tiny tiny_buffer"
  by (simp_all add: write_refuses_def Let_def tiny_defs can_be_bottom_up_def)

theorem write_copies_picture_witness:
  "\<exists>dst'. converter_write idle_yuv (converter_new Yuy2) tiny_yuy2 tiny tiny_buffer = Some (True, converter_new Yuy2, dst')
    \<and> nv_y dst' ! 0 = 10 \<and> nv_y dst' ! 11 = 23 \<and> nv_uv dst' ! 1 = 200"
proof -
  have "sz_width tiny \<le> nv_stride_y tiny_buffer" "sz_width tiny \<le> nv_stride_uv tiny_buffer"
    "cv_kind (converter_new Yuy2) \<in> {Nv12, Yuy2, Uyvy}"
    by (simp_all add: tiny_defs)
  with write_copies_picture [OF this(3), of tiny_yuy2 tiny tiny_buffer idle_yuv] tiny_accepted(1) obtain dst' where
    dst: "converter_write idle_yuv (converter_new Yuy2) tiny_yuy2 tiny tiny_buffer = Some (True, converter_new Yuy2, dst')"
    "shows_picture dst' tiny (source_luma Yuy2 tiny_yuy2 2) (source_chroma Yuy2 tiny_yuy2 2)"
    "outside_kept tiny_buffer dst' tiny"
    by (auto simp: converter_new_def tiny_def not_less [symmetric])
  have strides: "unat (nv_stride_y dst') = 8" "unat (nv_stride_uv dst') = 8"
    using dst(3) by (simp_all add: outside_kept_def tiny_buffer_def)
  have luma: "nv_y dst' ! (row * 8 + col) = source_luma Yuy2 tiny_yuy2 2 row col" if "row < 2" "col < 4" for row col
    using dst(2) that strides by (simp add: shows_picture_def tiny_def)
  have chroma: "nv_uv dst' ! col = source_chroma Yuy2 tiny_yuy2 2 0 col" if "col < 4" for col
    using dst(2) that strides by (simp add: shows_picture_def tiny_def)
  show ?thesis
    using dst(1) luma [of 0 0] luma [of 1 3] chroma [of 1]
    by (simp add: tiny_yuy2_def stored_row_def offsets_of_def)
qed

theorem rgb24_is_widened_rgb32_witness:
  "converter_write idle_yuv (converter_new Rgb24) tiny_rgb24 tiny tiny_buffer =
      map_option (\<lambda>(ok, _, dst'). (ok, (converter_new Rgb24)\<lparr>cv_scratch := raw_data (widened_raw tiny_rgb24 tiny)\<rparr>, dst'))
        (converter_write idle_yuv (converter_new Rgb32) (widened_raw tiny_rgb24 tiny) tiny tiny_buffer)
   \<and> raw_data (widened_raw tiny_rgb24 tiny) ! 18 = 9"
proof -
  have "cv_kind (converter_new Rgb24) = Rgb24" by (simp add: converter_new_def)
  note both = rgb24_is_widened_rgb32 [OF this tiny_accepted(2), of idle_yuv]
  from both show ?thesis
    using both [THEN conjunct2, rule_format, of 1 0 2]
    by (simp add: widened_raw_def) (simp add: tiny_defs nth_append)
qed

theorem write_never_panics_witness:
  "\<exists>ok c' dst'. converter_write idle_yuv (converter_new I420) tiny_rgb24 tiny tiny_buffer = Some (ok, c', dst') \<and> \<not> ok"
proof -
  have "yuv_total idle_yuv" by (simp add: yuv_total_def idle_yuv_def)
  from write_never_panics [OF this, of tiny tiny_rgb24 tiny_buffer "converter_new I420"]
  have "\<exists>ok c' dst'. converter_write idle_yuv (converter_new I420) tiny_rgb24 tiny tiny_buffer = Some (ok, c', dst')
      \<and> (ok \<longleftrightarrow> \<not> write_refuses (converter_new I420) tiny_rgb24 tiny tiny_buffer)"
    by (auto simp: tiny_defs)
  moreover have "write_refuses (converter_new I420) tiny_rgb24 tiny tiny_buffer"
    by (simp add: write_refuses_def Let_def tiny_defs can_be_bottom_up_def)
  ultimately show ?thesis by blast
qed

theorem needed_fits_usize_witness:
  "needed Nv12 (2 ^ 31) (- 1) < 2 ^ 64 \<and> frame_bytes Rgb32 \<lparr>sz_width = 2 ^ 31 - 2, sz_height = 2 ^ 31 - 2\<rparr> < 2 ^ 64"
  using needed_fits_usize(1) [of "2 ^ 31" Nv12 "- 1"]
    needed_fits_usize(2) [of "\<lparr>sz_width = 2 ^ 31 - 2, sz_height = 2 ^ 31 - 2\<rparr>" Rgb32]
  by simp

end
