(* ===== verification/Preview.thy ===== *)
theory Preview
  imports Camera_Convert Ldk_Text
begin

text \<open>
  \<^verbatim>\<open>desktop/src-tauri/src/preview.rs\<close>: the preview of one's own screen or camera and the thumbnails of the picker.  The
  control is the three atomics the commands set and the capture reads; the tap is its own clock and a channel of depth
  one to the encoding thread.  libwebrtc's buffers and the JPEG encoder are parameters; base64 is the code's own.
\<close>

section \<open>Constants and the control\<close>

definition GRID_MAX :: dims where "GRID_MAX = \<lparr>sz_width = 960, sz_height = 540\<rparr>"
definition FOCUS_MAX :: dims where "FOCUS_MAX = \<lparr>sz_width = 1600, sz_height = 900\<rparr>"
definition THUMBNAIL_MAX :: dims where "THUMBNAIL_MAX = \<lparr>sz_width = 320, sz_height = 180\<rparr>"
definition GRID_FPS :: u32 where "GRID_FPS = 6"
definition GRID_QUALITY :: nat where "GRID_QUALITY = 75"
definition THUMBNAIL_QUALITY :: nat where "THUMBNAIL_QUALITY = 72"
definition FOCUS_QUALITY :: nat where "FOCUS_QUALITY = 80"

record small_frame =
  sf_width :: u32
  sf_height :: u32
  sf_pixels :: bytes
  sf_quality :: nat

record control =
  ct_enabled :: bool
  ct_period_ms :: nat
  ct_max_width :: u32

definition period_ms :: "u32 \<Rightarrow> nat" where
  "period_ms fps = 1000 div min 30 (max 1 (unat fps))"

definition control_new :: control where
  "control_new = \<lparr>ct_enabled = True, ct_period_ms = period_ms GRID_FPS, ct_max_width = sz_width GRID_MAX\<rparr>"

definition control_set :: "bool \<Rightarrow> u32 \<Rightarrow> bool \<Rightarrow> control \<Rightarrow> control" where
  "control_set enabled fps focused c =
     c\<lparr>ct_enabled := enabled, ct_period_ms := period_ms fps,
       ct_max_width := sz_width (if focused then FOCUS_MAX else GRID_MAX)\<rparr>"

text \<open>A \<^verbatim>\<open>Duration\<close> in nanoseconds.\<close>

definition ct_period :: "control \<Rightarrow> int" where
  "ct_period c = int (ct_period_ms c) * 1000000"

definition ct_ceiling :: "control \<Rightarrow> dims" where
  "ct_ceiling c = \<lparr>sz_width = ct_max_width c, sz_height = ct_max_width c * 9 div 16\<rparr>"

definition ct_quality :: "control \<Rightarrow> nat" where
  "ct_quality c = (if ct_max_width c > sz_width GRID_MAX then FOCUS_QUALITY else GRID_QUALITY)"

section \<open>Pixels\<close>

text \<open>
  libwebrtc: a new NV12 buffer, the filtered scaler, libyuv (above) and its \<^verbatim>\<open>nv12_to_argb\<close>, which writes into a
  buffer given its stride.
\<close>

record media =
  md_yuv :: yuv
  new_buffer :: "u32 \<Rightarrow> u32 \<Rightarrow> nv12"
  scale_buffer :: "nv12 \<Rightarrow> i32 \<Rightarrow> i32 \<Rightarrow> nv12"
  nv12_to_argb :: "bytes \<Rightarrow> u32 \<Rightarrow> bytes \<Rightarrow> u32 \<Rightarrow> bytes \<Rightarrow> u32 \<Rightarrow> i32 \<Rightarrow> i32 \<Rightarrow> bytes option"

definition usize_checked_mul :: "nat \<Rightarrow> nat \<Rightarrow> nat option" where
  "usize_checked_mul a b = (if a * b < 2 ^ 64 then Some (a * b) else None)"

definition u32_checked_mul :: "u32 \<Rightarrow> u32 \<Rightarrow> u32 option" where
  "u32_checked_mul a b = (if unat a * unat b < 2 ^ 32 then Some (a * b) else None)"

text \<open>The outer option is a panic, the inner one the \<^verbatim>\<open>Option\<close> the code returns.\<close>

definition nv12_to_bgra :: "media \<Rightarrow> nv12 \<Rightarrow> dims \<Rightarrow> bytes option option" where
  "nv12_to_bgra md frame sz =
     (case Option.bind (usize_checked_mul (unat (sz_width sz)) (unat (sz_height sz)))
             (\<lambda>n. usize_checked_mul n 4) of
        None \<Rightarrow> Some None
      | Some n \<Rightarrow>
          map_option Some (nv12_to_argb md (nv_y frame) (nv_stride_y frame) (nv_uv frame) (nv_stride_uv frame)
            (replicate n 0) (sz_width sz * 4) (sz_width sz) (sz_height sz)))"

definition downscale :: "media \<Rightarrow> bytes \<Rightarrow> u32 \<Rightarrow> dims \<Rightarrow> dims \<Rightarrow> bytes option option" where
  "downscale md data stride source target =
     (if sz_width source = 0 \<or> sz_height source = 0 \<or> sz_width target = 0 \<or> sz_height target = 0 then Some None
      else case usize_checked_mul (unat stride) (unat (sz_height source)) of
        None \<Rightarrow> Some None
      | Some n \<Rightarrow>
          if length data < n then Some None
          else case u32_checked_mul (sz_width source) 4 of
            None \<Rightarrow> Some None
          | Some row \<Rightarrow>
              if stride < row then Some None
              else
                let full = new_buffer md (sz_width source) (sz_height source) in
                Option.bind (argb_to_nv12 (md_yuv md) data stride (nv_y full) (nv_stride_y full) (nv_uv full)
                    (nv_stride_uv full) (sz_width source) (sz_height source)) (\<lambda>planes.
                nv12_to_bgra md (scale_buffer md (put_planes full planes) (sz_width target) (sz_height target)) target))"

section \<open>The tap\<close>

text \<open>
  \<open>tp_queue\<close> is the channel of depth one, oldest first; \<open>tp_open\<close> says whether the encoding thread still
  receives.  \<^verbatim>\<open>try_send\<close> drops the frame when the channel is full or closed.
\<close>

record tap =
  tp_next :: instant
  tp_queue :: "small_frame list"
  tp_open :: bool

definition try_send :: "small_frame \<Rightarrow> tap \<Rightarrow> tap" where
  "try_send f t = (if tp_open t \<and> length (tp_queue t) < 1 then t\<lparr>tp_queue := tp_queue t @ [f]\<rparr> else t)"

definition tap_offer :: "media \<Rightarrow> control \<Rightarrow> instant \<Rightarrow> nv12 \<Rightarrow> dims \<Rightarrow> tap \<Rightarrow> tap option" where
  "tap_offer md c now frame source t =
     (if \<not> ct_enabled c then Some t
      else if now < tp_next t then Some t
      else
        let t1 = t\<lparr>tp_next := now + ct_period c\<rparr>;
            target = fit source (ct_ceiling c) in
        map_option (\<lambda>pixels. case pixels of
            None \<Rightarrow> t1
          | Some px \<Rightarrow> try_send \<lparr>sf_width = sz_width target, sf_height = sz_height target, sf_pixels = px,
                         sf_quality = ct_quality c\<rparr> t1)
          (nv12_to_bgra md (scale_buffer md frame (sz_width target) (sz_height target)) target))"

section \<open>Data URLs\<close>

definition ALPHABET :: string where
  "ALPHABET = ''ABCDEFGHIJKLMNOPQRSTUVWXYZabcdefghijklmnopqrstuvwxyz0123456789+/''"

definition b64_char :: "u32 \<Rightarrow> char" where
  "b64_char v = ALPHABET ! unat (v AND 63)"

definition byte_at :: "bytes \<Rightarrow> nat \<Rightarrow> u32" where
  "byte_at chunk i = (case index chunk i of None \<Rightarrow> 0 | Some b \<Rightarrow> ucast b)"

definition b64_chunk :: "bytes \<Rightarrow> string" where
  "b64_chunk chunk =
     (let triple = push_bit 16 (byte_at chunk 0) OR push_bit 8 (byte_at chunk 1) OR byte_at chunk 2 in
      [b64_char (drop_bit 18 triple), b64_char (drop_bit 12 triple),
       if length chunk > 1 then b64_char (drop_bit 6 triple) else CHR ''='',
       if length chunk > 2 then b64_char triple else CHR ''=''])"

definition base64_into :: "bytes \<Rightarrow> string \<Rightarrow> string" where
  "base64_into bytes out = out @ concat (map b64_chunk (chunks 3 bytes))"

text \<open>The JPEG encoder: quality, pixels, width, height.\<close>

type_synonym jpeg = "nat \<Rightarrow> bytes \<Rightarrow> nat \<Rightarrow> nat \<Rightarrow> bytes option"

definition encode_data_url :: "jpeg \<Rightarrow> small_frame \<Rightarrow> string option" where
  "encode_data_url jpeg f =
     (if unat (sf_width f) < 2 ^ 16 \<and> unat (sf_height f) < 2 ^ 16
      then map_option (\<lambda>data. base64_into data ''data:image/jpeg;base64,'')
             (jpeg (sf_quality f) (sf_pixels f) (unat (sf_width f)) (unat (sf_height f)))
      else None)"

text \<open>One turn of the encoding thread: take a frame, emit its data URL; \<open>None\<close> when the channel is empty.\<close>

definition preview_turn :: "jpeg \<Rightarrow> tap \<Rightarrow> (tap \<times> string option) option" where
  "preview_turn jpeg t =
     (case tp_queue t of
        [] \<Rightarrow> None
      | f # fs \<Rightarrow> Some (t\<lparr>tp_queue := fs\<rparr>, encode_data_url jpeg f))"

text \<open>\<^verbatim>\<open>start\<close>: \<open>spawned\<close> says whether the thread could be created.\<close>

definition preview_start :: "instant \<Rightarrow> bool \<Rightarrow> control \<times> tap" where
  "preview_start now spawned = (control_new, \<lparr>tp_next = now, tp_queue = [], tp_open = spawned\<rparr>)"

section \<open>Base64 decodes\<close>

text \<open>The reference: RFC 4648 decoding, four characters at a time, padding only at the end.\<close>

definition b64_value :: "char \<Rightarrow> nat option" where
  "b64_value c = map_of (zip ALPHABET [0..<64]) c"

fun b64_decode :: "string \<Rightarrow> nat list option" where
  "b64_decode [] = Some []"
| "b64_decode (a # b # c # d # rest) =
     Option.bind (b64_value a) (\<lambda>va. Option.bind (b64_value b) (\<lambda>vb.
       if rest = [] \<and> c = CHR ''='' \<and> d = CHR ''='' then Some [va * 4 + vb div 16]
       else Option.bind (b64_value c) (\<lambda>vc.
         if rest = [] \<and> d = CHR ''='' then Some [va * 4 + vb div 16, vb mod 16 * 16 + vc div 4]
         else Option.bind (b64_value d) (\<lambda>vd.
           map_option (\<lambda>r. (va * 4 + vb div 16) # (vb mod 16 * 16 + vc div 4) # (vc mod 4 * 64 + vd) # r)
             (b64_decode rest)))))"
| "b64_decode _ = None"

lemma alphabet_facts: "length ALPHABET = 64" "distinct ALPHABET" "CHR ''='' \<notin> set ALPHABET"
  by (simp_all add: ALPHABET_def)

lemma unat_low_six: "unat ((v :: u32) AND 63) = unat v mod 64"
proof -
  have "v AND 63 = take_bit 6 v" by (simp add: take_bit_eq_mask mask_numeral)
  then have "unat (v AND 63) = take_bit 6 (unat v)" by (simp only: unsigned_take_bit_eq)
  then show ?thesis by (simp add: take_bit_eq_mod)
qed

lemma b64_value_char: "b64_value (b64_char v) = Some (unat v mod 64)"
proof -
  have "map_of (zip ALPHABET [0..<64]) (ALPHABET ! (unat v mod 64)) = Some ([0..<64] ! (unat v mod 64))"
    by (rule map_of_zip_nth) (simp_all add: alphabet_facts)
  then show ?thesis by (simp add: b64_value_def b64_char_def unat_low_six)
qed

lemma b64_char_alphabet: "b64_char v \<in> set ALPHABET" "b64_char v \<noteq> CHR ''=''"
proof -
  show "b64_char v \<in> set ALPHABET" by (simp add: b64_char_def unat_low_six alphabet_facts(1))
  then show "b64_char v \<noteq> CHR ''=''" using alphabet_facts(3) by metis
qed

lemma small_bit: "unat (x :: u32) < 256 \<Longrightarrow> bit x n \<Longrightarrow> n < 8"
proof (rule ccontr)
  assume x: "unat x < 256" and b: "bit x n" and "\<not> n < 8"
  have "unat x = take_bit 8 (unat x)" using x by (simp add: take_bit_eq_mod)
  then have "x = take_bit 8 x" by (intro unsigned_word_eqI [where ?'a = nat]) (simp only: unsigned_take_bit_eq)
  then show False using b \<open>\<not> n < 8\<close> by (metis bit_take_bit_iff)
qed

lemma triple_value:
  fixes x y z :: u32
  assumes "unat x < 256" and "unat y < 256" and "unat z < 256"
  shows "unat (push_bit 16 x OR push_bit 8 y OR z) = unat x * 65536 + unat y * 256 + unat z"
proof -
  have yz: "push_bit 8 y AND z = 0"
    by (rule bit_eqI) (use small_bit [OF assms(2)] small_bit [OF assms(3)] in \<open>fastforce simp: bit_simps\<close>)
  have "push_bit 16 x AND (push_bit 8 y OR z) = 0"
    by (rule bit_eqI) (use small_bit [OF assms(2)] small_bit [OF assms(3)] in \<open>fastforce simp: bit_simps\<close>)
  then have "push_bit 16 x OR push_bit 8 y OR z = push_bit 16 x + (push_bit 8 y + z)"
    using yz by (simp only: disjunctive_add_eq_or or.assoc)
  also have "\<dots> = of_nat (unat x * 65536 + unat y * 256 + unat z)"
    by (simp add: push_bit_eq_mult)
  finally have eq: "push_bit 16 x OR push_bit 8 y OR z = of_nat (unat x * 65536 + unat y * 256 + unat z)" .
  show ?thesis unfolding eq by (rule unat_of_u32) (use assms in simp)
qed

lemma unat_drop_div: "unat (drop_bit k (t :: u32)) = unat t div 2 ^ k"
  by (rule trans [OF unat_drop_bit_eq drop_bit_eq_div])

lemma div_exact: "m = q * k + r \<Longrightarrow> r < k \<Longrightarrow> m div k = (q :: nat)"
  by simp
lemma mod_exact: "m = q * k + r \<Longrightarrow> r < k \<Longrightarrow> m mod k = (r :: nat)"
  by simp

lemma base64_digits:
  fixes x y z :: nat
  assumes "x < 256" and "y < 256" and "z < 256"
  defines "n \<equiv> x * 65536 + y * 256 + z"
  shows "n div 262144 mod 64 = x div 4" "n div 4096 mod 64 = x mod 4 * 16 + y div 16"
    "n div 64 mod 64 = y mod 16 * 4 + z div 64" "n mod 64 = z mod 64"
proof -
  define a b c d e f where "a = x div 4" and "b = x mod 4" and "c = y div 16" and "d = y mod 16"
    and "e = z div 64" and "f = z mod 64"
  have eq: "x = 4 * a + b" "y = 16 * c + d" "z = 64 * e + f" by (simp_all add: a_def b_def c_def d_def e_def f_def)
  have lt: "a < 64" "b < 4" "c < 16" "d < 16" "e < 4" "f < 64"
    using assms(1-3) by (auto simp: a_def b_def c_def d_def e_def f_def)
  have n: "n = a * 262144 + (b * 65536 + c * 4096 + d * 256 + e * 64 + f)" unfolding n_def eq by simp
  have "n div 262144 = a" by (rule div_exact [OF n]) (use lt in linarith)
  moreover have "n div 4096 = a * 64 + (b * 16 + c)"
    by (rule div_exact [of _ _ _ "d * 256 + e * 64 + f"]) (simp add: n, use lt in linarith)
  moreover have "n div 64 = (a * 64 + b * 16 + c) * 64 + (d * 4 + e)"
    by (rule div_exact [of _ _ _ f]) (simp add: n, use lt in linarith)
  then have "n div 64 mod 64 = d * 4 + e" by (rule mod_exact) (use lt in linarith)
  moreover have "n mod 64 = f"
    by (rule mod_exact [of _ "(a * 64 + b * 16 + c) * 64 + (d * 4 + e)"]) (simp add: n, use lt in linarith)
  moreover have "b * 16 + c < 64" "d * 4 + e < 64" using lt by linarith+
  ultimately show "n div 262144 mod 64 = x div 4" "n div 4096 mod 64 = x mod 4 * 16 + y div 16"
    "n div 64 mod 64 = y mod 16 * 4 + z div 64" "n mod 64 = z mod 64"
    using lt unfolding a_def [symmetric] b_def [symmetric] c_def [symmetric] d_def [symmetric] e_def [symmetric] f_def [symmetric]
    by simp_all
qed
text \<open>One chunk decodes to its bytes.\<close>

lemma unat_u8: "unat (b :: u8) < 256"
  using unsigned_less [of b, where ?'a = nat] by simp

lemma byte_at_value: "unat (byte_at chunk i) = (if i < length chunk then unat (chunk ! i) else 0)"
proof -
  have "unat (ucast b :: u32) = unat b" for b :: u8
    using unat_u8 [of b] by (simp only: unsigned_ucast_eq take_bit_eq_mod) simp
  then show ?thesis by (simp add: byte_at_def index_def)
qed

lemma chunk_digits:
  defines "t \<equiv> \<lambda>chunk. push_bit 16 (byte_at chunk 0) OR push_bit 8 (byte_at chunk 1) OR byte_at chunk 2"
  shows "unat (drop_bit 18 (t chunk)) mod 64 = unat (byte_at chunk 0) div 4"
    "unat (drop_bit 12 (t chunk)) mod 64 = unat (byte_at chunk 0) mod 4 * 16 + unat (byte_at chunk 1) div 16"
    "unat (drop_bit 6 (t chunk)) mod 64 = unat (byte_at chunk 1) mod 16 * 4 + unat (byte_at chunk 2) div 64"
    "unat (t chunk) mod 64 = unat (byte_at chunk 2) mod 64"
proof -
  have lt: "unat (byte_at chunk i) < 256" for i by (simp add: byte_at_value unat_u8)
  note v = triple_value [OF lt [of 0] lt [of 1] lt [of 2]] and d = base64_digits [OF lt [of 0] lt [of 1] lt [of 2]]
  have powers: "(2 :: nat) ^ 18 = 262144" "(2 :: nat) ^ 12 = 4096" "(2 :: nat) ^ 6 = 64" by simp_all
  show "unat (drop_bit 18 (t chunk)) mod 64 = unat (byte_at chunk 0) div 4"
    unfolding t_def unat_drop_div v powers by (rule d(1))
  show "unat (drop_bit 12 (t chunk)) mod 64 = unat (byte_at chunk 0) mod 4 * 16 + unat (byte_at chunk 1) div 16"
    unfolding t_def unat_drop_div v powers by (rule d(2))
  show "unat (drop_bit 6 (t chunk)) mod 64 = unat (byte_at chunk 1) mod 16 * 4 + unat (byte_at chunk 2) div 64"
    unfolding t_def unat_drop_div v powers by (rule d(3))
  show "unat (t chunk) mod 64 = unat (byte_at chunk 2) mod 64"
    unfolding t_def v by (rule d(4))
qed

lemma chunks_simps:
  "chunks 3 [] = []" "chunks 3 [x] = [[x]]" "chunks 3 [x, y] = [[x, y]]"
  "chunks 3 (x # y # z # bs) = [x, y, z] # chunks 3 bs"
proof -
  show nil: "chunks 3 [] = []" using chunks.simps [of 3 "[]"] by simp
  show "chunks 3 [x] = [[x]]" "chunks 3 [x, y] = [[x, y]]"
    using chunks.simps [of 3 "[x]"] chunks.simps [of 3 "[x, y]"] nil by simp_all
  show "chunks 3 (x # y # z # bs) = [x, y, z] # chunks 3 bs"
    using chunks.simps [of 3 "x # y # z # bs"] by simp
qed

lemma b64_chunk_values:
  obtains a b c d where "b64_chunk chunk = [a, b, if length chunk > 1 then c else CHR ''='', if length chunk > 2 then d else CHR ''='']"
    "b64_value a = Some (unat (byte_at chunk 0) div 4)"
    "b64_value b = Some (unat (byte_at chunk 0) mod 4 * 16 + unat (byte_at chunk 1) div 16)"
    "b64_value c = Some (unat (byte_at chunk 1) mod 16 * 4 + unat (byte_at chunk 2) div 64)"
    "b64_value d = Some (unat (byte_at chunk 2) mod 64)" "c \<noteq> CHR ''=''" "d \<noteq> CHR ''=''"
proof -
  define t where "t = push_bit 16 (byte_at chunk 0) OR push_bit 8 (byte_at chunk 1) OR byte_at chunk 2"
  show thesis
  proof (rule that)
    show "b64_chunk chunk = [b64_char (drop_bit 18 t), b64_char (drop_bit 12 t),
        if length chunk > 1 then b64_char (drop_bit 6 t) else CHR ''='', if length chunk > 2 then b64_char t else CHR ''='']"
      unfolding b64_chunk_def Let_def t_def ..
  qed (simp_all only: b64_value_char b64_char_alphabet chunk_digits [of chunk, folded t_def] not_False_eq_True)
qed

lemma decode_step:
  "b64_decode (b64_chunk [x, y, z] @ rest) =
     map_option (\<lambda>r. unat x # unat y # unat z # r) (b64_decode rest)"
  "b64_decode (b64_chunk [x, y]) = Some [unat x, unat y]"
  "b64_decode (b64_chunk [x]) = Some [unat x]"
proof -
  have small: "unat b div 16 < 16" "unat b div 64 < 4" "unat b div 4 < 64" for b :: u8 using unat_u8 [of b] by auto
  show "b64_decode (b64_chunk [x, y, z] @ rest) =
     map_option (\<lambda>r. unat x # unat y # unat z # r) (b64_decode rest)"
    by (rule b64_chunk_values [of "[x, y, z]"]) (use small [of y] small [of z] in \<open>simp add: byte_at_value\<close>)
  show "b64_decode (b64_chunk [x, y]) = Some [unat x, unat y]"
    by (rule b64_chunk_values [of "[x, y]"]) (use small [of y] in \<open>simp add: byte_at_value\<close>)
  show "b64_decode (b64_chunk [x]) = Some [unat x]"
    by (rule b64_chunk_values [of "[x]"]) (simp add: byte_at_value)
qed

lemma b64_decode_chunks: "b64_decode (concat (map b64_chunk (chunks 3 bs))) = Some (map unat bs)"
proof (induction bs rule: length_induct)
  case (1 bs)
  consider "bs = []" | x where "bs = [x]" | x y where "bs = [x, y]" | x y z r where "bs = x # y # z # r"
    by (metis list.exhaust)
  then show ?case
  proof cases
    case 4
    with 1 have "b64_decode (concat (map b64_chunk (chunks 3 r))) = Some (map unat r)" by simp
    with 4 show ?thesis by (simp add: chunks_simps decode_step(1))
  qed (simp_all add: chunks_simps decode_step)
qed

lemma length_chunks_3: "length (chunks 3 bs) = div_ceil (length bs) 3"
proof (induction bs rule: length_induct)
  case (1 bs)
  consider "bs = []" | x where "bs = [x]" | x y where "bs = [x, y]" | x y z r where "bs = x # y # z # r"
    by (metis list.exhaust)
  then show ?case
  proof cases
    case 4
    with 1 have "length (chunks 3 r) = div_ceil (length r) 3" by simp
    with 4 show ?thesis by (simp add: chunks_simps div_ceil_def)
  qed (simp_all add: chunks_simps div_ceil_def)
qed

text \<open>
  C35. A data URL carries the encoder's bytes unchanged: what \<^verbatim>\<open>base64_into\<close> appends decodes, by RFC 4648 with the
  code's alphabet, which is the RFC's, to exactly the bytes it was given; it is as long as the code reserves, four characters for every three bytes begun; and
  every character is of the alphabet or padding.
\<close>

theorem base64_roundtrip:
  "\<exists>text. base64_into bs out = out @ text \<and> b64_decode text = Some (map unat bs)
     \<and> length text = div_ceil (length bs) 3 * 4 \<and> set text \<subseteq> insert (CHR ''='') (set ALPHABET)"
proof (intro exI conjI)
  show "base64_into bs out = out @ concat (map b64_chunk (chunks 3 bs))" by (simp add: base64_into_def)
  show "b64_decode (concat (map b64_chunk (chunks 3 bs))) = Some (map unat bs)" by (rule b64_decode_chunks)
  show "length (concat (map b64_chunk (chunks 3 bs))) = div_ceil (length bs) 3 * 4"
    by (subst concat_chunks_length [where n = 4]) (simp_all add: b64_chunk_def Let_def length_chunks_3)
  show "set (concat (map b64_chunk (chunks 3 bs))) \<subseteq> insert (CHR ''='') (set ALPHABET)"
    by (auto simp: b64_chunk_def Let_def b64_char_alphabet)
qed

section \<open>The preview stays cold\<close>

text \<open>
  A run of the preview: the commands set the control, the capture offers its frames at its own instants, the encoding
  thread takes a turn.  \<open>tap_run\<close> also lists the instants at which an offer was due, which are the ones that cost
  the capture thread a reduction.
\<close>

datatype tap_event =
    Set_Control bool u32 bool
  | Offer instant nv12 dims
  | Turn

fun tap_run :: "media \<Rightarrow> jpeg \<Rightarrow> tap_event list \<Rightarrow> control \<times> tap \<Rightarrow> (instant list \<times> control \<times> tap) option" where
  "tap_run md jpeg [] (c, t) = Some ([], c, t)"
| "tap_run md jpeg (Set_Control enabled fps focused # es) (c, t) =
     tap_run md jpeg es (control_set enabled fps focused c, t)"
| "tap_run md jpeg (Offer now frame source # es) (c, t) =
     Option.bind (tap_offer md c now frame source t) (\<lambda>t'.
       map_option (\<lambda>(due, s). (if ct_enabled c \<and> tp_next t \<le> now then now # due else due, s))
         (tap_run md jpeg es (c, t')))"
| "tap_run md jpeg (Turn # es) (c, t) =
     tap_run md jpeg es (c, case preview_turn jpeg t of None \<Rightarrow> t | Some (t', _) \<Rightarrow> t')"

lemma period_ms_ge: "33 \<le> period_ms fps"
proof -
  have "1000 div 30 \<le> 1000 div min 30 (max 1 (unat fps))" by (rule div_le_mono2) simp_all
  then show ?thesis by (simp add: period_ms_def)
qed

lemma tap_offer_next:
  assumes "tap_offer md c now frame source t = Some t'"
  shows "tp_next t' = (if ct_enabled c \<and> tp_next t \<le> now then now + ct_period c else tp_next t)"
    "length (tp_queue t) \<le> 1 \<Longrightarrow> length (tp_queue t') \<le> 1"
  using assms by (auto simp: tap_offer_def Let_def try_send_def split: if_splits option.splits)

lemma tap_run_spaced:
  assumes "tap_run md jpeg es (c, t) = Some (due, c', t')" and "33 \<le> ct_period_ms c" and "length (tp_queue t) \<le> 1"
  shows "successively (\<lambda>a b. a + 33000000 \<le> b) due \<and> (\<forall>a \<in> set due. tp_next t \<le> a) \<and> length (tp_queue t') \<le> 1"
  using assms
proof (induction es arbitrary: c t due)
  case Nil
  then show ?case by simp
next
  case (Cons e es)
  show ?case
  proof (cases e)
    case (Set_Control en fps foc)
    with Cons.prems Cons.IH [of "control_set en fps foc c" t due] show ?thesis
      by (simp add: control_set_def period_ms_ge)
  next
    case Turn
    with Cons.prems Cons.IH [of c "case preview_turn jpeg t of None \<Rightarrow> t | Some (t', _) \<Rightarrow> t'" due] show ?thesis
      by (auto simp: preview_turn_def split: list.splits)
  next
    case (Offer now frame source)
    with Cons.prems(1) obtain t1 due1 where t1: "tap_offer md c now frame source t = Some t1"
      and rest: "tap_run md jpeg es (c, t1) = Some (due1, c', t')"
      and due: "due = (if ct_enabled c \<and> tp_next t \<le> now then now # due1 else due1)"
      by (auto simp: bind_eq_Some_conv)
    note step = tap_offer_next [OF t1]
    have IH: "successively (\<lambda>a b. a + 33000000 \<le> b) due1" "\<forall>a \<in> set due1. tp_next t1 \<le> a" "length (tp_queue t') \<le> 1"
      using Cons.IH [OF rest Cons.prems(2)] step(2) [OF Cons.prems(3)] by blast+
    show ?thesis
    proof (cases "ct_enabled c \<and> tp_next t \<le> now")
      case True
      then have "now + 33000000 \<le> tp_next t1" using step(1) Cons.prems(2) by (simp add: ct_period_def)
      with True IH due show ?thesis by (cases due1) (auto intro: order_trans)
    next
      case False
      with IH due step(1) show ?thesis by simp
    qed
  qed
qed

text \<open>
  The preview never competes with the encoder: whatever rates the interface asks for, however often the
  capture offers a frame and however slow the encoding thread is, the capture thread reduces a frame at most every 33
  milliseconds, none before the start, and at most one reduced frame waits.
\<close>

theorem preview_stays_cold:
  assumes "tap_run md jpeg es (preview_start now spawned) = Some (due, c, t)"
  shows "successively (\<lambda>a b. a + 33000000 \<le> b) due" "\<forall>a \<in> set due. now \<le> a" "length (tp_queue t) \<le> 1"
proof -
  have "33 \<le> ct_period_ms control_new" by (simp add: control_new_def period_ms_ge)
  then show "successively (\<lambda>a b. a + 33000000 \<le> b) due" "\<forall>a \<in> set due. now \<le> a" "length (tp_queue t) \<le> 1"
    using tap_run_spaced [of md jpeg es control_new "\<lparr>tp_next = now, tp_queue = [], tp_open = spawned\<rparr>" due c t] assms
    by (simp_all add: preview_start_def)
qed

text \<open>Turned off, the branch stops at its origin: no frame is reduced and the tap is as it was.\<close>

lemma disabled_costs_nothing: "tap_offer md (control_set False fps focused c) now frame source t = Some t"
  by (simp add: tap_offer_def control_set_def)

definition blank_media :: media where
  "blank_media = \<lparr>md_yuv = idle_yuv, new_buffer = (\<lambda>w h. tiny_buffer), scale_buffer = (\<lambda>b w h. b),
     nv12_to_argb = (\<lambda>y sy uv suv out st w h. Some out)\<rparr>"

definition four_offers :: "tap_event list" where
  "four_offers = [Offer 0 tiny_buffer tiny, Offer 10000000 tiny_buffer tiny, Set_Control True 30 True, Turn,
     Offer 170000000 tiny_buffer tiny, Offer 180000000 tiny_buffer tiny]"

lemma fit_tiny: "fit tiny (ct_ceiling control_new) = tiny" "fit tiny (ct_ceiling (control_set True 30 True control_new)) = tiny"
proof -
  have "even_side 4 = 4" "even_side 2 = 2" by (simp_all add: even_side_def)
  then show "fit tiny (ct_ceiling control_new) = tiny" "fit tiny (ct_ceiling (control_set True 30 True control_new)) = tiny"
    by (subst fit_small_unchanged; simp add: tiny_def ct_ceiling_def control_new_def control_set_def GRID_MAX_def
      FOCUS_MAX_def)+
qed

lemma four_offers_run:
  "\<exists>c t. tap_run blank_media (\<lambda>q px w h. None) four_offers (preview_start 0 True) = Some ([0, 170000000], c, t)"
proof -
  have "nv12_to_bgra blank_media b tiny = Some (Some (replicate 32 0))" for b
    by (simp add: nv12_to_bgra_def usize_checked_mul_def tiny_def blank_media_def)
  moreover have "ct_period control_new = 166000000" "ct_period (control_set True 30 True control_new) = 33000000"
    "ct_enabled control_new" "ct_enabled (control_set True 30 True control_new)"
    by (simp_all add: ct_period_def control_new_def control_set_def period_ms_def GRID_FPS_def)
  ultimately show ?thesis
    by (simp add: four_offers_def preview_start_def tap_offer_def Let_def fit_tiny try_send_def preview_turn_def)
qed

theorem preview_stays_cold_witness:
  "\<exists>c t. tap_run blank_media (\<lambda>q px w h. None) four_offers (preview_start 0 True) = Some ([0, 170000000], c, t)
     \<and> length (tp_queue t) \<le> 1 \<and> successively (\<lambda>a b. a + 33000000 \<le> b) [0, 170000000 :: instant]"
  using four_offers_run preview_stays_cold [of blank_media "\<lambda>q px w h. None" four_offers 0 True] by blast

end
