(* ===== verification/Screen_Capture.thy ===== *)
theory Screen_Capture
  imports Preview
begin

text \<open>
  \<^verbatim>\<open>desktop/src-tauri/src/capture.rs\<close>: what can be shared, the capture thread with its clock, the conversion of a captured
  frame into what the encoder gets, and the one frame of a thumbnail.  The operating system's capturer is a parameter:
  what \<^verbatim>\<open>get_source_list\<close> answers for a kind (\<open>None\<close> when no capturer can be created) and the results its
  callback is called with while \<^verbatim>\<open>capture_frame\<close> runs.
\<close>

section \<open>Sources\<close>

datatype source_kind = ScreenKind | WindowKind

fun kind_label :: "source_kind \<Rightarrow> string" where
  "kind_label ScreenKind = ''tela''"
| "kind_label WindowKind = ''janela''"

record share_source =
  ss_id :: string
  ss_kind :: source_kind
  ss_title :: string

datatype capture_error = Unavailable string | SourceGone

type_synonym platform = "source_kind \<Rightarrow> (u64 \<times> string) list option"

definition show_u64 :: "u64 \<Rightarrow> string" where
  "show_u64 n = show_nat (unat n)"

definition screen_rows :: "(u64 \<times> string) list \<Rightarrow> share_source list" where
  "screen_rows srcs =
     map (\<lambda>(i, n, _). \<lparr>ss_id = show_u64 n, ss_kind = ScreenKind, ss_title = ''Tela '' @ show_nat (i + 1)\<rparr>)
       (List.enumerate 0 srcs)"

definition window_rows :: "u64 list \<Rightarrow> (u64 \<times> string) list \<Rightarrow> share_source list" where
  "window_rows own srcs =
     map (\<lambda>(n, title). \<lparr>ss_id = show_u64 n, ss_kind = WindowKind, ss_title = title\<rparr>)
       (filter (\<lambda>(n, title). \<not> (str_trim title = [] \<or> n \<in> set own)) srcs)"

definition list_sources :: "platform \<Rightarrow> u64 list \<Rightarrow> share_source list" where
  "list_sources os own =
     (case os ScreenKind of None \<Rightarrow> [] | Some srcs \<Rightarrow> screen_rows srcs)
     @ (case os WindowKind of None \<Rightarrow> [] | Some srcs \<Rightarrow> window_rows own srcs)"

text \<open>\<^verbatim>\<open>start\<close>, up to the thread it spawns: the probe that turns a vanished source into an error of the button.\<close>

definition capture_start :: "platform \<Rightarrow> bool \<Rightarrow> source_kind \<Rightarrow> u64 \<Rightarrow> capture_error + unit" where
  "capture_start os spawned kind sid =
     (case os kind of
        None \<Rightarrow> Inl (Unavailable (kind_label kind))
      | Some srcs \<Rightarrow>
          if sid \<notin> fst ` set srcs then Inl SourceGone
          else if spawned then Inr () else Inl (Unavailable ''thread''))"

text \<open>\<^verbatim>\<open>Duration::from_secs_f64(1.0 / fps)\<close> in nanoseconds.\<close>

definition capture_period :: "u32 \<Rightarrow> int" where
  "capture_period fps = round_half_even (f64 (1 / of_u32 (max fps 1)) * 10 ^ 9)"

section \<open>One frame\<close>

text \<open>A frame of the capturer: 32 bits per pixel.\<close>

record desktop_frame =
  df_width :: i32
  df_height :: i32
  df_stride :: u32
  df_data :: bytes

definition u32_saturating_mul :: "u32 \<Rightarrow> u32 \<Rightarrow> u32" where
  "u32_saturating_mul a b = (if unat a * unat b < 2 ^ 32 then a * b else - 1)"

definition usize_saturating_mul :: "nat \<Rightarrow> nat \<Rightarrow> nat" where
  "usize_saturating_mul a b = min (a * b) (2 ^ 64 - 1)"

definition u32_try_from :: "i32 \<Rightarrow> u32 option" where
  "u32_try_from v = (if sint v < 0 then None else Some v)"

record scratch =
  sc_max :: dims
  sc_buffer :: "(dims \<times> nv12) option"
  sc_delivered :: u64
  sc_produced :: u64
  sc_preview :: "tap option"

definition scratch_new :: "dims \<Rightarrow> tap option \<Rightarrow> scratch" where
  "scratch_new ceil preview =
     \<lparr>sc_max = ceil, sc_buffer = None, sc_delivered = 0, sc_produced = 0, sc_preview = preview\<rparr>"

text \<open>The size a frame is taken at, when the checks let it through.\<close>

definition captured_size :: "desktop_frame \<Rightarrow> dims option" where
  "captured_size frame =
     (case (u32_try_from (df_width frame), u32_try_from (df_height frame)) of
        (Some width, Some height) \<Rightarrow> Some \<lparr>sz_width = even_side width, sz_height = even_side height\<rparr>
      | _ \<Rightarrow> None)"

definition frame_usable :: "desktop_frame \<Rightarrow> dims \<Rightarrow> bool" where
  "frame_usable frame captured \<longleftrightarrow>
     \<not> (sz_width captured < 2 \<or> sz_height captured < 2)
     \<and> \<not> (df_stride frame < u32_saturating_mul (sz_width captured) 4
          \<or> length (df_data frame) < usize_saturating_mul (unat (df_stride frame)) (unat (sz_height captured)))"

definition conversion_buffer :: "media \<Rightarrow> dims \<Rightarrow> scratch \<Rightarrow> nv12" where
  "conversion_buffer md captured s =
     (case sc_buffer s of
        Some (d, b) \<Rightarrow> if d = captured then b else new_buffer md (sz_width captured) (sz_height captured)
      | None \<Rightarrow> new_buffer md (sz_width captured) (sz_height captured))"

text \<open>
  The end of \<^verbatim>\<open>push\<close>: scale the converted picture, offer it to the sink, count, and only then offer it to the
  preview.  \<open>accepts\<close> is the sink's answer to the frame offered to it; the result names that frame.  \<open>None\<close> is a
  panic.
\<close>

definition send_picture ::
  "media \<Rightarrow> control \<Rightarrow> instant \<Rightarrow> (nv12 \<Rightarrow> bool) \<Rightarrow> dims \<Rightarrow> nv12 \<Rightarrow> scratch \<Rightarrow> (nv12 option \<times> scratch) option" where
  "send_picture md c now accepts captured nv s =
     (let target = fit captured (sc_max s);
          out = scale_buffer md nv (sz_width target) (sz_height target);
          s' = s\<lparr>sc_buffer := Some (captured, nv), sc_produced := sc_produced s + 1,
                 sc_delivered := (if accepts out then sc_delivered s + 1 else sc_delivered s)\<rparr> in
      case sc_preview s of
        None \<Rightarrow> Some (Some out, s')
      | Some t \<Rightarrow> map_option (\<lambda>t'. (Some out, s'\<lparr>sc_preview := Some t'\<rparr>)) (tap_offer md c now nv captured t))"

text \<open>\<^verbatim>\<open>Scratch::push\<close>.\<close>

definition scratch_push ::
  "media \<Rightarrow> control \<Rightarrow> instant \<Rightarrow> (nv12 \<Rightarrow> bool) \<Rightarrow> desktop_frame \<Rightarrow> scratch \<Rightarrow> (nv12 option \<times> scratch) option" where
  "scratch_push md c now accepts frame s =
     (case captured_size frame of
        None \<Rightarrow> Some (None, s)
      | Some captured \<Rightarrow>
          if \<not> frame_usable frame captured then Some (None, s)
          else
            let buf = conversion_buffer md captured s in
            Option.bind (argb_to_nv12 (md_yuv md) (df_data frame) (df_stride frame) (nv_y buf) (nv_stride_y buf)
                (nv_uv buf) (nv_stride_uv buf) (sz_width captured) (sz_height captured)) (\<lambda>planes.
            send_picture md c now accepts captured (put_planes buf planes) s))"

section \<open>The capture thread\<close>

datatype frame_result = Frame desktop_frame | Temporary | Permanent

text \<open>
  A call of the callback: its result, with the preview's control and clock and the sink's answer at that moment.  A
  turn of the loop: the stop flag it reads, the calls during its \<^verbatim>\<open>capture_frame\<close>, the clock it reads afterwards.
\<close>

record callback_call =
  cb_result :: frame_result
  cb_control :: control
  cb_now :: instant
  cb_accepts :: "nv12 \<Rightarrow> bool"

record capture_turn =
  tn_stop :: bool
  tn_calls :: "callback_call list"
  tn_now :: instant

fun on_results :: "media \<Rightarrow> callback_call list \<Rightarrow> bool \<times> scratch \<Rightarrow> (bool \<times> scratch) option" where
  "on_results md [] (lost, s) = Some (lost, s)"
| "on_results md (cb # cbs) (lost, s) =
     (case cb_result cb of
        Frame f \<Rightarrow>
          Option.bind (scratch_push md (cb_control cb) (cb_now cb) (cb_accepts cb) f s) (\<lambda>(_, s').
            on_results md cbs (lost, s'))
      | Temporary \<Rightarrow> on_results md cbs (lost, s)
      | Permanent \<Rightarrow> on_results md cbs (True, s))"

datatype loop_end = Running | Stopped | Lost

text \<open>
  The loop over the turns given.  The first component lists when each finished turn lets the next one start, which is
  \<open>next\<close> after the branch that sleeps or starts counting again.
\<close>

fun capture_loop :: "media \<Rightarrow> int \<Rightarrow> capture_turn list \<Rightarrow> instant \<times> scratch \<Rightarrow> (instant list \<times> loop_end \<times> scratch) option" where
  "capture_loop md period [] (next, s) = Some ([], Running, s)"
| "capture_loop md period (t # ts) (next, s) =
     (if tn_stop t then Some ([], Stopped, s)
      else Option.bind (on_results md (tn_calls t) (False, s)) (\<lambda>(lost, s').
        if lost then Some ([], Lost, s')
        else
          let due = next + period;
              next' = (if due > tn_now t then due else tn_now t) in
          map_option (\<lambda>(starts, e, s''). (next' # starts, e, s'')) (capture_loop md period ts (next', s'))))"

text \<open>\<^verbatim>\<open>run\<close>; \<^verbatim>\<open>on_lost\<close> is called exactly when it ends in \<open>Lost\<close>.\<close>

definition capture_run :: "media \<Rightarrow> platform \<Rightarrow> source_kind \<Rightarrow> u64 \<Rightarrow> int \<Rightarrow> capture_turn list \<Rightarrow> instant \<Rightarrow> scratch
    \<Rightarrow> (instant list \<times> loop_end \<times> scratch) option" where
  "capture_run md os kind sid period ts now s =
     (case os kind of
        None \<Rightarrow> Some ([], Lost, s)
      | Some srcs \<Rightarrow>
          if find (\<lambda>(n, _). n = sid) srcs = None then Some ([], Lost, s)
          else capture_loop md period ts (now, s))"

section \<open>The thumbnail\<close>

definition thumbnail_call :: "media \<Rightarrow> dims \<Rightarrow> frame_result \<Rightarrow> small_frame option \<Rightarrow> small_frame option option" where
  "thumbnail_call md ceil r slot =
     (case r of
        Frame f \<Rightarrow> (case captured_size f of
            None \<Rightarrow> Some slot
          | Some captured \<Rightarrow>
              let target = fit captured ceil in
              map_option (\<lambda>px. case px of
                  None \<Rightarrow> slot
                | Some pixels \<Rightarrow> Some \<lparr>sf_width = sz_width target, sf_height = sz_height target, sf_pixels = pixels,
                    sf_quality = THUMBNAIL_QUALITY\<rparr>)
                (downscale md (df_data f) (df_stride f) captured target))
      | _ \<Rightarrow> Some slot)"

fun thumbnail_calls :: "media \<Rightarrow> dims \<Rightarrow> frame_result list \<Rightarrow> small_frame option \<Rightarrow> small_frame option option" where
  "thumbnail_calls md ceil [] slot = Some slot"
| "thumbnail_calls md ceil (r # rs) slot =
     Option.bind (thumbnail_call md ceil r slot) (thumbnail_calls md ceil rs)"

definition ATTEMPTS :: nat where "ATTEMPTS = 12"
definition WAIT_MS :: nat where "WAIT_MS = 25"

text \<open>The attempts: \<open>results i\<close> is what attempt \<open>i\<close> brings; also counts the captures and the sleeps.\<close>

fun thumbnail_loop :: "media \<Rightarrow> dims \<Rightarrow> nat \<Rightarrow> (nat \<Rightarrow> frame_result list) \<Rightarrow> small_frame option
    \<Rightarrow> (nat \<times> nat \<times> small_frame option) option" where
  "thumbnail_loop md ceil 0 results slot = Some (0, 0, slot)"
| "thumbnail_loop md ceil (Suc k) results slot =
     Option.bind (thumbnail_calls md ceil (results 0) slot) (\<lambda>slot'.
       if slot' \<noteq> None then Some (1, 0, slot')
       else map_option (\<lambda>(captures, sleeps, r). (Suc captures, Suc sleeps, r))
              (thumbnail_loop md ceil k (\<lambda>i. results (Suc i)) slot'))"

definition thumbnail :: "media \<Rightarrow> platform \<Rightarrow> source_kind \<Rightarrow> u64 \<Rightarrow> dims \<Rightarrow> (nat \<Rightarrow> frame_result list)
    \<Rightarrow> (nat \<times> nat \<times> small_frame option) option" where
  "thumbnail md os kind sid ceil results =
     (case os kind of
        None \<Rightarrow> Some (0, 0, None)
      | Some srcs \<Rightarrow>
          if find (\<lambda>(n, _). n = sid) srcs = None then Some (0, 0, None)
          else thumbnail_loop md ceil ATTEMPTS results None)"

section \<open>A frame never brings the thread down\<close>

text \<open>What the code relies on of libwebrtc: a buffer has room for its picture, and converting keeps it.\<close>

definition holds_picture :: "nv12 \<Rightarrow> u32 \<Rightarrow> u32 \<Rightarrow> bool" where
  "holds_picture b w h \<longleftrightarrow>
     plane_ok (nv_y b) (nv_stride_y b) (unat w) (unat h) \<and> plane_ok (nv_uv b) (nv_stride_uv b) (unat w) (unat h div 2)"

definition media_laws :: "media \<Rightarrow> bool" where
  "media_laws md \<longleftrightarrow>
     yuv_total (md_yuv md)
     \<and> (\<forall>w h. unat w < 2 ^ 31 \<longrightarrow> unat h < 2 ^ 31 \<longrightarrow> holds_picture (new_buffer md w h) w h)
     \<and> (\<forall>b w h. unat w < 2 ^ 31 \<longrightarrow> unat h < 2 ^ 31 \<longrightarrow> holds_picture (scale_buffer md b w h) w h)
     \<and> (\<forall>src p y sy uv suv w h y' uv'. argb_to_nv12 (md_yuv md) src p y sy uv suv w h = Some (y', uv')
          \<longrightarrow> length y' = length y \<and> length uv' = length uv)
     \<and> (\<forall>a p b q c r y sy uv suv w h y' uv'. i420_to_nv12 (md_yuv md) a p b q c r y sy uv suv w h = Some (y', uv')
          \<longrightarrow> length y' = length y \<and> length uv' = length uv)
     \<and> (\<forall>b out st w h. 0 < sint w \<longrightarrow> 0 < sint h \<longrightarrow> holds_picture b w h \<longrightarrow> plane_ok out st (4 * unat w) (unat h)
          \<longrightarrow> nv12_to_argb md (nv_y b) (nv_stride_y b) (nv_uv b) (nv_stride_uv b) out st w h \<noteq> None)"

lemma sint_nonneg_small: "0 \<le> sint (v :: i32) \<Longrightarrow> unat v < 2 ^ 31"
proof -
  assume s: "0 \<le> sint v"
  have "sint v < 2 ^ 31" using sint_less [of v] by simp
  then have "uint v = sint v" using s by (simp add: uint_sint take_bit_int_eq_self)
  then show ?thesis using \<open>sint v < 2 ^ 31\<close> by (simp add: unat_eq_nat_uint nat_less_iff)
qed

lemma bgra_converts:
  assumes "media_laws md" and "holds_picture b (sz_width sz) (sz_height sz)"
    and "0 < unat (sz_width sz)" and "0 < unat (sz_height sz)" and "unat (sz_width sz) < 2 ^ 30" and "unat (sz_height sz) < 2 ^ 31"
  shows "nv12_to_bgra md b sz \<noteq> None"
proof (cases "Option.bind (usize_checked_mul (unat (sz_width sz)) (unat (sz_height sz))) (\<lambda>n. usize_checked_mul n 4)")
  case None
  then show ?thesis by (simp add: nv12_to_bgra_def)
next
  case (Some n)
  then have n: "n = unat (sz_width sz) * unat (sz_height sz) * 4"
    by (auto simp: usize_checked_mul_def bind_eq_Some_conv split: if_splits)
  have "unat (sz_width sz * 4) = unat (sz_width sz) * 4"
    using assms(5) by (simp add: unat_word_ariths)
  then have "plane_ok (replicate n 0) (sz_width sz * 4) (4 * unat (sz_width sz)) (unat (sz_height sz))"
    by (simp add: plane_ok_def n ac_simps)
  moreover have "unat (sz_width sz) < 2 ^ 31" using assms(5) by simp
  then have "0 < sint (sz_width sz)" "0 < sint (sz_height sz)"
    using assms(3,4,6) sint_small(1) [of "sz_width sz"] sint_small(1) [of "sz_height sz"] by linarith+
  ultimately show ?thesis
    using assms(1,2) Some unfolding media_laws_def by (simp add: nv12_to_bgra_def)
qed

lemma fit_keeps_small:
  assumes "sz_width source \<noteq> 0" and "sz_height source \<noteq> 0" and "unat (sz_width source) < n" and "unat (sz_height source) < m"
    and "2 < n" and "2 < m"
  shows "0 < unat (sz_width (fit source ceil))" "unat (sz_width (fit source ceil)) < n"
    "0 < unat (sz_height (fit source ceil))" "unat (sz_height (fit source ceil)) < m"
proof -
  note w = fit_side_bounds [OF assms(1,2) assms(1) refl exact_scale_bounds(3) [OF assms(1,2)]]
  note h = fit_side_bounds [OF assms(1,2) assms(2) refl exact_scale_bounds(4) [OF assms(1,2)]]
  have fit: "sz_width (fit source ceil) = fit_side (sz_width source) (fit_scale source ceil)"
    "sz_height (fit source ceil) = fit_side (sz_height source) (fit_scale source ceil)"
    using assms by (simp_all add: fit_def Let_def)
  show "0 < unat (sz_width (fit source ceil))" "unat (sz_width (fit source ceil)) < n"
    "0 < unat (sz_height (fit source ceil))" "unat (sz_height (fit source ceil)) < m"
    unfolding fit using w(2) [of ceil] w(3) [of ceil] h(2) [of ceil] h(3) [of ceil] assms(3-6) by linarith+
qed

lemma scaled_bgra_converts:
  assumes "media_laws md" and "sz_width source \<noteq> 0" and "sz_height source \<noteq> 0"
    and "unat (sz_width source) < 2 ^ 30" and "unat (sz_height source) < 2 ^ 31"
  shows "nv12_to_bgra md (scale_buffer md b (sz_width (fit source ceil)) (sz_height (fit source ceil))) (fit source ceil) \<noteq> None"
proof (rule bgra_converts [OF assms(1)])
  note small = fit_keeps_small [OF assms(2-5), of ceil, simplified]
  show "0 < unat (sz_width (fit source ceil))" "0 < unat (sz_height (fit source ceil))"
    "unat (sz_width (fit source ceil)) < 2 ^ 30" "unat (sz_height (fit source ceil)) < 2 ^ 31"
    using small by simp_all
  then show "holds_picture (scale_buffer md b (sz_width (fit source ceil)) (sz_height (fit source ceil)))
      (sz_width (fit source ceil)) (sz_height (fit source ceil))"
    using assms(1) by (simp add: media_laws_def)
qed

lemma offer_converts:
  assumes "media_laws md" and "sz_width source \<noteq> 0" and "sz_height source \<noteq> 0"
    and "unat (sz_width source) < 2 ^ 30" and "unat (sz_height source) < 2 ^ 31"
  shows "tap_offer md c now b source t \<noteq> None"
  using scaled_bgra_converts [OF assms, of b "ct_ceiling c"] by (simp add: tap_offer_def Let_def)

definition scratch_ok :: "scratch \<Rightarrow> bool" where
  "scratch_ok s \<longleftrightarrow> (case sc_buffer s of None \<Rightarrow> True | Some (d, b) \<Rightarrow> holds_picture b (sz_width d) (sz_height d))"

lemma buffer_fits:
  assumes "media_laws md" and "scratch_ok s" and "unat (sz_width d) < 2 ^ 31" and "unat (sz_height d) < 2 ^ 31"
  shows "holds_picture (conversion_buffer md d s) (sz_width d) (sz_height d)"
  using assms by (auto simp: conversion_buffer_def scratch_ok_def media_laws_def split: option.splits prod.splits)

text \<open>A steady stream of frames of one size allocates nothing: the buffer of the first is the one of the next.\<close>

lemma buffer_reused: "sc_buffer s = Some (d, b) \<Longrightarrow> conversion_buffer md d s = b"
  by (simp add: conversion_buffer_def)

lemma captured_size_small:
  assumes "captured_size f = Some d"
  shows "unat (sz_width d) < 2 ^ 31" "unat (sz_height d) < 2 ^ 31"
    "unat (sz_width d) \<le> unat (df_width f)" "even (unat (sz_width d))" "even (unat (sz_height d))"
proof -
  have d: "d = \<lparr>sz_width = even_side (df_width f), sz_height = even_side (df_height f)\<rparr>"
    and s: "0 \<le> sint (df_width f)" "0 \<le> sint (df_height f)"
    using assms by (auto simp: captured_size_def u32_try_from_def split: if_splits)
  have "unat (even_side v) \<le> unat v" "even (unat (even_side v))" for v by (simp_all add: unat_even_side)
  then show "unat (sz_width d) < 2 ^ 31" "unat (sz_height d) < 2 ^ 31"
    "unat (sz_width d) \<le> unat (df_width f)" "even (unat (sz_width d))" "even (unat (sz_height d))"
    unfolding d using le_less_trans [OF _ sint_nonneg_small [OF s(1)]] le_less_trans [OF _ sint_nonneg_small [OF s(2)]]
    by simp_all
qed

lemma usable_plane:
  assumes "captured_size f = Some d" and "frame_usable f d" and "unat (df_width f) < 2 ^ 30"
  shows "plane_ok (df_data f) (df_stride f) (4 * unat (sz_width d)) (unat (sz_height d))"
    "2 \<le> unat (sz_width d)" "2 \<le> unat (sz_height d)" "unat (sz_width d) < 2 ^ 30"
proof -
  note small = captured_size_small [OF assms(1)]
  then show w: "unat (sz_width d) < 2 ^ 30" using assms(3) by linarith
  have "unat (sz_width d) * unat (4 :: u32) < 2 ^ 32" using w by simp
  moreover from this have "unat (sz_width d * 4) = unat (sz_width d) * 4" by (simp add: unat_word_ariths)
  ultimately have row: "4 * unat (sz_width d) \<le> unat (df_stride f)"
    using assms(2) by (simp add: frame_usable_def u32_saturating_mul_def word_le_nat_alt not_less)
  have "unat (df_stride f) < 2 ^ 32" using unsigned_less [of "df_stride f"] by simp
  then have "unat (df_stride f) * unat (sz_height d) < 2 ^ 32 * 2 ^ 31"
    using small(2) by (intro mult_strict_mono) simp_all
  then have data: "unat (df_stride f) * unat (sz_height d) \<le> length (df_data f)"
    using assms(2) by (simp add: frame_usable_def usize_saturating_mul_def)
  show "plane_ok (df_data f) (df_stride f) (4 * unat (sz_width d)) (unat (sz_height d))"
    using row data by (simp add: plane_ok_def)
  show "2 \<le> unat (sz_width d)" "2 \<le> unat (sz_height d)"
    using assms(2) by (simp_all add: frame_usable_def word_le_nat_alt not_less)
qed

definition one_if :: "bool \<Rightarrow> nat" where
  "one_if b = (if b then 1 else 0)"

definition taken :: "desktop_frame \<Rightarrow> bool" where
  "taken f \<longleftrightarrow> (case captured_size f of None \<Rightarrow> False | Some d \<Rightarrow> frame_usable f d)"

text \<open>What sending a picture does to the counters and the buffer.\<close>

lemma send_step:
  assumes "media_laws md" and "holds_picture nv (sz_width d) (sz_height d)"
    and "2 \<le> unat (sz_width d)" and "2 \<le> unat (sz_height d)" and "unat (sz_width d) < 2 ^ 30" and "unat (sz_height d) < 2 ^ 31"
  shows "\<exists>out s'. send_picture md c now accepts d nv s = Some (Some out, s') \<and> scratch_ok s' \<and> sc_max s' = sc_max s
    \<and> sc_produced s' = sc_produced s + 1 \<and> sc_delivered s' = sc_delivered s + of_nat (one_if (accepts out))
    \<and> holds_picture out (sz_width (fit d (sc_max s))) (sz_height (fit d (sc_max s)))"
proof -
  have pos: "sz_width d \<noteq> 0" "sz_height d \<noteq> 0" using assms(3,4) by auto
  have w31: "unat (sz_width d) < 2 ^ 31" using assms(5) by simp
  have fit_small: "unat (sz_width (fit d (sc_max s))) < 2 ^ 31" "unat (sz_height (fit d (sc_max s))) < 2 ^ 31"
    using fit_keeps_small [OF pos w31 assms(6)] by simp_all
  define out where "out = scale_buffer md nv (sz_width (fit d (sc_max s))) (sz_height (fit d (sc_max s)))"
  have out: "holds_picture out (sz_width (fit d (sc_max s))) (sz_height (fit d (sc_max s)))"
    unfolding out_def using assms(1) fit_small by (simp add: media_laws_def)
  have "\<exists>pr. send_picture md c now accepts d nv s = Some (Some out, s\<lparr>sc_buffer := Some (d, nv),
      sc_produced := sc_produced s + 1,
      sc_delivered := (if accepts out then sc_delivered s + 1 else sc_delivered s), sc_preview := pr\<rparr>)"
  proof (cases "sc_preview s")
    case None
    then show ?thesis
      by (intro exI [of _ None]) (simp add: send_picture_def out_def [symmetric] Let_def)
  next
    case (Some t)
    from offer_converts [OF assms(1) pos assms(5,6), of c now nv t] obtain t' where "tap_offer md c now nv d t = Some t'" by blast
    then show ?thesis
      using Some by (intro exI [of _ "Some t'"]) (simp add: send_picture_def out_def [symmetric] Let_def)
  qed
  then obtain pr where "send_picture md c now accepts d nv s = Some (Some out, s\<lparr>sc_buffer := Some (d, nv),
      sc_produced := sc_produced s + 1,
      sc_delivered := (if accepts out then sc_delivered s + 1 else sc_delivered s), sc_preview := pr\<rparr>)" ..
  then show ?thesis
    using assms(2) out by (intro exI [of _ out]) (simp add: scratch_ok_def one_if_def)
qed

lemma push_step:
  assumes "media_laws md" and "scratch_ok s" and "unat (df_width f) < 2 ^ 30"
  shows "\<exists>out s'. scratch_push md c now accepts f s = Some (out, s') \<and> scratch_ok s' \<and> sc_max s' = sc_max s
    \<and> sc_produced s' = sc_produced s + of_nat (one_if (taken f))
    \<and> sc_delivered s' = sc_delivered s + of_nat (one_if (\<exists>b. out = Some b \<and> accepts b))
    \<and> (out \<noteq> None \<longleftrightarrow> taken f) \<and> (\<not> taken f \<longrightarrow> s' = s)"
proof (cases "taken f")
  case False
  then show ?thesis
    using assms(2) by (auto simp: scratch_push_def taken_def one_if_def split: option.splits)
next
  case True
  then obtain d where d: "captured_size f = Some d" "frame_usable f d"
    by (auto simp: taken_def split: option.splits)
  note src = usable_plane [OF d assms(3)] and small = captured_size_small [OF d(1)]
  define b where "b = conversion_buffer md d s"
  have fits: "holds_picture b (sz_width d) (sz_height d)"
    unfolding b_def using buffer_fits [OF assms(1,2) small(1,2)] .
  have "argb_to_nv12 (md_yuv md) (df_data f) (df_stride f) (nv_y b) (nv_stride_y b) (nv_uv b) (nv_stride_uv b)
      (sz_width d) (if False then - sz_height d else sz_height d) \<noteq> None"
    using fits src small assms(1)
    by (intro argb_converts) (auto simp: holds_picture_def media_laws_def)
  then obtain y uv where conv: "argb_to_nv12 (md_yuv md) (df_data f) (df_stride f) (nv_y b) (nv_stride_y b) (nv_uv b)
      (nv_stride_uv b) (sz_width d) (sz_height d) = Some (y, uv)"
    by auto
  then have "length y = length (nv_y b)" "length uv = length (nv_uv b)"
    using assms(1) by (auto simp: media_laws_def)
  then have "holds_picture (put_planes b (y, uv)) (sz_width d) (sz_height d)"
    using fits by (simp add: holds_picture_def put_planes_def plane_ok_def)
  from send_step [OF assms(1) this src(2,3,4) small(2), of c now accepts s]
  obtain out s' where "send_picture md c now accepts d (put_planes b (y, uv)) s = Some (Some out, s')"
    and "scratch_ok s'" "sc_max s' = sc_max s" "sc_produced s' = sc_produced s + 1"
    and "sc_delivered s' = sc_delivered s + of_nat (one_if (accepts out))"
    by blast
  then show ?thesis
    using True d conv by (intro exI [of _ "Some out"]) (simp add: scratch_push_def b_def [symmetric] one_if_def)
qed

text \<open>A run of the callback over the frames given, with what the sink was offered.\<close>

fun push_all :: "media \<Rightarrow> (control \<times> instant \<times> (nv12 \<Rightarrow> bool) \<times> desktop_frame) list \<Rightarrow> scratch
    \<Rightarrow> (nv12 option list \<times> scratch) option" where
  "push_all md [] s = Some ([], s)"
| "push_all md ((c, now, accepts, f) # es) s =
     Option.bind (scratch_push md c now accepts f s) (\<lambda>(out, s').
       map_option (\<lambda>(outs, s''). (out # outs, s'')) (push_all md es s'))"

fun encoder_took :: "(control \<times> instant \<times> (nv12 \<Rightarrow> bool) \<times> desktop_frame) list \<Rightarrow> nv12 option list \<Rightarrow> nat" where
  "encoder_took ((c, now, accepts, f) # es) (out # outs) =
     one_if (case out of None \<Rightarrow> False | Some b \<Rightarrow> accepts b) + encoder_took es outs"
| "encoder_took _ _ = 0"

lemma push_all_counts:
  assumes "media_laws md" and "scratch_ok s" and "\<forall>(c, now, accepts, f) \<in> set es. unat (df_width f) < 2 ^ 30"
  shows "\<exists>outs s'. push_all md es s = Some (outs, s') \<and> scratch_ok s'
    \<and> sc_produced s' = sc_produced s + of_nat (length (filter (\<lambda>(_, _, _, f). taken f) es))
    \<and> sc_delivered s' = sc_delivered s + of_nat (encoder_took es outs)
    \<and> encoder_took es outs \<le> length (filter (\<lambda>(_, _, _, f). taken f) es)"
  using assms(2,3)
proof (induction es arbitrary: s)
  case Nil
  then show ?case by simp
next
  case (Cons e es)
  obtain c now accepts f where e: "e = (c, now, accepts, f)" by (cases e)
  obtain out s1 where s1: "scratch_push md c now accepts f s = Some (out, s1)" "scratch_ok s1"
    "sc_produced s1 = sc_produced s + of_nat (one_if (taken f))"
    "sc_delivered s1 = sc_delivered s + of_nat (one_if (\<exists>b. out = Some b \<and> accepts b))" "out \<noteq> None \<longleftrightarrow> taken f"
    using push_step [OF assms(1) Cons.prems(1), of f c now accepts] Cons.prems(2) e by auto
  obtain outs s' where rest: "push_all md es s1 = Some (outs, s')" "scratch_ok s'"
    "sc_produced s' = sc_produced s1 + of_nat (length (filter (\<lambda>(_, _, _, f). taken f) es))"
    "sc_delivered s' = sc_delivered s1 + of_nat (encoder_took es outs)"
    "encoder_took es outs \<le> length (filter (\<lambda>(_, _, _, f). taken f) es)"
    using Cons.IH [OF s1(2)] Cons.prems(2) by auto
  have "(\<exists>b. out = Some b \<and> accepts b) = (case out of None \<Rightarrow> False | Some b \<Rightarrow> accepts b)"
    by (auto split: option.splits)
  with s1 rest e show ?case
    by (auto simp: one_if_def split: option.splits)
qed

text \<open>
  C26. Whatever the capturer hands over, no frame brings the capture down: negative or odd sizes, a stride too short,
  too few bytes are frames skipped without a trace.  The two counters are exactly the frames converted and, of those,
  the frames the encoder accepted, so \<^verbatim>\<open>encoded_frames\<close> never exceeds \<^verbatim>\<open>captured_frames\<close>.
\<close>

theorem capture_counters_exact:
  assumes "media_laws md" and "\<forall>(c, now, accepts, f) \<in> set es. unat (df_width f) < 2 ^ 30" and "length es < 2 ^ 64"
  shows "\<exists>outs s. push_all md es (scratch_new ceil preview) = Some (outs, s)
    \<and> unat (sc_produced s) = length (filter (\<lambda>(_, _, _, f). taken f) es)
    \<and> unat (sc_delivered s) = encoder_took es outs \<and> sc_delivered s \<le> sc_produced s"
proof -
  have "scratch_ok (scratch_new ceil preview)" by (simp add: scratch_ok_def scratch_new_def)
  from push_all_counts [OF assms(1) this assms(2)] obtain outs s where
    run: "push_all md es (scratch_new ceil preview) = Some (outs, s)"
    "sc_produced s = of_nat (length (filter (\<lambda>(_, _, _, f). taken f) es))" "sc_delivered s = of_nat (encoder_took es outs)"
    "encoder_took es outs \<le> length (filter (\<lambda>(_, _, _, f). taken f) es)"
    by (auto simp: scratch_new_def)
  have "length (filter (\<lambda>(_, _, _, f). taken f) es) < 2 ^ 64"
    using assms(3) length_filter_le le_less_trans by blast
  then have "unat (sc_produced s) = length (filter (\<lambda>(_, _, _, f). taken f) es)" "unat (sc_delivered s) = encoder_took es outs"
    using run(2-4) by (simp_all add: unat_of_nat)
  then show ?thesis using run(1,4) by (auto simp: word_le_nat_alt)
qed

section \<open>The clock of the loop\<close>

lemma next_start:
  "(if start + period > now then start + period else now) = max (start + period) (now :: instant)"
  by (simp add: max_def)

text \<open>
  The frame rate is chosen, never exceeded: whatever a capture costs, and however late the thread wakes up, the
  starts of the loop's turns are due at least a period apart, and a turn that fell behind is not made up for (it starts
  at once, and the next is due a full period later).  So up to \<open>k\<close> turns after any turn at least \<open>k\<close> periods have
  passed.
\<close>

theorem capture_rate_bounded:
  assumes "capture_loop md period ts (start, s) = Some (starts, e, s')" and "0 \<le> period"
  shows "successively (\<lambda>a b. a + period \<le> b) (start # starts)"
    "\<forall>i < length starts. starts ! i = max ((start # starts) ! i + period) (tn_now (ts ! i))"
    "i \<le> j \<Longrightarrow> j < length (start # starts) \<Longrightarrow> (start # starts) ! i + int (j - i) * period \<le> (start # starts) ! j"
proof -
  have "successively (\<lambda>a b. a + period \<le> b) (start # starts)
      \<and> (\<forall>i < length starts. starts ! i = max ((start # starts) ! i + period) (tn_now (ts ! i)))"
    using assms(1)
  proof (induction ts arbitrary: start s starts)
    case Nil
    then show ?case by simp
  next
    case (Cons t ts)
    show ?case
    proof (cases starts)
      case Nil
      then show ?thesis by simp
    next
      case (Cons n ns)
      with Cons.prems obtain s1 where "n = max (start + period) (tn_now t)"
        and "capture_loop md period ts (n, s1) = Some (ns, e, s')"
        by (auto simp: bind_eq_Some_conv next_start Let_def split: if_splits)
      with Cons.IH [of n s1 ns] Cons show ?thesis
        by (auto simp: less_Suc_eq_0_disj)
    qed
  qed
  then show spaced: "successively (\<lambda>a b. a + period \<le> b) (start # starts)"
    and "\<forall>i < length starts. starts ! i = max ((start # starts) ! i + period) (tn_now (ts ! i))"
    by blast+
  show "(start # starts) ! i + int (j - i) * period \<le> (start # starts) ! j"
    if "i \<le> j" and "j < length (start # starts)"
    using that
  proof (induction j rule: dec_induct)
    case base
    then show ?case by simp
  next
    case (step j)
    then have "(start # starts) ! j + period \<le> (start # starts) ! Suc j"
      using spaced by (simp add: successively_conv_nth del: nth_Cons_Suc)
    then show ?case using step by (simp add: Suc_diff_le algebra_simps del: nth_Cons_Suc)
  qed
qed

section \<open>Stopping\<close>

text \<open>A turn in which the loop ends: the flag is set, or a call of the callback reports that the source is gone.\<close>

definition ends :: "capture_turn \<Rightarrow> bool" where
  "ends t \<longleftrightarrow> tn_stop t \<or> (\<exists>cb \<in> set (tn_calls t). cb_result cb = Permanent)"

definition turn_small :: "capture_turn \<Rightarrow> bool" where
  "turn_small t \<longleftrightarrow> (\<forall>cb \<in> set (tn_calls t). \<forall>f. cb_result cb = Frame f \<longrightarrow> unat (df_width f) < 2 ^ 30)"

lemma on_results_lost:
  assumes "media_laws md" and "scratch_ok s" and "\<forall>cb \<in> set cbs. \<forall>f. cb_result cb = Frame f \<longrightarrow> unat (df_width f) < 2 ^ 30"
  shows "\<exists>s'. on_results md cbs (lost, s) = Some (lost \<or> (\<exists>cb \<in> set cbs. cb_result cb = Permanent), s') \<and> scratch_ok s'"
  using assms(2,3)
proof (induction cbs arbitrary: lost s)
  case Nil
  then show ?case by simp
next
  case (Cons cb cbs)
  show ?case
  proof (cases "cb_result cb")
    case (Frame f)
    then obtain out s1 where "scratch_push md (cb_control cb) (cb_now cb) (cb_accepts cb) f s = Some (out, s1)" "scratch_ok s1"
      using push_step [OF assms(1) Cons.prems(1), of f "cb_control cb" "cb_now cb" "cb_accepts cb"] Cons.prems(2) by auto
    with Cons.IH [of s1 lost] Cons.prems(2) Frame show ?thesis by auto
  qed (use Cons.IH [of s True] Cons.IH [of s lost] Cons.prems in auto)
qed

lemma capture_stops_aux:
  assumes "media_laws md" and "scratch_ok s" and "\<forall>t \<in> set ts. turn_small t" and "i < length ts" and "ends (ts ! i)"
    and "\<forall>j < i. \<not> ends (ts ! j)"
  shows "\<exists>starts s'. capture_loop md period ts (start, s) = Some (starts, if tn_stop (ts ! i) then Stopped else Lost, s')
    \<and> length starts = i"
  using assms(2-)
proof (induction ts arbitrary: start s i)
  case Nil
  then show ?case by simp
next
  case (Cons t ts)
  obtain s1 where s1: "on_results md (tn_calls t) (False, s) = Some (\<exists>cb \<in> set (tn_calls t). cb_result cb = Permanent, s1)"
    "scratch_ok s1"
    using on_results_lost [OF assms(1) Cons.prems(1), of "tn_calls t" False] Cons.prems(2) by (auto simp: turn_small_def)
  show ?case
  proof (cases i)
    case 0
    with Cons.prems(4) s1 show ?thesis by (auto simp: ends_def)
  next
    case (Suc k)
    then have "\<not> ends t" using Cons.prems(5) by force
    moreover obtain starts s' where "capture_loop md period ts (max (start + period) (tn_now t), s1)
        = Some (starts, if tn_stop (ts ! k) then Stopped else Lost, s')" "length starts = k"
      using Cons.IH [OF s1(2) _ _ _ _, of k "max (start + period) (tn_now t)"] Cons.prems Suc by (auto simp: All_less_Suc2)
    ultimately show ?thesis using s1 Suc by (simp add: ends_def next_start Let_def)
  qed
qed

lemma find_source: "sid \<in> fst ` set srcs \<Longrightarrow> \<not> find (\<lambda>(n, _). n = sid) srcs = None"
  by (auto simp: find_None_iff)

text \<open>
  C27. The loop ends: in the first turn in which the stop flag is set or the source is gone for good, after exactly the
  turns before it, and it reports a lost source exactly when nobody asked it to stop.  (A frame that cannot be captured
  for a moment ends nothing.)
\<close>

theorem capture_loop_ends:
  assumes "media_laws md" and "\<forall>t \<in> set ts. turn_small t" and "i < length ts" and "ends (ts ! i)" and "\<forall>j < i. \<not> ends (ts ! j)"
    and "os kind = Some srcs" and "sid \<in> fst ` set srcs"
  shows "\<exists>starts s. capture_run md os kind sid period ts now (scratch_new ceil preview)
      = Some (starts, if tn_stop (ts ! i) then Stopped else Lost, s) \<and> length starts = i"
proof -
  have "scratch_ok (scratch_new ceil preview)" by (simp add: scratch_ok_def scratch_new_def)
  from capture_stops_aux [OF assms(1) this assms(2-5), of period now]
  show ?thesis
    using find_source [OF assms(7)] assms(6) by (cases "find (\<lambda>(n, _). n = sid) srcs") (auto simp: capture_run_def)
qed

section \<open>The thumbnail ends\<close>

lemma downscale_converts:
  assumes "media_laws md" and "captured_size f = Some d" and "unat (df_width f) < 2 ^ 30"
  shows "downscale md (df_data f) (df_stride f) d (fit d ceil) \<noteq> None"
proof (cases "sz_width d = 0 \<or> sz_height d = 0")
  case True
  then show ?thesis by (auto simp: downscale_def)
next
  case False
  then have pos: "sz_width d \<noteq> 0" "sz_height d \<noteq> 0" by simp_all
  note small = captured_size_small [OF assms(2)]
  then have w: "unat (sz_width d) < 2 ^ 30" using assms(3) by linarith
  have row: "unat (sz_width d * 4) = unat (sz_width d) * 4" using w by (simp add: unat_word_ariths)
  define b where "b = new_buffer md (sz_width d) (sz_height d)"
  have b: "holds_picture b (sz_width d) (sz_height d)"
    using assms(1) small(1,2) by (simp add: b_def media_laws_def)
  have "argb_to_nv12 (md_yuv md) (df_data f) (df_stride f) (nv_y b) (nv_stride_y b) (nv_uv b) (nv_stride_uv b)
      (sz_width d) (if False then - sz_height d else sz_height d) \<noteq> None"
    if "unat (df_stride f) * unat (sz_height d) \<le> length (df_data f)" and "sz_width d * 4 \<le> df_stride f"
    using that b small(1,2) pos assms(1) row
    by (intro argb_converts) (auto simp: holds_picture_def media_laws_def plane_ok_def word_le_nat_alt unat_gt_0)
  then show ?thesis
    using pos scaled_bgra_converts [OF assms(1) pos w small(2)]
    by (auto simp: downscale_def usize_checked_mul_def u32_checked_mul_def Let_def b_def not_less split: option.splits)
qed

definition results_small :: "frame_result list \<Rightarrow> bool" where
  "results_small rs \<longleftrightarrow> (\<forall>f. Frame f \<in> set rs \<longrightarrow> unat (df_width f) < 2 ^ 30)"

lemma thumbnail_calls_total:
  assumes "media_laws md" and "results_small rs"
  shows "thumbnail_calls md ceil rs slot \<noteq> None"
  using assms(2)
proof (induction rs arbitrary: slot)
  case Nil
  then show ?case by simp
next
  case (Cons r rs)
  have "thumbnail_call md ceil r slot \<noteq> None"
  proof (cases r)
    case (Frame f)
    then have "unat (df_width f) < 2 ^ 30" using Cons.prems by (simp add: results_small_def)
    then show ?thesis
      using downscale_converts [OF assms(1)] Frame by (auto simp: thumbnail_call_def Let_def split: option.splits)
  qed (simp_all add: thumbnail_call_def)
  moreover have "results_small rs" using Cons.prems by (simp add: results_small_def)
  ultimately show ?case using Cons.IH by (auto simp: bind_eq_None_conv)
qed

lemma thumbnail_loop_ends:
  assumes "media_laws md" and "\<forall>i. results_small (results i)"
  shows "\<exists>captures sleeps r. thumbnail_loop md ceil k results slot = Some (captures, sleeps, r) \<and> captures \<le> k
    \<and> sleeps = captures - one_if (captures > 0 \<and> r \<noteq> None)
    \<and> (\<forall>i < captures - 1. thumbnail_calls md ceil (results i) slot = Some None \<or> slot \<noteq> None)
    \<and> (slot = None \<longrightarrow> r = None \<longrightarrow> captures = k)
    \<and> (slot = None \<longrightarrow> r \<noteq> None \<longrightarrow> 0 < captures \<and> thumbnail_calls md ceil (results (captures - 1)) None = Some r)"
  using assms(2)
proof (induction k arbitrary: results slot)
  case 0
  then show ?case by (simp add: one_if_def)
next
  case (Suc k)
  obtain s1 where s1: "thumbnail_calls md ceil (results 0) slot = Some s1"
    using thumbnail_calls_total [OF assms(1), of "results 0"] Suc.prems by blast
  show ?case
  proof (cases "s1 = None")
    case False
    with s1 show ?thesis by (auto simp: one_if_def)
  next
    case True
    obtain captures sleeps r where IH: "thumbnail_loop md ceil k (\<lambda>i. results (Suc i)) None = Some (captures, sleeps, r)"
      "captures \<le> k" "sleeps = captures - one_if (captures > 0 \<and> r \<noteq> None)"
      "\<forall>i < captures - 1. thumbnail_calls md ceil (results (Suc i)) None = Some None"
      "r = None \<longrightarrow> captures = k"
      "r \<noteq> None \<longrightarrow> 0 < captures \<and> thumbnail_calls md ceil (results (Suc (captures - 1))) None = Some r"
      using Suc.IH [of "\<lambda>i. results (Suc i)" None] Suc.prems by auto
    have "thumbnail_calls md ceil (results i) slot = Some None \<or> slot \<noteq> None" if "i < captures" for i
      using IH(4) s1 True that by (cases i) auto
    with IH s1 True show ?thesis by (auto simp: one_if_def)
  qed
qed

text \<open>
  C28. Asking for a thumbnail always comes back: at most 12 captures and 12 waits of 25 milliseconds, whatever the
  source does.  It gives the last picture of the first attempt that brought one, without waiting after it, and nothing
  only when all 12 attempts brought none.
\<close>

theorem thumbnail_always_ends:
  assumes "media_laws md" and "\<forall>i. results_small (results i)" and "os kind = Some srcs" and "sid \<in> fst ` set srcs"
  shows "\<exists>captures sleeps r. thumbnail md os kind sid ceil results = Some (captures, sleeps, r)
    \<and> captures \<le> 12 \<and> sleeps * WAIT_MS \<le> 300
    \<and> (\<forall>i < captures - 1. thumbnail_calls md ceil (results i) None = Some None)
    \<and> (case r of None \<Rightarrow> captures = 12
       | Some _ \<Rightarrow> 0 < captures \<and> sleeps = captures - 1 \<and> thumbnail_calls md ceil (results (captures - 1)) None = Some r)"
proof -
  obtain captures sleeps r where loop: "thumbnail_loop md ceil 12 results None = Some (captures, sleeps, r)" "captures \<le> 12"
    "sleeps = captures - one_if (captures > 0 \<and> r \<noteq> None)"
    "\<forall>i < captures - 1. thumbnail_calls md ceil (results i) None = Some None"
    "r = None \<longrightarrow> captures = 12"
    "r \<noteq> None \<longrightarrow> 0 < captures \<and> thumbnail_calls md ceil (results (captures - 1)) None = Some r"
    using thumbnail_loop_ends [OF assms(1,2), of ceil 12 None] by auto
  then have "sleeps * WAIT_MS \<le> 300" by (simp add: WAIT_MS_def)
  with loop show ?thesis
    using find_source [OF assms(4)] assms(3)
    by (cases r) (simp_all add: thumbnail_def ATTEMPTS_def one_if_def)
qed

section \<open>The picker\<close>

definition parse_source_id :: "string \<Rightarrow> u64 option" where
  "parse_source_id s = map_option word_of_int (parse_int 0 (2 ^ 64 - 1) s)"

lemma parse_show_source_id: "parse_source_id (show_u64 n) = Some n"
proof -
  have "uint n < 2 ^ 64" using uint_lt2p [of n] by simp
  then have "uint n \<le> 2 ^ 64 - 1" by linarith
  then have "parse_int 0 (2 ^ 64 - 1) (show_int (uint n)) = Some (uint n)"
    by (intro parse_show_int) simp_all
  moreover have "show_int (uint n) = show_u64 n" by (simp add: show_int_def show_u64_def)
  ultimately show ?thesis by (simp add: parse_source_id_def)
qed

text \<open>
  The picker and the share agree: exactly the screens, and the windows with a visible title that are not ours, are
  offered, screens first; and the id of every row reads back as the id of a source of that kind, so sharing it starts
  (as long as the source is still there and a thread can be created).
\<close>

theorem listed_source_starts:
  assumes "r \<in> set (list_sources os own)"
  shows "\<exists>n. parse_source_id (ss_id r) = Some n \<and> capture_start os True (ss_kind r) n = Inr ()
    \<and> (ss_kind r = WindowKind \<longrightarrow> n \<notin> set own \<and> str_trim (ss_title r) \<noteq> [])"
proof -
  consider (screen) srcs where "os ScreenKind = Some srcs" "r \<in> set (screen_rows srcs)"
    | (window) srcs where "os WindowKind = Some srcs" "r \<in> set (window_rows own srcs)"
    using assms by (cases "os ScreenKind"; cases "os WindowKind") (auto simp: list_sources_def)
  then show ?thesis
  proof cases
    case screen
    then obtain i n title where "(i, n, title) \<in> set (List.enumerate 0 srcs)" and r: "ss_id r = show_u64 n" "ss_kind r = ScreenKind"
      by (auto simp: screen_rows_def)
    then have "(n, title) \<in> set srcs" by (auto simp: in_set_enumerate_eq) (metis nth_mem)
    then show ?thesis using screen(1) r by (force simp: parse_show_source_id capture_start_def)
  next
    case window
    then obtain n title where "(n, title) \<in> set srcs" and r: "ss_id r = show_u64 n" "ss_kind r = WindowKind" "ss_title r = title"
      and "str_trim title \<noteq> []" "n \<notin> set own"
      by (auto simp: window_rows_def)
    then show ?thesis using window(1) by (force simp: parse_show_source_id capture_start_def)
  qed
qed

section \<open>Examples\<close>

text \<open>A libwebrtc that only makes room, and four frames of which the first and the last are taken.\<close>

definition plain_buffer :: "u32 \<Rightarrow> u32 \<Rightarrow> nv12" where
  "plain_buffer w h = \<lparr>nv_stride_y = w, nv_stride_uv = w, nv_y = replicate (unat w * unat h) 0,
     nv_uv = replicate (unat w * (unat h div 2)) 0\<rparr>"

definition plain_media :: media where
  "plain_media = \<lparr>md_yuv = idle_yuv, new_buffer = plain_buffer, scale_buffer = (\<lambda>b. plain_buffer),
     nv12_to_argb = (\<lambda>y sy uv suv out st w h. Some out)\<rparr>"

lemma plain_media_laws: "media_laws plain_media"
  by (simp add: media_laws_def plain_media_def holds_picture_def plain_buffer_def plane_ok_def yuv_total_def idle_yuv_def)

definition small_screen :: desktop_frame where
  "small_screen = \<lparr>df_width = 5, df_height = 3, df_stride = 20, df_data = replicate 60 0\<rparr>"

definition four_frames :: "(control \<times> instant \<times> (nv12 \<Rightarrow> bool) \<times> desktop_frame) list" where
  "four_frames = [(control_new, 0, \<lambda>b. False, small_screen), (control_new, 1, \<lambda>b. True, small_screen\<lparr>df_stride := 12\<rparr>),
     (control_new, 2, \<lambda>b. True, small_screen\<lparr>df_width := - 5\<rparr>), (control_new, 3, \<lambda>b. True, small_screen)]"

lemma small_screen_taken: "taken small_screen" "\<not> taken (small_screen\<lparr>df_stride := 12\<rparr>)" "\<not> taken (small_screen\<lparr>df_width := - 5\<rparr>)"
proof -
  have "sint (5 :: i32) = 5" "sint (3 :: i32) = 3" "sint (- 5 :: i32) = - 5" by simp_all
  then show "taken small_screen" "\<not> taken (small_screen\<lparr>df_stride := 12\<rparr>)" "\<not> taken (small_screen\<lparr>df_width := - 5\<rparr>)"
    by (simp_all add: taken_def small_screen_def captured_size_def u32_try_from_def frame_usable_def even_side_def
      u32_saturating_mul_def usize_saturating_mul_def)
qed

theorem capture_counters_exact_witness:
  "\<exists>outs s. push_all plain_media [hd four_frames, four_frames ! 1, last four_frames] (scratch_new tiny None) = Some (outs, s)
    \<and> unat (sc_produced s) = 2 \<and> sc_delivered s \<le> sc_produced s"
proof -
  have "\<exists>outs s. push_all plain_media [hd four_frames, four_frames ! 1, last four_frames] (scratch_new tiny None) = Some (outs, s)
    \<and> unat (sc_produced s) = length (filter (\<lambda>(_, _, _, f). taken f) [hd four_frames, four_frames ! 1, last four_frames])
    \<and> unat (sc_delivered s) = encoder_took [hd four_frames, four_frames ! 1, last four_frames] outs
    \<and> sc_delivered s \<le> sc_produced s"
    by (rule capture_counters_exact [OF plain_media_laws]) (simp_all add: four_frames_def small_screen_def)
  then show ?thesis by (auto simp: four_frames_def small_screen_taken)
qed

definition three_turns :: "capture_turn list" where
  "three_turns = [\<lparr>tn_stop = False, tn_calls = [\<lparr>cb_result = Temporary, cb_control = control_new, cb_now = 0,
       cb_accepts = (\<lambda>b. True)\<rparr>], tn_now = 50\<rparr>,
     \<lparr>tn_stop = False, tn_calls = [], tn_now = 250\<rparr>, \<lparr>tn_stop = True, tn_calls = [], tn_now = 270\<rparr>]"

lemma three_turns_run:
  "capture_loop plain_media 100 three_turns (0, scratch_new tiny None) = Some ([100, 250], Stopped, scratch_new tiny None)"
  by (simp add: three_turns_def)

theorem capture_rate_bounded_witness:
  "successively (\<lambda>a b. a + 100 \<le> b) [0, 100, 250 :: instant] \<and> (0 :: instant) + 2 * 100 \<le> 250"
  using capture_rate_bounded(1) [OF three_turns_run] capture_rate_bounded(3) [OF three_turns_run, of 0 2] by simp

theorem capture_loop_ends_witness:
  "\<exists>starts s. capture_run plain_media (\<lambda>k. Some [(7, [])]) ScreenKind 7 100 three_turns 0 (scratch_new tiny None)
     = Some (starts, Stopped, s) \<and> length starts = 2"
  using capture_loop_ends [OF plain_media_laws, of three_turns 2 "\<lambda>k. Some [(7, [])]" ScreenKind "[(7, [])]" 7 100 0 tiny None]
  by (simp add: three_turns_def turn_small_def ends_def numeral_2_eq_2 less_Suc_eq_0_disj)

theorem thumbnail_always_ends_witness:
  "\<exists>captures sleeps r. thumbnail plain_media (\<lambda>k. Some [(7, [])]) WindowKind 7 THUMBNAIL_MAX (\<lambda>i. [Temporary])
     = Some (captures, sleeps, r) \<and> captures \<le> 12"
proof -
  have "\<forall>i :: nat. results_small [Temporary]" by (simp add: results_small_def)
  from thumbnail_always_ends [OF plain_media_laws this, of "\<lambda>k. Some [(7, [])]" WindowKind "[(7, [])]" 7]
  show ?thesis by simp blast
qed

definition one_desktop :: platform where
  "one_desktop k = (case k of ScreenKind \<Rightarrow> Some [(65537, [])] | WindowKind \<Rightarrow> Some [(11, ''jogo''), (12, ''ldktela'')])"

theorem listed_source_starts_witness:
  "\<exists>n. parse_source_id (show_u64 11) = Some n \<and> capture_start one_desktop True WindowKind n = Inr ()"
proof -
  have "33 \<le> char_code c \<and> char_code c < 128" if "c \<in> set ''jogo''" for c
    using that by (auto simp: char_code_def)
  then have "str_trim ''jogo'' = ''jogo''"
    using str_trim_padding [of "[]" "[]" "''jogo''"] by simp
  then have "\<lparr>ss_id = show_u64 11, ss_kind = WindowKind, ss_title = ''jogo''\<rparr> \<in> set (list_sources one_desktop [12])"
    by (simp add: list_sources_def one_desktop_def window_rows_def)
  from listed_source_starts [OF this] show ?thesis by auto
qed

end
