(* ===== verification/Camera_Formats.thy ===== *)
theory Camera_Formats
  imports Screen_Capture "HOL-Library.Product_Lexorder"
begin

text \<open>
  \<^verbatim>\<open>desktop/src-tauri/src/camera/mod.rs\<close> without its \<^verbatim>\<open>start\<close>: the errors of a camera, the list the picker shows,
  the choice of a format, and the frames' way from either Windows path to the encoder.  The order in which Media
  Foundation tries the formats (\<^verbatim>\<open>camera/mf.rs\<close>, \<^verbatim>\<open>ranked\<close>) and the rate a DirectShow capability can deliver
  (\<^verbatim>\<open>camera/dshow.rs\<close>, \<^verbatim>\<open>achievable_fps\<close>) are here too, since they are the same kind of choice.
\<close>

section \<open>Devices\<close>

record camera_device =
  cd_id :: string
  cd_name :: string

record ds_device =
  dd_moniker :: string
  dd_name :: string
  dd_path :: "string option"

datatype camera_error =
    Gone
  | WillNotOpen i32
  | Busy
  | NotAllowed
  | NoUsableFormat
  | OnlyCompressed
  | Platform_Error string
  | BothRefused string string

definition worth_another_path :: "camera_error \<Rightarrow> bool" where
  "worth_another_path e \<longleftrightarrow> \<not> (e = Busy \<or> e = NotAllowed)"

text \<open>What is before the last \<open>c\<close>, if there is one: \<^verbatim>\<open>&path[..path.rfind(c)?]\<close>.\<close>

definition before_last :: "char \<Rightarrow> string \<Rightarrow> string option" where
  "before_last c s = (if c \<in> set s then Some (rev (drop 1 (dropWhile (\<lambda>d. d \<noteq> c) (rev s)))) else None)"

definition PNP_PREFIX :: string where "PNP_PREFIX = ''@device:pnp:''"

definition is_directshow :: "string \<Rightarrow> bool" where
  "is_directshow i \<longleftrightarrow> strip_prefix ''@device:'' i \<noteq> None"

definition device_key :: "string \<Rightarrow> string option" where
  "device_key raw =
     (let lower = to_ascii_lowercase raw;
          path = (case strip_prefix PNP_PREFIX lower of None \<Rightarrow> lower | Some p \<Rightarrow> p) in
      Option.bind (before_last (CHR ''#'') path) (\<lambda>key. if CHR ''#'' \<in> set key then Some key else None))"

definition already_listed :: "camera_device list \<Rightarrow> ds_device \<Rightarrow> bool" where
  "already_listed native d \<longleftrightarrow>
     (case Option.bind (dd_path d) device_key of
        None \<Rightarrow> False
      | Some k \<Rightarrow> k \<in> set (List.map_filter (\<lambda>n. device_key (cd_id n)) native))
     \<or> dd_name d \<in> set (map cd_name native)"

definition list_cameras :: "camera_device list \<Rightarrow> ds_device list \<Rightarrow> camera_device list" where
  "list_cameras native others =
     native @ map (\<lambda>d. \<lparr>cd_id = dd_moniker d, cd_name = dd_name d\<rparr>) (filter (\<lambda>d. \<not> already_listed native d) others)"

section \<open>Formats\<close>

record vformat =
  vf_size :: dims
  vf_fps :: u32

text \<open>\<^verbatim>\<open>Iterator::min_by_key\<close>: the first of the least.\<close>

fun min_by_key :: "('a \<Rightarrow> 'k :: linorder) \<Rightarrow> 'a list \<Rightarrow> 'a option" where
  "min_by_key key [] = None"
| "min_by_key key (x # xs) =
     (case min_by_key key xs of None \<Rightarrow> Some x | Some y \<Rightarrow> if key x \<le> key y then Some x else Some y)"

definition fits_ceiling :: "dims \<Rightarrow> vformat \<Rightarrow> bool" where
  "fits_ceiling ceil f \<longleftrightarrow> sz_width (vf_size f) \<le> sz_width ceil \<and> sz_height (vf_size f) \<le> sz_height ceil"

text \<open>A product of two \<^verbatim>\<open>u32\<close> values in a \<^verbatim>\<open>u64\<close>, which holds it.\<close>

definition area :: "vformat \<Rightarrow> nat" where
  "area f = unat (sz_width (vf_size f)) * unat (sz_height (vf_size f))"

definition rate_key :: "u32 \<Rightarrow> vformat \<Rightarrow> nat \<times> nat" where
  "rate_key fps f = (if fps \<le> vf_fps f then (0, unat (vf_fps f) - unat fps) else (1, unat fps - unat (vf_fps f)))"

definition choose_format :: "vformat list \<Rightarrow> dims \<Rightarrow> u32 \<Rightarrow> vformat option" where
  "choose_format offered ceil fps =
     (let pool = filter (fits_ceiling ceil) offered in
      if pool = [] then min_by_key area offered
      else
        let best_area = Max (set (map area pool)) in
        min_by_key (rate_key fps) (filter (\<lambda>f. area f = best_area) pool))"

section \<open>The order Media Foundation tries them in\<close>

record native_format =
  na_index :: u32
  na_format :: vformat
  na_pixels :: "pixels option"

definition MAX_ATTEMPTS :: nat where "MAX_ATTEMPTS = 6"

fun position :: "'a \<Rightarrow> 'a list \<Rightarrow> nat option" where
  "position x [] = None"
| "position x (y # ys) = (if y = x then Some 0 else map_option Suc (position x ys))"

definition native_cost :: "native_format \<Rightarrow> nat" where
  "native_cost n =
     (case na_pixels n of
        Some px \<Rightarrow> (case position px PREFERENCE of None \<Rightarrow> length PREFERENCE | Some i \<Rightarrow> i)
      | None \<Rightarrow> length PREFERENCE + 1)"

definition best_of :: "dims \<Rightarrow> u32 \<Rightarrow> native_format list \<Rightarrow> native_format list" where
  "best_of ceil fps pool =
     (case choose_format (map na_format pool) ceil fps of
        None \<Rightarrow> []
      | Some best \<Rightarrow>
          sort_key native_cost
            (filter (\<lambda>n. vf_size (na_format n) = vf_size best \<and> vf_fps (na_format n) = vf_fps best) pool))"

definition push_new :: "native_format \<Rightarrow> native_format list \<Rightarrow> native_format list" where
  "push_new n order = (if na_index n \<in> set (map na_index order) then order else order @ [n])"

definition uncompressed :: "native_format list \<Rightarrow> native_format list" where
  "uncompressed natives = filter (\<lambda>n. na_pixels n \<noteq> None) natives"

definition ranked :: "native_format list \<Rightarrow> dims \<Rightarrow> u32 \<Rightarrow> native_format list" where
  "ranked natives ceil fps =
     take MAX_ATTEMPTS (fold push_new (best_of ceil fps (uncompressed natives)) (best_of ceil fps natives))"

section \<open>The rate DirectShow can deliver\<close>

text \<open>The shortest and the longest interval of a capability, in units of 100 ns.\<close>

record stream_caps =
  sc_min_interval :: i64
  sc_max_interval :: i64

definition interval_rate :: "i64 \<Rightarrow> u32" where
  "interval_rate interval = (if 0 < sint interval then word_of_int (10000000 div sint interval) else 0)"

definition achievable_fps :: "stream_caps \<Rightarrow> u32 \<Rightarrow> u32" where
  "achievable_fps caps wanted =
     (let fastest = interval_rate (sc_min_interval caps); slowest = interval_rate (sc_max_interval caps) in
      if fastest = 0 \<or> slowest = 0 \<or> slowest > fastest then wanted
      else max slowest (min fastest wanted))"

section \<open>Frames\<close>

text \<open>
  \<^verbatim>\<open>Frames\<close> has the fields of \<^verbatim>\<open>capture::Scratch\<close>, and its \<^verbatim>\<open>deliver\<close> the end of \<^verbatim>\<open>Scratch::push\<close>.  \<open>write\<close>
  fills the buffer it is given, and may change a state of its own (the converter); \<open>None\<close> is a panic.
\<close>

type_synonym frames = scratch

definition deliver ::
  "media \<Rightarrow> control \<Rightarrow> instant \<Rightarrow> (nv12 \<Rightarrow> bool) \<Rightarrow> dims \<Rightarrow> ('c \<Rightarrow> nv12 \<Rightarrow> (bool \<times> 'c \<times> nv12) option) \<Rightarrow> 'c \<Rightarrow> frames
    \<Rightarrow> (nv12 option \<times> 'c \<times> frames) option" where
  "deliver md c now accepts sz write conv s =
     (if sz_width sz < 2 \<or> sz_height sz < 2 then Some (None, conv, s)
      else Option.bind (write conv (conversion_buffer md sz s)) (\<lambda>(ok, conv', nv).
        if \<not> ok then Some (None, conv', s\<lparr>sc_buffer := Some (sz, nv)\<rparr>)
        else map_option (\<lambda>(out, s'). (out, conv', s')) (send_picture md c now accepts sz nv s)))"

section \<open>The best format is chosen\<close>

lemma min_by_key_None [simp]: "min_by_key key xs = None \<longleftrightarrow> xs = []"
  by (cases xs) (auto split: option.splits)

lemma min_by_key_Some: "min_by_key key xs = Some y \<Longrightarrow> y \<in> set xs \<and> (\<forall>x \<in> set xs. key y \<le> key x)"
proof (induction xs arbitrary: y)
  case (Cons x xs)
  then show ?case by (cases "min_by_key key xs") (auto split: if_splits intro: order_trans)
qed simp

lemma rate_key_le:
  "rate_key fps f \<le> rate_key fps g \<longleftrightarrow>
     (if fps \<le> vf_fps f then fps \<le> vf_fps g \<longrightarrow> vf_fps f \<le> vf_fps g else vf_fps g < fps \<and> vf_fps g \<le> vf_fps f)"
  by (auto simp: rate_key_def less_eq_prod_def word_le_nat_alt word_less_nat_alt)

lemma choose_format_facts:
  "offered = [] \<longleftrightarrow> choose_format offered ceil fps = None"
  "choose_format offered ceil fps = Some f \<Longrightarrow> f \<in> set offered
     \<and> (if \<exists>g \<in> set offered. fits_ceiling ceil g
        then fits_ceiling ceil f \<and> (\<forall>g \<in> set offered. fits_ceiling ceil g \<longrightarrow> area g \<le> area f
          \<and> (area g = area f \<longrightarrow> (if fps \<le> vf_fps f then fps \<le> vf_fps g \<longrightarrow> vf_fps f \<le> vf_fps g
               else vf_fps g < fps \<and> vf_fps g \<le> vf_fps f)))
        else \<forall>g \<in> set offered. area f \<le> area g)"
proof -
  define pool where "pool = filter (fits_ceiling ceil) offered"
  define best where "best = Max (set (map area pool))"
  have best: "pool \<noteq> [] \<Longrightarrow> \<exists>g \<in> set pool. area g = best" "g \<in> set pool \<Longrightarrow> area g \<le> best" for g
  proof -
    assume "pool \<noteq> []"
    then have "best \<in> area ` set pool" unfolding best_def by (metis Max_in List.finite_set set_empty set_map map_is_Nil_conv)
    then show "\<exists>g \<in> set pool. area g = best" by auto
  qed (simp add: best_def)
  have choose: "choose_format offered ceil fps =
      (if pool = [] then min_by_key area offered else min_by_key (rate_key fps) (filter (\<lambda>f. area f = best) pool))"
    by (simp add: choose_format_def pool_def best_def Let_def)
  have "offered = [] \<longleftrightarrow> pool = [] \<and> offered = []" by (auto simp: pool_def)
  then show "offered = [] \<longleftrightarrow> choose_format offered ceil fps = None"
    using best(1) by (auto simp: choose filter_empty_conv)
  show "f \<in> set offered
     \<and> (if \<exists>g \<in> set offered. fits_ceiling ceil g
        then fits_ceiling ceil f \<and> (\<forall>g \<in> set offered. fits_ceiling ceil g \<longrightarrow> area g \<le> area f
          \<and> (area g = area f \<longrightarrow> (if fps \<le> vf_fps f then fps \<le> vf_fps g \<longrightarrow> vf_fps f \<le> vf_fps g
               else vf_fps g < fps \<and> vf_fps g \<le> vf_fps f)))
        else \<forall>g \<in> set offered. area f \<le> area g)" if f: "choose_format offered ceil fps = Some f"
  proof (cases "pool = []")
    case True
    then show ?thesis using f min_by_key_Some [of area offered f] by (auto simp: choose pool_def filter_empty_conv)
  next
    case False
    then have f: "f \<in> set pool" "area f = best" "\<forall>g \<in> set pool. area g = best \<longrightarrow> rate_key fps f \<le> rate_key fps g"
      using f min_by_key_Some [of "rate_key fps" "filter (\<lambda>f. area f = best) pool" f] by (auto simp: choose)
    moreover have "\<exists>g \<in> set offered. fits_ceiling ceil g" using f(1) by (auto simp: pool_def)
    ultimately show ?thesis using best(2) by (auto simp: pool_def rate_key_le)
  qed
qed

text \<open>
  C30. The format asked of a camera: one it offers, and one is found whenever it offers any.  When something fits the
  ceiling, the choice fits and no format that fits is larger; among the largest it has the lowest rate that is not below
  the one asked, and only when all of them are below, the highest.  When nothing fits it is the smallest offered.
\<close>

theorem choose_format_best:
  "(offered = [] \<longleftrightarrow> choose_format offered ceil fps = None)
   \<and> (\<forall>f. choose_format offered ceil fps = Some f \<longrightarrow> f \<in> set offered
     \<and> (if \<exists>g \<in> set offered. fits_ceiling ceil g
        then fits_ceiling ceil f \<and> (\<forall>g \<in> set offered. fits_ceiling ceil g \<longrightarrow> area g \<le> area f
          \<and> (area g = area f \<longrightarrow> (if fps \<le> vf_fps f then fps \<le> vf_fps g \<longrightarrow> vf_fps f \<le> vf_fps g
               else vf_fps g < fps \<and> vf_fps g \<le> vf_fps f)))
        else \<forall>g \<in> set offered. area f \<le> area g))"
  by (rule conjI [OF choose_format_facts(1)], intro allI impI, rule choose_format_facts(2))

section \<open>The order of the attempts\<close>

lemma fold_push_new:
  "set (map na_index (fold push_new xs order)) = set (map na_index xs) \<union> set (map na_index order)"
  "set (fold push_new xs order) \<subseteq> set xs \<union> set order" "set order \<subseteq> set (fold push_new xs order)"
  "distinct (map na_index order) \<Longrightarrow> distinct (map na_index (fold push_new xs order))"
proof (induction xs arbitrary: order)
  case (Cons x xs)
  { case 1 show ?case using Cons(1) [of "push_new x order"] by (auto simp: push_new_def) }
  { case 2 show ?case using Cons(2) [of "push_new x order"] by (auto simp: push_new_def split: if_splits) }
  { case 3 show ?case using Cons(3) [of "push_new x order"] by (auto simp: push_new_def split: if_splits) }
  { case 4 then show ?case using Cons(4) [of "push_new x order"] by (auto simp: push_new_def) }
qed auto

lemma fold_push_suffix: "\<exists>rest. fold push_new xs order = order @ rest \<and> set rest \<subseteq> set xs"
proof (induction xs arbitrary: order)
  case (Cons y ys)
  obtain rest where rest: "fold push_new ys (push_new y order) = push_new y order @ rest" "set rest \<subseteq> set ys"
    using Cons by blast
  show ?case
  proof (cases "na_index y \<in> set (map na_index order)")
    case True
    then have "push_new y order = order" by (simp add: push_new_def)
    with rest show ?thesis by (intro exI [of _ rest]) auto
  next
    case False
    then have "push_new y order = order @ [y]" by (simp add: push_new_def)
    with rest show ?thesis by (intro exI [of _ "y # rest"]) auto
  qed
qed simp

lemma best_of_facts:
  "set (best_of ceil fps pool) \<subseteq> set pool"
  "pool \<noteq> [] \<Longrightarrow> best_of ceil fps pool \<noteq> []"
  "n \<in> set (best_of ceil fps pool) \<Longrightarrow> choose_format (map na_format pool) ceil fps = Some (na_format n)"
  "n \<in> set pool \<Longrightarrow> choose_format (map na_format pool) ceil fps = Some (na_format n) \<Longrightarrow> n \<in> set (best_of ceil fps pool)"
  "sorted (map native_cost (best_of ceil fps pool))"
  "distinct (map na_index pool) \<Longrightarrow> distinct (map na_index (best_of ceil fps pool))"
proof -
  show "set (best_of ceil fps pool) \<subseteq> set pool" "sorted (map native_cost (best_of ceil fps pool))"
    by (auto simp: best_of_def split: option.splits)
  show "choose_format (map na_format pool) ceil fps = Some (na_format n)" if "n \<in> set (best_of ceil fps pool)"
    using that by (cases "choose_format (map na_format pool) ceil fps") (auto simp: best_of_def intro: vformat.equality)
  show m: "n \<in> set (best_of ceil fps pool)"
    if "n \<in> set pool" "choose_format (map na_format pool) ceil fps = Some (na_format n)" for n
    using that by (simp add: best_of_def)
  show "best_of ceil fps pool \<noteq> []" if some: "pool \<noteq> []"
  proof -
    obtain f where f: "choose_format (map na_format pool) ceil fps = Some f"
      using choose_format_facts(1) [of "map na_format pool" ceil fps] some by auto
    then have "f \<in> set (map na_format pool)" using choose_format_facts(2) by blast
    then obtain n where "n \<in> set pool" "f = na_format n" by auto
    then show ?thesis using m [of n] f by auto
  qed
  show "distinct (map na_index (best_of ceil fps pool))" if "distinct (map na_index pool)"
    using that by (auto simp: best_of_def distinct_map distinct_filter inj_on_def split: option.splits)
qed

text \<open>
  The order in which Media Foundation tries the formats of a camera: at most six attempts, each a format the camera
  offers and none twice; the first has the size and rate of the best choice and is, among the formats that tie with it,
  the cheapest to convert, a compressed one only when all of them are; and unless six formats tie, an uncompressed
  format is tried whenever the camera has one.
\<close>

theorem ranked_order:
  assumes "natives \<noteq> []" and "distinct (map na_index natives)"
  shows "length (ranked natives ceil fps) \<le> 6" "set (ranked natives ceil fps) \<subseteq> set natives"
    "distinct (map na_index (ranked natives ceil fps))"
    "\<exists>n. hd (ranked natives ceil fps) = n \<and> n \<in> set natives
       \<and> choose_format (map na_format natives) ceil fps = Some (na_format n)
       \<and> (\<forall>m \<in> set natives. na_format m = na_format n \<longrightarrow> native_cost n \<le> native_cost m)"
    "(\<exists>n \<in> set natives. na_pixels n \<noteq> None) \<Longrightarrow> length (best_of ceil fps natives) < 6
       \<Longrightarrow> \<exists>n \<in> set (ranked natives ceil fps). na_pixels n \<noteq> None"
proof -
  let ?b = "best_of ceil fps natives" and ?u = "best_of ceil fps (uncompressed natives)"
  obtain rest where rest: "fold push_new ?u ?b = ?b @ rest" "set rest \<subseteq> set ?u" using fold_push_suffix by blast
  then have r: "ranked natives ceil fps = take 6 (?b @ rest)" by (simp add: ranked_def MAX_ATTEMPTS_def)
  have u: "set ?u \<subseteq> set natives" "\<forall>n \<in> set ?u. na_pixels n \<noteq> None"
    using best_of_facts(1) [of ceil fps "uncompressed natives"] by (auto simp: uncompressed_def)
  show "length (ranked natives ceil fps) \<le> 6" by (simp add: r)
  show "set (ranked natives ceil fps) \<subseteq> set natives"
  proof -
    have "set ?b \<subseteq> set natives" by (rule best_of_facts(1))
    then have "set (?b @ rest) \<subseteq> set natives" using rest(2) u(1) by auto
    then show ?thesis unfolding r by (rule subset_trans [OF set_take_subset])
  qed
  show "distinct (map na_index (ranked natives ceil fps))"
    using fold_push_new(4) [OF best_of_facts(6) [OF assms(2), of ceil fps], of ?u]
    by (simp add: ranked_def take_map [symmetric])
  obtain n bs where b: "?b = n # bs" using best_of_facts(2) [OF assms(1)] by (cases ?b) auto
  have "native_cost n \<le> native_cost m" if "m \<in> set natives" "na_format m = na_format n" for m
    using best_of_facts(3) [of n ceil fps natives] best_of_facts(4) [of m natives ceil fps]
      best_of_facts(5) [of ceil fps natives] that b by auto
  then show "\<exists>n. hd (ranked natives ceil fps) = n \<and> n \<in> set natives
       \<and> choose_format (map na_format natives) ceil fps = Some (na_format n)
       \<and> (\<forall>m \<in> set natives. na_format m = na_format n \<longrightarrow> native_cost n \<le> native_cost m)"
    using best_of_facts(1) [of ceil fps natives] best_of_facts(3) [of n ceil fps natives] b r by auto
  assume "\<exists>n \<in> set natives. na_pixels n \<noteq> None" and few: "length ?b < 6"
  then have "uncompressed natives \<noteq> []" by (auto simp: uncompressed_def filter_empty_conv)
  then obtain v vs where v: "?u = v # vs" using best_of_facts(2) by (cases ?u) auto
  show "\<exists>n \<in> set (ranked natives ceil fps). na_pixels n \<noteq> None"
  proof (cases "rest = []")
    case False
    then obtain x xs where "rest = x # xs" by (cases rest) auto
    then have "x \<in> set (ranked natives ceil fps)" using few by (simp add: r take_Cons')
    moreover have "na_pixels x \<noteq> None" using u(2) rest(2) \<open>rest = x # xs\<close> by auto
    ultimately show ?thesis by blast
  next
    case True
    have "na_index v \<in> set (map na_index (fold push_new ?u ?b))"
      using v by (subst fold_push_new(1)) simp
    moreover have "fold push_new ?u ?b = ?b" using rest(1) True by simp
    ultimately obtain m where m: "m \<in> set ?b" "na_index m = na_index v" by auto
    then have "m \<in> set natives" "v \<in> set natives" using best_of_facts(1) [of ceil fps natives] u(1) v by auto
    then have "m = v" using assms(2) m(2) by (simp add: distinct_map inj_on_def)
    then show ?thesis using m(1) u(2) v r True few by auto
  qed
qed

text \<open>Six compressed formats that tie push the uncompressed one off the list.\<close>

lemma six_compressed_hide_uncompressed:
  "\<forall>n \<in> set (ranked (map (\<lambda>i. \<lparr>na_index = i, na_format = \<lparr>vf_size = \<lparr>sz_width = 1280, sz_height = 720\<rparr>, vf_fps = 30\<rparr>, na_pixels = None\<rparr>)
       [0, 1, 2, 3, 4, 5]
     @ [\<lparr>na_index = 6, na_format = \<lparr>vf_size = \<lparr>sz_width = 640, sz_height = 480\<rparr>, vf_fps = 30\<rparr>, na_pixels = Some Yuy2\<rparr>])
     \<lparr>sz_width = 1280, sz_height = 720\<rparr> 30). na_pixels n = None"
  by (simp add: ranked_def best_of_def choose_format_def fits_ceiling_def area_def rate_key_def uncompressed_def
    push_new_def native_cost_def MAX_ATTEMPTS_def PREFERENCE_def sort_key_def less_eq_prod_def)

text \<open>
  The rate asked of a DirectShow camera is one it can deliver, the nearest to the one wanted, whenever its two
  intervals say what it can deliver.
\<close>

theorem achievable_is_nearest:
  assumes "interval_rate (sc_min_interval caps) = fastest" and "interval_rate (sc_max_interval caps) = slowest"
    and "slowest \<noteq> 0" and "slowest \<le> fastest"
  shows "slowest \<le> achievable_fps caps wanted" "achievable_fps caps wanted \<le> fastest"
    "slowest \<le> wanted \<Longrightarrow> wanted \<le> fastest \<Longrightarrow> achievable_fps caps wanted = wanted"
  using assms by (auto simp: achievable_fps_def Let_def max_def min_def not_le)

section \<open>One camera, one row\<close>

lemma before_last_append: "c \<notin> set a \<Longrightarrow> before_last c (x @ c # a) = Some x"
  by (subst before_last_def, simp, subst dropWhile_append2) auto

lemma hash_lowercase: "CHR ''#'' \<in> set (to_ascii_lowercase s) \<longleftrightarrow> CHR ''#'' \<in> set s"
proof -
  have "ascii_lowercase c = CHR ''#'' \<longleftrightarrow> c = CHR ''#''" for c
  proof (cases "65 \<le> char_code c \<and> char_code c \<le> 90")
    case True
    then have "char_code (char_of (char_code c + 32)) = char_code c + 32" by (simp add: char_code_def)
    with True have "char_code (ascii_lowercase c) = char_code c + 32" by (simp only: ascii_lowercase_def if_True simp_thms)
    moreover have "char_code (CHR ''#'') = 35" by (simp add: char_code_def)
    ultimately have "char_code (ascii_lowercase c) \<noteq> char_code (CHR ''#'')" "char_code c \<noteq> char_code (CHR ''#'')"
      using True by linarith+
    then show ?thesis by auto
  qed (auto simp: ascii_lowercase_def)
  then show ?thesis unfolding to_ascii_lowercase_def set_map image_iff by metis
qed

lemma lowercase_append: "to_ascii_lowercase (xs @ ys) = to_ascii_lowercase xs @ to_ascii_lowercase ys"
  by (simp add: to_ascii_lowercase_def)

lemma lowercase_hash: "to_ascii_lowercase (CHR ''#'' # ys) = CHR ''#'' # to_ascii_lowercase ys"
  by (simp add: to_ascii_lowercase_def ascii_lowercase_def char_code_def)

lemma lowercase_prefix: "to_ascii_lowercase PNP_PREFIX = PNP_PREFIX"
  by (simp add: to_ascii_lowercase_def ascii_lowercase_def char_code_def PNP_PREFIX_def)

lemma device_key_of:
  assumes "CHR ''#'' \<notin> set end1" and "CHR ''#'' \<in> set instance_path"
  shows "device_key (PNP_PREFIX @ instance_path @ CHR ''#'' # end1) = Some (to_ascii_lowercase instance_path)"
    "strip_prefix PNP_PREFIX (to_ascii_lowercase (instance_path @ CHR ''#'' # end1)) = None
       \<Longrightarrow> device_key (instance_path @ CHR ''#'' # end1) = Some (to_ascii_lowercase instance_path)"
proof -
  have "before_last (CHR ''#'') (to_ascii_lowercase (instance_path @ CHR ''#'' # end1)) = Some (to_ascii_lowercase instance_path)"
    using assms(1) by (simp add: lowercase_append lowercase_hash before_last_append hash_lowercase)
  then show "device_key (PNP_PREFIX @ instance_path @ CHR ''#'' # end1) = Some (to_ascii_lowercase instance_path)"
    "strip_prefix PNP_PREFIX (to_ascii_lowercase (instance_path @ CHR ''#'' # end1)) = None
       \<Longrightarrow> device_key (instance_path @ CHR ''#'' # end1) = Some (to_ascii_lowercase instance_path)"
    using assms(2) by (simp_all add: device_key_def lowercase_append [of PNP_PREFIX] lowercase_prefix hash_lowercase)
qed

definition same_hardware :: "camera_device \<Rightarrow> ds_device \<Rightarrow> bool" where
  "same_hardware n d \<longleftrightarrow> (\<exists>k. device_key (cd_id n) = Some k \<and> Option.bind (dd_path d) device_key = Some k)"

lemma already_listed_iff:
  "already_listed native d \<longleftrightarrow> (\<exists>n \<in> set native. same_hardware n d \<or> cd_name n = dd_name d)"
  by (force simp: already_listed_def same_hardware_def map_filter_def split: option.splits)

text \<open>
  The list of cameras: every camera Media Foundation knows, in its order and with its own handle, and behind them
  exactly those of DirectShow that are no camera of Media Foundation, neither by the hardware instance in their device
  path, whatever its case and whatever interface each path ends in, nor by their name.
\<close>

theorem cameras_listed_once:
  "take (length native) (list_cameras native others) = native"
  "set (drop (length native) (list_cameras native others))
     = (\<lambda>d. \<lparr>cd_id = dd_moniker d, cd_name = dd_name d\<rparr>) ` {d \<in> set others. \<forall>n \<in> set native. \<not> same_hardware n d \<and> cd_name n \<noteq> dd_name d}"
  "CHR ''#'' \<in> set path \<Longrightarrow> CHR ''#'' \<notin> set end1 \<Longrightarrow> CHR ''#'' \<notin> set end2
     \<Longrightarrow> to_ascii_lowercase path = to_ascii_lowercase path'
     \<Longrightarrow> strip_prefix PNP_PREFIX (to_ascii_lowercase (path @ CHR ''#'' # end1)) = None
     \<Longrightarrow> strip_prefix PNP_PREFIX (to_ascii_lowercase (path' @ CHR ''#'' # end2)) = None
     \<Longrightarrow> same_hardware \<lparr>cd_id = path @ CHR ''#'' # end1, cd_name = a\<rparr>
          \<lparr>dd_moniker = m, dd_name = b, dd_path = Some (path' @ CHR ''#'' # end2)\<rparr>"
proof -
  show "take (length native) (list_cameras native others) = native" by (simp add: list_cameras_def)
  show "set (drop (length native) (list_cameras native others))
     = (\<lambda>d. \<lparr>cd_id = dd_moniker d, cd_name = dd_name d\<rparr>) ` {d \<in> set others. \<forall>n \<in> set native. \<not> same_hardware n d \<and> cd_name n \<noteq> dd_name d}"
    by (auto simp: list_cameras_def already_listed_iff)
  show "same_hardware \<lparr>cd_id = path @ CHR ''#'' # end1, cd_name = a\<rparr>
          \<lparr>dd_moniker = m, dd_name = b, dd_path = Some (path' @ CHR ''#'' # end2)\<rparr>"
    if "CHR ''#'' \<in> set path" "CHR ''#'' \<notin> set end1" "CHR ''#'' \<notin> set end2"
      "to_ascii_lowercase path = to_ascii_lowercase path'"
      "strip_prefix PNP_PREFIX (to_ascii_lowercase (path @ CHR ''#'' # end1)) = None"
      "strip_prefix PNP_PREFIX (to_ascii_lowercase (path' @ CHR ''#'' # end2)) = None"
  proof -
    have "CHR ''#'' \<in> set path'" using that(1,4) by (metis hash_lowercase)
    then show ?thesis using that device_key_of(2) [of end1 path] device_key_of(2) [of end2 path'] by (simp add: same_hardware_def)
  qed
qed

section \<open>A camera frame never brings the thread down\<close>

lemma for_upto_keeps:
  assumes "for_upto n body s = Some s'" and "P s" and "\<And>i t t'. body i t = Some t' \<Longrightarrow> P t \<Longrightarrow> P t'"
  shows "P s'"
  using assms(1)
  by (induction n arbitrary: s') (use assms(2,3) in \<open>auto simp: bind_eq_Some_conv\<close>)

lemma nv12_into_room:
  assumes "nv12_into src pitch sz y sy uv suv = Some (ok, y', uv')"
  shows "length y' = length y \<and> length uv' = length uv"
proof -
  have rows: "for_upto n (\<lambda>row d. Option.bind (slice src (f row) (g row)) (copy_at d (h row))) d = Some d'
    \<Longrightarrow> length d' = length d" for n f g h and d d' :: bytes
    by (rule for_upto_keeps [where P = "\<lambda>t. length t = length d"]) (auto simp: bind_eq_Some_conv dest!: length_copy_at)
  show ?thesis using assms by (auto simp: nv12_into_def Let_def bind_eq_Some_conv split: if_splits dest: rows)
qed

lemma packed_422_room:
  assumes "packed_422_into raw sz offs y sy uv suv = Some (ok, y', uv')"
  shows "length y' = length y \<and> length uv' = length uv"
proof -
  obtain l u v where offs: "offs = (l, u, v)" by (cases offs)
  show ?thesis
    using assms unfolding packed_422_into_def Let_def offs
    apply (auto split: if_splits)
    subgoal by (erule for_upto_keeps [where P = "\<lambda>t. length (fst t) = length y \<and> length (snd t) = length uv", elim_format])
        (auto simp: bind_eq_Some_conv split: if_splits dest!: length_copy_at)
    subgoal by (erule for_upto_keeps [where P = "\<lambda>t. length (fst t) = length y \<and> length (snd t) = length uv", elim_format])
        (auto simp: bind_eq_Some_conv split: if_splits dest!: length_copy_at)
    done
qed

lemma converter_write_room:
  assumes "media_laws md" and "converter_write (md_yuv md) c raw sz dst = Some (ok, c', dst')"
  shows "nv_stride_y dst' = nv_stride_y dst" "nv_stride_uv dst' = nv_stride_uv dst"
    "length (nv_y dst') = length (nv_y dst)" "length (nv_uv dst') = length (nv_uv dst)" "cv_kind c' = cv_kind c"
proof -
  have argb: "argb_to_nv12 (md_yuv md) src p y sy uv suv w h = Some (y', uv') \<Longrightarrow> length y' = length y \<and> length uv' = length uv"
    for src p y sy uv suv w h y' uv' using assms(1) by (auto simp: media_laws_def)
  have i420: "i420_to_nv12 (md_yuv md) a p b q c r y sy uv suv w h = Some (y', uv') \<Longrightarrow> length y' = length y \<and> length uv' = length uv"
    for a p b q c r y sy uv suv w h y' uv' using assms(1) by (auto simp: media_laws_def)
  have "nv_stride_y dst' = nv_stride_y dst \<and> nv_stride_uv dst' = nv_stride_uv dst \<and> length (nv_y dst') = length (nv_y dst)
      \<and> length (nv_uv dst') = length (nv_uv dst) \<and> cv_kind c' = cv_kind c"
  proof (cases "write_refuses c raw sz dst")
    case True
    then show ?thesis using assms(2) by (simp add: converter_write_def)
  next
    case False
    then have "convert_frame (md_yuv md) c raw sz dst = Some (ok, c', dst')" using assms(2) by (simp add: converter_write_def)
    then show ?thesis
      by (cases "cv_kind c") (auto simp: convert_frame_def Let_def put_planes_def bind_eq_Some_conv
        dest!: argb i420 nv12_into_room packed_422_room)
  qed
  then show "nv_stride_y dst' = nv_stride_y dst" "nv_stride_uv dst' = nv_stride_uv dst"
    "length (nv_y dst') = length (nv_y dst)" "length (nv_uv dst') = length (nv_uv dst)" "cv_kind c' = cv_kind c"
    by blast+
qed

text \<open>Delivering, for any way of filling the buffer that returns and leaves it one for the picture.\<close>

lemma deliver_total:
  assumes "media_laws md" and "scratch_ok s" and "unat (sz_width sz) < 2 ^ 30" and "unat (sz_height sz) < 2 ^ 30"
    and fill: "\<And>b. holds_picture b (sz_width sz) (sz_height sz) \<Longrightarrow> 2 \<le> unat (sz_width sz) \<Longrightarrow> 2 \<le> unat (sz_height sz) \<Longrightarrow>
       \<exists>ok conv' nv. fill conv b = Some (ok, conv', nv) \<and> holds_picture nv (sz_width sz) (sz_height sz) \<and> P conv'"
    and "P conv"
  shows "\<exists>out conv' s'. deliver md c now accepts sz fill conv s = Some (out, conv', s')
    \<and> scratch_ok s' \<and> sc_max s' = sc_max s \<and> P conv'
    \<and> sc_produced s' = sc_produced s + of_nat (one_if (out \<noteq> None))
    \<and> sc_delivered s' = sc_delivered s + of_nat (one_if (\<exists>b. out = Some b \<and> accepts b))
    \<and> (out \<noteq> None \<longleftrightarrow> \<not> sz_width sz < 2 \<and> \<not> sz_height sz < 2
         \<and> (\<exists>cv nv. fill conv (conversion_buffer md sz s) = Some (True, cv, nv)))"
proof (cases "sz_width sz < 2 \<or> sz_height sz < 2")
  case True
  then show ?thesis using assms(2,6) by (auto simp: deliver_def one_if_def)
next
  case False
  define b where "b = conversion_buffer md sz s"
  have small: "unat (sz_width sz) < 2 ^ 31" "unat (sz_height sz) < 2 ^ 31" using assms(3,4) by simp_all
  have two: "2 \<le> unat (sz_width sz)" "2 \<le> unat (sz_height sz)" using False by (simp_all add: word_le_nat_alt not_less)
  have "holds_picture b (sz_width sz) (sz_height sz)"
    unfolding b_def by (rule buffer_fits [OF assms(1,2) small])
  from fill [OF this two] obtain ok conv' nv where wr: "fill conv b = Some (ok, conv', nv)"
    and nv: "holds_picture nv (sz_width sz) (sz_height sz)" and P: "P conv'"
    by blast
  show ?thesis
  proof (cases ok)
    case False
    with \<open>\<not> (sz_width sz < 2 \<or> sz_height sz < 2)\<close> wr nv P show ?thesis
      by (simp add: deliver_def b_def [symmetric] scratch_ok_def one_if_def)
  next
    case True
    from send_step [OF assms(1) nv two assms(3) small(2), of c now accepts s] obtain out s' where
      "send_picture md c now accepts sz nv s = Some (Some out, s')" "scratch_ok s'" "sc_max s' = sc_max s"
      "sc_produced s' = sc_produced s + 1" "sc_delivered s' = sc_delivered s + of_nat (one_if (accepts out))"
      by blast
    with False wr P True show ?thesis
      by (intro exI [of _ "Some out"]) (simp add: deliver_def b_def [symmetric] one_if_def)
  qed
qed

lemma write_fills:
  assumes "media_laws md" and "unat (sz_width sz) < 2 ^ 30" and "unat (sz_height sz) < 2 ^ 30" and "raw_pitch raw < 2 ^ 32"
    and "holds_picture b (sz_width sz) (sz_height sz)"
  shows "\<exists>ok conv' nv. converter_write (md_yuv md) conv raw sz b = Some (ok, conv', nv)
    \<and> holds_picture nv (sz_width sz) (sz_height sz) \<and> cv_kind conv' = cv_kind conv \<and> (ok \<longleftrightarrow> \<not> write_refuses conv raw sz b)"
proof -
  have "sz_width sz \<le> nv_stride_y b" "sz_width sz \<le> nv_stride_uv b"
    using assms(5) by (simp_all add: holds_picture_def plane_ok_def word_le_nat_alt)
  moreover have "yuv_total (md_yuv md)" using assms(1) by (simp add: media_laws_def)
  ultimately obtain ok conv' nv where wr: "converter_write (md_yuv md) conv raw sz b = Some (ok, conv', nv)"
    "ok \<longleftrightarrow> \<not> write_refuses conv raw sz b"
    using write_total [of "md_yuv md" sz raw b conv] assms(2-4) by blast
  with converter_write_room [OF assms(1) wr(1)] assms(5) show ?thesis
    by (auto simp: holds_picture_def plane_ok_def)
qed

definition camera_picture :: "converter \<Rightarrow> raw \<Rightarrow> dims \<Rightarrow> nv12 \<Rightarrow> bool" where
  "camera_picture conv raw sz buf \<longleftrightarrow> \<not> sz_width sz < 2 \<and> \<not> sz_height sz < 2 \<and> \<not> write_refuses conv raw sz buf"

text \<open>
  A camera frame never brings the capture down: whatever bytes, pitch and orientation arrive for the format agreed,
  delivering them returns without a panic; the frame is counted and offered to the encoder exactly when the converter
  takes it, a refused frame is neither, and the buffer stays one for the next frame.
\<close>

theorem camera_frame_safe:
  assumes "media_laws md" and "scratch_ok s" and "unat (sz_width sz) < 2 ^ 30" and "unat (sz_height sz) < 2 ^ 30"
    and "raw_pitch raw < 2 ^ 32"
  shows "\<exists>out conv' s'. deliver md c now accepts sz (\<lambda>cv. converter_write (md_yuv md) cv raw sz) conv s = Some (out, conv', s')
    \<and> scratch_ok s' \<and> (out \<noteq> None \<longleftrightarrow> camera_picture conv raw sz (conversion_buffer md sz s))
    \<and> sc_produced s' = sc_produced s + of_nat (one_if (out \<noteq> None))
    \<and> sc_delivered s' = sc_delivered s + of_nat (one_if (\<exists>b. out = Some b \<and> accepts b))"
proof -
  have "unat (sz_width sz) < 2 ^ 31" "unat (sz_height sz) < 2 ^ 31" using assms(3,4) by simp_all
  note room = buffer_fits [OF assms(1,2) this]
  have "(\<exists>cv nv. converter_write (md_yuv md) conv raw sz (conversion_buffer md sz s) = Some (True, cv, nv))
      \<longleftrightarrow> \<not> write_refuses conv raw sz (conversion_buffer md sz s)"
    using write_fills [OF assms(1,3-5) room, of conv] by auto
  with deliver_total [OF assms(1-4), of "\<lambda>cv. converter_write (md_yuv md) cv raw sz" conv "\<lambda>_. True" c now accepts]
    write_fills [OF assms(1,3-5)]
  show ?thesis by (simp add: camera_picture_def) blast
qed

section \<open>Examples\<close>

definition vga :: vformat where "vga = \<lparr>vf_size = \<lparr>sz_width = 640, sz_height = 480\<rparr>, vf_fps = 30\<rparr>"
definition hd24 :: vformat where "hd24 = \<lparr>vf_size = \<lparr>sz_width = 1280, sz_height = 720\<rparr>, vf_fps = 24\<rparr>"
definition hd60 :: vformat where "hd60 = hd24\<lparr>vf_fps := 60\<rparr>"
definition full_hd :: vformat where "full_hd = \<lparr>vf_size = \<lparr>sz_width = 1920, sz_height = 1080\<rparr>, vf_fps = 30\<rparr>"
definition hd_ceiling :: dims where "hd_ceiling = \<lparr>sz_width = 1280, sz_height = 720\<rparr>"

lemmas camera_examples = vga_def hd24_def hd60_def full_hd_def hd_ceiling_def

lemma four_formats_choice: "choose_format [vga, hd24, full_hd, hd60] hd_ceiling 30 = Some hd60"
  by (simp add: choose_format_def fits_ceiling_def area_def rate_key_def camera_examples less_eq_prod_def)

theorem choose_format_best_witness:
  "hd60 \<in> set [vga, hd24, full_hd, hd60] \<and> choose_format [vga, hd24, full_hd, hd60] hd_ceiling 30 = Some hd60"
  using choose_format_best [of "[vga, hd24, full_hd, hd60]" hd_ceiling 30] four_formats_choice by (elim conjE allE [of _ hd60]) simp

theorem ranked_order_witness:
  "length (ranked [\<lparr>na_index = 0, na_format = hd24, na_pixels = None\<rparr>, \<lparr>na_index = 1, na_format = vga, na_pixels = Some Yuy2\<rparr>]
     hd_ceiling 30) \<le> 6"
  using ranked_order(1) [of "[\<lparr>na_index = 0, na_format = hd24, na_pixels = None\<rparr>, \<lparr>na_index = 1, na_format = vga, na_pixels = Some Yuy2\<rparr>]"]
  by simp

theorem achievable_is_nearest_witness:
  "achievable_fps \<lparr>sc_min_interval = 333333, sc_max_interval = 2000000\<rparr> 60 \<le> 30"
  using achievable_is_nearest(2) [of "\<lparr>sc_min_interval = 333333, sc_max_interval = 2000000\<rparr>" 30 5 60]
  by (simp add: interval_rate_def)

theorem cameras_listed_once_witness:
  "same_hardware \<lparr>cd_id = ''//usb#VID'' @ CHR ''#'' # ''mf'', cd_name = []\<rparr>
     \<lparr>dd_moniker = [], dd_name = [], dd_path = Some (''//usb#vid'' @ CHR ''#'' # ''ds'')\<rparr>"
  by (rule cameras_listed_once(3)) code_simp+

theorem camera_frame_safe_witness:
  "\<exists>out conv' s'. deliver plain_media control_new 0 (\<lambda>b. True) tiny (\<lambda>cv. converter_write (md_yuv plain_media) cv tiny_yuy2 tiny)
     (converter_new Yuy2) (scratch_new tiny None) = Some (out, conv', s') \<and> scratch_ok s'"
proof -
  have "scratch_ok (scratch_new tiny None)" by (simp add: scratch_ok_def scratch_new_def)
  from camera_frame_safe [OF plain_media_laws this, of tiny tiny_yuy2 control_new 0 "\<lambda>b. True" "converter_new Yuy2"]
  show ?thesis by (auto simp: tiny_def tiny_yuy2_def)
qed

end
