(* ===== verification/Camera_MF.thy ===== *)
theory Camera_MF
  imports Camera_Formats
begin

text \<open>
  \<^verbatim>\<open>desktop/src-tauri/src/camera/mf.rs\<close>: the Media Foundation path.  The source reader of Windows is a parameter, a
  state with the calls the code makes on it; a media type is the four attributes the code reads.  A failing call is the
  \<^verbatim>\<open>HRESULT\<close> it answers with and the text of that error.
\<close>

section \<open>Errors of Windows\<close>

record win_error =
  we_code :: int
  we_text :: string

definition ERROR_SHARING_VIOLATION :: int where "ERROR_SHARING_VIOLATION = - 2147024864"
definition E_ACCESSDENIED :: int where "E_ACCESSDENIED = - 2147024891"
definition MF_E_HW_MFT_FAILED_START_STREAMING :: int where "MF_E_HW_MFT_FAILED_START_STREAMING = - 1072873339"
definition MF_E_NO_MORE_TYPES :: int where "MF_E_NO_MORE_TYPES = - 1072875847"
definition ERROR_FILE_NOT_FOUND :: int where "ERROR_FILE_NOT_FOUND = - 2147024894"
definition MF_E_NOT_FOUND :: int where "MF_E_NOT_FOUND = - 1072875819"
definition E_INVALIDARG :: int where "E_INVALIDARG = - 2147024809"

definition from_hresult :: "win_error \<Rightarrow> string \<Rightarrow> camera_error" where
  "from_hresult e ctx =
     (if we_code e = ERROR_SHARING_VIOLATION \<or> we_code e = MF_E_HW_MFT_FAILED_START_STREAMING then Busy
      else if we_code e = E_ACCESSDENIED then NotAllowed
      else Platform_Error (ctx @ '': '' @ we_text e))"

text \<open>What \<^verbatim>\<open>open_device\<close> makes of a refusal of \<^verbatim>\<open>MFCreateDeviceSource\<close>.\<close>

definition open_refusal :: "win_error \<Rightarrow> camera_error" where
  "open_refusal e =
     (if we_code e = ERROR_FILE_NOT_FOUND \<or> we_code e = MF_E_NOT_FOUND then Gone
      else if we_code e = E_INVALIDARG then WillNotOpen (word_of_int (we_code e))
      else from_hresult e ''abrindo a camera'')"

section \<open>The devices\<close>

text \<open>A device of the enumeration: its symbolic link and its friendly name, when it has them.\<close>

definition CAMERA_NAME :: string where
  "CAMERA_NAME = ''C'' @ [CHR 0xC3, CHR 0xA2] @ ''mera''"

definition mf_list :: "(string option \<times> string option) list option \<Rightarrow> camera_device list" where
  "mf_list found =
     (case found of
        None \<Rightarrow> []
      | Some devs \<Rightarrow> List.map_filter (\<lambda>(link, name). map_option (\<lambda>i. \<lparr>cd_id = i,
          cd_name = (case name of None \<Rightarrow> CAMERA_NAME | Some n \<Rightarrow> n)\<rparr>) link) devs)"

definition name_of :: "camera_device list \<Rightarrow> string \<Rightarrow> string option" where
  "name_of devs i = map_option cd_name (find (\<lambda>d. cd_id d = i) devs)"

section \<open>Media types and the reader\<close>

record media_type =
  mt_frame_size :: "u64 option"
  mt_frame_rate :: "u64 option"
  mt_subtype :: "subtype option"
  mt_default_stride :: "u32 option"

definition frame_size :: "media_type \<Rightarrow> dims option" where
  "frame_size t = map_option (\<lambda>packed. \<lparr>sz_width = ucast (drop_bit 32 packed), sz_height = ucast packed\<rparr>) (mt_frame_size t)"

definition frame_rate :: "media_type \<Rightarrow> u32 option" where
  "frame_rate t = Option.bind (mt_frame_rate t) (\<lambda>packed.
     let numerator = (ucast (drop_bit 32 packed) :: u32); denominator = (ucast packed :: u32) in
     if denominator > 0 then Some (numerator div denominator) else None)"

text \<open>
  What \<^verbatim>\<open>SetCurrentMediaType\<close> is asked for: a type of the device itself, or a decoded one of a subtype, with the size
  and the rate of the device's and the range 16 to 235.
\<close>

datatype request = Native_Type media_type | Decoded_Type subtype u64 "u64 option"

record 'r reader =
  get_native :: "'r \<Rightarrow> u32 \<Rightarrow> win_error + media_type"
  get_current :: "'r \<Rightarrow> win_error + media_type"
  set_current :: "request \<Rightarrow> 'r \<Rightarrow> (win_error + unit) \<times> 'r"
  deselect_all :: "'r \<Rightarrow> 'r"
  select_video :: "'r \<Rightarrow> (win_error + unit) \<times> 'r"
  no_attribute :: win_error

definition native_of :: "u32 \<Rightarrow> media_type \<Rightarrow> native_format option" where
  "native_of i t =
     (case frame_size t of
        None \<Rightarrow> None
      | Some sz \<Rightarrow>
          if sz_width sz < 2 \<or> sz_height sz < 2 then None
          else Some \<lparr>na_index = i,
            na_format = \<lparr>vf_size = sz, vf_fps = (case frame_rate t of None \<Rightarrow> 30 | Some f \<Rightarrow> f)\<rparr>,
            na_pixels = Option.bind (mt_subtype t) from_subtype\<rparr>)"

text \<open>\<open>None\<close> when the reader never says that there are no more types.\<close>

partial_function (option) native_formats_from ::
  "'r reader \<Rightarrow> 'r \<Rightarrow> u32 \<Rightarrow> native_format list \<Rightarrow> (camera_error + native_format list) option" where
  "native_formats_from api r i natives =
     (case get_native api r i of
        Inl e \<Rightarrow>
          if we_code e = MF_E_NO_MORE_TYPES then Some (Inr natives)
          else Some (Inl (from_hresult e ''lendo os formatos''))
      | Inr t \<Rightarrow>
          (case native_of i t of
             None \<Rightarrow> native_formats_from api r (i + 1) natives
           | Some n \<Rightarrow> native_formats_from api r (i + 1) (natives @ [n])))"

definition native_formats :: "'r reader \<Rightarrow> 'r \<Rightarrow> (camera_error + native_format list) option" where
  "native_formats api r = native_formats_from api r 0 []"

record negotiated =
  ng_size :: dims
  ng_pixels :: pixels
  ng_stride :: "i32 option"

definition negotiated_of :: "win_error \<Rightarrow> win_error + media_type \<Rightarrow> camera_error + negotiated" where
  "negotiated_of missing answer =
     (case answer of
        Inl e \<Rightarrow> Inl (from_hresult e ''lendo o formato negociado'')
      | Inr t \<Rightarrow>
          (case mt_subtype t of
             None \<Rightarrow> Inl (from_hresult missing ''lendo o formato negociado'')
           | Some sub \<Rightarrow>
               (case from_subtype sub of
                  None \<Rightarrow> Inl NoUsableFormat
                | Some px \<Rightarrow>
                    (case frame_size t of
                       None \<Rightarrow> Inl NoUsableFormat
                     | Some sz \<Rightarrow> Inr \<lparr>ng_size = sz, ng_pixels = px, ng_stride = mt_default_stride t\<rparr>))))"

definition negotiated_current :: "'r reader \<Rightarrow> 'r \<Rightarrow> camera_error + negotiated" where
  "negotiated_current api r = negotiated_of (no_attribute api) (get_current api r)"

section \<open>Negotiation\<close>

text \<open>The GUIDs of \<^verbatim>\<open>MFVideoFormat\<close> for NV12, YUY2 and I420 are those of \<^verbatim>\<open>MEDIASUBTYPE\<close>.\<close>

definition DECODED :: "subtype list" where
  "DECODED = [MEDIASUBTYPE_NV12, MEDIASUBTYPE_YUY2, MEDIASUBTYPE_I420, MFVideoFormat_RGB32]"

definition decoded_request :: "'r reader \<Rightarrow> media_type \<Rightarrow> subtype \<Rightarrow> win_error + request" where
  "decoded_request api offered sub =
     (case mt_frame_size offered of
        None \<Rightarrow> Inl (no_attribute api)
      | Some sz \<Rightarrow> Inr (Decoded_Type sub sz (mt_frame_rate offered)))"

fun try_decoded :: "'r reader \<Rightarrow> media_type \<Rightarrow> subtype list \<Rightarrow> win_error option \<Rightarrow> 'r \<Rightarrow> (bool \<times> win_error option) \<times> 'r" where
  "try_decoded api offered [] refusal r = ((False, refusal), r)"
| "try_decoded api offered (sub # subs) refusal r =
     (case decoded_request api offered sub of
        Inl e \<Rightarrow> try_decoded api offered subs (Some e) r
      | Inr rq \<Rightarrow>
          (case set_current api rq r of
             (Inr _, r') \<Rightarrow> ((True, refusal), r')
           | (Inl e, r') \<Rightarrow> try_decoded api offered subs (Some e) r'))"

definition try_native :: "'r reader \<Rightarrow> native_format \<Rightarrow> 'r \<Rightarrow> (camera_error + negotiated) \<times> 'r" where
  "try_native api n r =
     (case get_native api r (na_index n) of
        Inl e \<Rightarrow> (Inl (from_hresult e ''relendo o formato escolhido''), r)
      | Inr offered \<Rightarrow>
          (case set_current api (Native_Type offered) r of
             (Inl e, r') \<Rightarrow> (Inl (from_hresult e ''fixando o formato da camera''), r')
           | (Inr _, r') \<Rightarrow>
               if na_pixels n = None then
                 (case try_decoded api offered DECODED None r' of
                    ((True, _), r'') \<Rightarrow> (negotiated_current api r'', r'')
                  | ((False, refusal), r'') \<Rightarrow>
                      (Inl (case refusal of
                         Some e \<Rightarrow> from_hresult e ''decodificando o video da camera''
                       | None \<Rightarrow> OnlyCompressed), r''))
               else (negotiated_current api r', r')))"

fun try_all :: "'r reader \<Rightarrow> native_format list \<Rightarrow> camera_error option \<Rightarrow> 'r \<Rightarrow> (camera_error + negotiated) \<times> 'r" where
  "try_all api [] refusal r = (Inl (case refusal of Some e \<Rightarrow> e | None \<Rightarrow> NoUsableFormat), r)"
| "try_all api (n # ns) refusal r =
     (case try_native api n r of
        (Inr ng, r') \<Rightarrow> (Inr ng, r')
      | (Inl e, r') \<Rightarrow> if e = Busy \<or> e = NotAllowed then (Inl e, r') else try_all api ns (Some e) r')"

definition mf_negotiate :: "'r reader \<Rightarrow> dims \<Rightarrow> u32 \<Rightarrow> 'r \<Rightarrow> ((camera_error + negotiated) \<times> 'r) option" where
  "mf_negotiate api ceil fps r =
     (case select_video api (deselect_all api r) of
        (Inl e, r') \<Rightarrow> Some (Inl (from_hresult e ''ligando a trilha de video''), r')
      | (Inr _, r') \<Rightarrow>
          Option.bind (native_formats api r') (\<lambda>found. case found of
             Inl e \<Rightarrow> Some (Inl e, r')
           | Inr natives \<Rightarrow> Some (try_all api (ranked natives ceil fps) None r')))"

text \<open>
  \<^verbatim>\<open>Opened::new\<close>: the session, the source and the reader as Windows answers (making the stores of attributes for them
  is taken to succeed).  The flag says that the source was opened and is not shut down again.
\<close>

definition mf_open :: "'r reader \<Rightarrow> win_error + unit \<Rightarrow> win_error + unit \<Rightarrow> win_error + 'r \<Rightarrow> dims \<Rightarrow> u32
    \<Rightarrow> ((camera_error + negotiated \<times> 'r) \<times> bool) option" where
  "mf_open api session source reader ceil fps =
     (case session of
        Inl e \<Rightarrow> Some (Inl (from_hresult e ''iniciando o Media Foundation''), False)
      | Inr _ \<Rightarrow>
          (case source of
             Inl e \<Rightarrow> Some (Inl (open_refusal e), False)
           | Inr _ \<Rightarrow>
               (case reader of
                  Inl e \<Rightarrow> Some (Inl (from_hresult e ''abrindo o leitor''), False)
                | Inr r \<Rightarrow>
                    map_option (\<lambda>(answer, r'). case answer of
                        Inl e \<Rightarrow> (Inl e, False)
                      | Inr ng \<Rightarrow> (Inr (ng, r'), True)) (mf_negotiate api ceil fps r))))"

text \<open>\<^verbatim>\<open>start\<close>: \<open>frames_home\<close> says whether the refusal brings the frame sink back.\<close>

record refused =
  rf_error :: camera_error
  frames_home :: bool

definition mf_start :: "bool \<Rightarrow> (camera_error + 'a) option \<Rightarrow> refused + 'a" where
  "mf_start spawned opened =
     (if \<not> spawned then Inl \<lparr>rf_error = Platform_Error ''nao consegui criar a thread'', frames_home = False\<rparr>
      else case opened of
        Some (Inr c) \<Rightarrow> Inr c
      | Some (Inl e) \<Rightarrow> Inl \<lparr>rf_error = e, frames_home = True\<rparr>
      | None \<Rightarrow> Inl \<lparr>rf_error = Platform_Error ''a thread da camera terminou antes de abrir'', frames_home = False\<rparr>)"

section \<open>Reading a frame\<close>

text \<open>
  A sample's contiguous buffer.  A two-dimensional one answers \<^verbatim>\<open>Lock2D\<close> with a pointer to the top row and a pitch: the
  block of memory with the pointer's place in it (\<open>None\<close> for a null pointer).  A plain one answers \<^verbatim>\<open>Lock\<close> with its
  bytes.  A failed lock is \<open>None\<close>.
\<close>

datatype media_buffer =
    No_Contiguous
  | Two_D "((bytes \<times> nat) option \<times> i32) option"
  | Plain "bytes option option"

text \<open>\<open>None\<close> is a panic, or a slice that leaves the block.\<close>

definition two_d_raw :: "negotiated \<Rightarrow> bytes \<Rightarrow> nat \<Rightarrow> i32 \<Rightarrow> raw option" where
  "two_d_raw layout mem scan pitch =
     (let span = nat \<bar>sint pitch\<bar>; rows = unat (sz_height (ng_size layout)) in
      if sint pitch > 0 then
        map_option (\<lambda>data. \<lparr>raw_data = data, raw_pitch = span, raw_bottom_up = False\<rparr>)
          (slice mem scan (scan + needed (ng_pixels layout) span (sz_height (ng_size layout))))
      else
        (if rows = 0 \<or> scan < span * (rows - 1) then None
         else let first = scan - span * (rows - 1) in
           map_option (\<lambda>data. \<lparr>raw_data = data, raw_pitch = span, raw_bottom_up = True\<rparr>)
             (slice mem first (first + span * rows))))"

definition read_frame :: "media \<Rightarrow> negotiated \<Rightarrow> media_buffer \<Rightarrow> converter \<Rightarrow> nv12 \<Rightarrow> (bool \<times> converter \<times> nv12) option" where
  "read_frame md layout buf conv dst =
     (case buf of
        No_Contiguous \<Rightarrow> Some (False, conv, dst)
      | Two_D None \<Rightarrow> Some (False, conv, dst)
      | Two_D (Some (None, pitch)) \<Rightarrow> Some (False, conv, dst)
      | Two_D (Some (Some (mem, scan), pitch)) \<Rightarrow>
          if \<bar>sint pitch\<bar> > 0 then
            Option.bind (two_d_raw layout mem scan pitch) (\<lambda>raw. converter_write (md_yuv md) conv raw (ng_size layout) dst)
          else Some (False, conv, dst)
      | Plain None \<Rightarrow> Some (False, conv, dst)
      | Plain (Some data) \<Rightarrow>
          let stride = (case ng_stride layout of
                Some st \<Rightarrow> st
              | None \<Rightarrow> of_nat (px_stride (ng_pixels layout) (sz_width (ng_size layout)))) in
          (case data of
             None \<Rightarrow> Some (False, conv, dst)
           | Some bs \<Rightarrow>
               if stride \<noteq> 0 then
                 converter_write (md_yuv md) conv \<lparr>raw_data = bs, raw_pitch = nat \<bar>sint stride\<bar>, raw_bottom_up = sint stride < 0\<rparr>
                   (ng_size layout) dst
               else Some (False, conv, dst)))"

section \<open>The capture thread\<close>

text \<open>
  A turn of \<^verbatim>\<open>run\<close>: the stop flag it reads and what \<^verbatim>\<open>ReadSample\<close> answers, with the reader's current type at that
  moment, and what the preview and the sink answer to a frame.
\<close>

record sample_flags =
  fl_error :: bool
  fl_end :: bool
  fl_changed :: bool

record mf_turn =
  mu_stop :: bool
  mu_read :: "win_error + sample_flags \<times> media_buffer option"
  mu_current :: "win_error + media_type"
  mu_control :: control
  mu_now :: instant
  mu_accepts :: "nv12 \<Rightarrow> bool"

datatype run_end = Still_Running | Run_Stopped | Run_Failed camera_error

definition mf_turn_step :: "media \<Rightarrow> win_error \<Rightarrow> mf_turn \<Rightarrow> negotiated \<times> converter \<times> frames
    \<Rightarrow> (run_end \<times> negotiated \<times> converter \<times> frames) option" where
  "mf_turn_step md missing t st =
     (let (layout, conv, s) = st in
      if mu_stop t then Some (Run_Stopped, st)
      else case mu_read t of
        Inl e \<Rightarrow> Some (Run_Failed (from_hresult e ''lendo um quadro''), st)
      | Inr (flags, sample) \<Rightarrow>
          if fl_error flags then Some (Run_Failed Gone, st)
          else if fl_end flags then Some (Run_Failed Gone, st)
          else
            (case (if fl_changed flags
                   then map_sum id (\<lambda>now. (now, if cv_kind conv \<noteq> ng_pixels now then converter_new (ng_pixels now) else conv))
                          (negotiated_of missing (mu_current t))
                   else Inr (layout, conv)) of
               Inl e \<Rightarrow> Some (Run_Failed e, st)
             | Inr (layout', conv') \<Rightarrow>
                 (case sample of
                    None \<Rightarrow> Some (Still_Running, layout', conv', s)
                  | Some buf \<Rightarrow>
                      map_option (\<lambda>(_, conv'', s'). (Still_Running, layout', conv'', s'))
                        (deliver md (mu_control t) (mu_now t) (mu_accepts t) (ng_size layout') (read_frame md layout' buf) conv' s))))"

fun mf_turns :: "media \<Rightarrow> win_error \<Rightarrow> mf_turn list \<Rightarrow> negotiated \<times> converter \<times> frames
    \<Rightarrow> (run_end \<times> negotiated \<times> converter \<times> frames) option" where
  "mf_turns md missing [] st = Some (Still_Running, st)"
| "mf_turns md missing (t # ts) st =
     Option.bind (mf_turn_step md missing t st) (\<lambda>(e, st').
       if e = Still_Running then mf_turns md missing ts st' else Some (e, st'))"

definition mf_run :: "media \<Rightarrow> win_error \<Rightarrow> negotiated \<Rightarrow> mf_turn list \<Rightarrow> frames
    \<Rightarrow> (run_end \<times> negotiated \<times> converter \<times> frames) option" where
  "mf_run md missing layout ts s = mf_turns md missing ts (layout, converter_new (ng_pixels layout), s)"

section \<open>Listing the formats ends\<close>

lemma native_formats_from_lists:
  assumes "\<forall>k < length ts. get_native api r (i + of_nat k) = Inr (ts ! k)"
    and "get_native api r (i + of_nat (length ts)) = Inl e" and "we_code e = MF_E_NO_MORE_TYPES"
  shows "native_formats_from api r i acc
    = Some (Inr (acc @ List.map_filter (\<lambda>(k, t). native_of (i + of_nat k) t) (List.enumerate 0 ts)))"
  using assms(1,2)
proof (induction ts arbitrary: i acc)
  case Nil
  then show ?case using assms(3) by (subst native_formats_from.simps) (simp add: map_filter_def)
next
  case (Cons t ts)
  have shift: "List.enumerate (Suc 0) ts = map (\<lambda>(k, t). (Suc k, t)) (List.enumerate 0 ts)"
    by (rule nth_equalityI) (simp_all add: nth_enumerate_eq)
  have rest: "List.map_filter (\<lambda>(k, t). native_of (i + of_nat k) t) (List.enumerate (Suc 0) ts)
      = List.map_filter (\<lambda>(k, t). native_of (i + 1 + of_nat k) t) (List.enumerate 0 ts)"
    unfolding shift by (simp add: map_filter_def filter_map comp_def case_prod_beta ac_simps)
  have head: "get_native api r i = Inr t" using Cons.prems(1) by force
  have "\<forall>k < length ts. get_native api r (i + 1 + of_nat k) = Inr (ts ! k)"
    using Cons.prems(1) by (auto simp: ac_simps dest: spec [of _ "Suc _"])
  moreover have "get_native api r (i + 1 + of_nat (length ts)) = Inl e" using Cons.prems(2) by (simp add: ac_simps)
  ultimately have IH: "native_formats_from api r (i + 1) acc
      = Some (Inr (acc @ List.map_filter (\<lambda>(k, t). native_of (i + 1 + of_nat k) t) (List.enumerate 0 ts)))" for acc
    by (rule Cons.IH)
  show ?case
    by (subst native_formats_from.simps) (simp add: head IH rest map_filter_simps split: option.split)
qed

text \<open>
  Reading the formats of a camera ends with the reader's list, and gives the usable ones in the reader's order,
  each with the index it was offered under.
\<close>

theorem native_formats_listed:
  assumes "\<forall>k < length ts. get_native api r (of_nat k) = Inr (ts ! k)"
    and "get_native api r (of_nat (length ts)) = Inl e" and "we_code e = MF_E_NO_MORE_TYPES"
  shows "native_formats api r = Some (Inr (List.map_filter (\<lambda>(k, t). native_of (of_nat k) t) (List.enumerate 0 ts)))"
  using native_formats_from_lists [of ts api r 0 e "[]"] assms by (simp add: native_formats_def)

section \<open>The attempts\<close>

text \<open>The reader after the first \<open>k\<close> attempts.\<close>

definition after_attempts :: "'r reader \<Rightarrow> native_format list \<Rightarrow> nat \<Rightarrow> 'r \<Rightarrow> 'r" where
  "after_attempts api ns k r = fold (\<lambda>n r. snd (try_native api n r)) (take k ns) r"

definition attempt :: "'r reader \<Rightarrow> native_format list \<Rightarrow> 'r \<Rightarrow> nat \<Rightarrow> camera_error + negotiated" where
  "attempt api ns r k = fst (try_native api (ns ! k) (after_attempts api ns k r))"

definition soft_refusal :: "camera_error + negotiated \<Rightarrow> bool" where
  "soft_refusal a \<longleftrightarrow> (case a of Inl e \<Rightarrow> worth_another_path e | Inr _ \<Rightarrow> False)"

lemma attempt_Cons: "attempt api (n # ns) r (Suc k) = attempt api ns (snd (try_native api n r)) k"
  by (simp add: attempt_def after_attempts_def)

lemma after_attempts_Cons: "after_attempts api (n # ns) (Suc k) r = after_attempts api ns k (snd (try_native api n r))"
  by (simp add: after_attempts_def)

lemma try_all_attempts:
  "\<exists>k \<le> length ns. (\<forall>j < k. soft_refusal (attempt api ns r j))
     \<and> (if k < length ns then \<not> soft_refusal (attempt api ns r k) \<and> try_all api ns refusal r
            = (attempt api ns r k, after_attempts api ns (Suc k) r)
        else try_all api ns refusal r = ((if ns = [] then Inl (case refusal of Some e \<Rightarrow> e | None \<Rightarrow> NoUsableFormat)
            else attempt api ns r (length ns - 1)), after_attempts api ns k r))"
proof (induction ns arbitrary: refusal r)
  case Nil
  then show ?case by (simp add: after_attempts_def)
next
  case (Cons n ns)
  obtain a r1 where a: "try_native api n r = (a, r1)" by (cases "try_native api n r")
  have a0: "attempt api (n # ns) r 0 = a" by (simp add: attempt_def after_attempts_def a)
  show ?case
  proof (cases "soft_refusal a")
    case False
    then have "try_all api (n # ns) refusal r = (a, r1)"
      using a by (auto simp: soft_refusal_def worth_another_path_def split: sum.splits)
    then show ?thesis using a0 False a by (intro exI [of _ 0]) (simp add: after_attempts_def)
  next
    case True
    then obtain e where e: "a = Inl e" by (auto simp: soft_refusal_def split: sum.splits)
    then have step: "try_all api (n # ns) refusal r = try_all api ns (Some e) r1"
      using True a by (simp add: soft_refusal_def worth_another_path_def)
    obtain k where k: "k \<le> length ns" "\<forall>j < k. soft_refusal (attempt api ns r1 j)"
      "if k < length ns then \<not> soft_refusal (attempt api ns r1 k) \<and> try_all api ns (Some e) r1
            = (attempt api ns r1 k, after_attempts api ns (Suc k) r1)
        else try_all api ns (Some e) r1 = ((if ns = [] then Inl e
            else attempt api ns r1 (length ns - 1)), after_attempts api ns k r1)"
      using Cons.IH [of r1 "Some e"] by (auto simp del: try_all.simps)
    have "\<forall>j < Suc k. soft_refusal (attempt api (n # ns) r j)"
      using k(2) True a0 a by (auto simp: less_Suc_eq_0_disj attempt_Cons)
    moreover have "attempt api (n # ns) r (length ns) = (if ns = [] then Inl e else attempt api ns r1 (length ns - 1))"
      using a0 e a by (cases ns) (simp_all add: attempt_Cons)
    ultimately show ?thesis
      using k(1,3) a step by (intro exI [of _ "Suc k"]) (auto simp: attempt_Cons after_attempts_Cons simp del: try_all.simps)
  qed
qed

lemma try_native_current: "try_native api n r = (Inr ng, r') \<Longrightarrow> negotiated_current api r' = Inr ng"
  by (auto simp: try_native_def split: sum.splits prod.splits if_splits bool.splits)

text \<open>
  C29. Settling on a format: the formats are tried in the ranked order, at most six; every attempt before the last failed
  in a way another format may not; the answer is the first format the reader takes, and then it is the type the reader
  says it delivers, or at once the refusal when the camera is busy or not allowed, or the refusal of the last attempt
  when all failed (no usable format when there was none to try).
\<close>

theorem negotiation_outcome:
  fixes ceil :: dims and fps :: u32
  assumes "select_video api (deselect_all api r0) = (Inr (), r)" and "native_formats api r = Some (Inr natives)"
  defines "ns \<equiv> ranked natives ceil fps"
  shows "\<exists>k answer r'. mf_negotiate api ceil fps r0 = Some (answer, r') \<and> k \<le> 6 \<and> k \<le> length ns
    \<and> (\<forall>j < k. soft_refusal (attempt api ns r j))
    \<and> answer = (if k < length ns then attempt api ns r k
         else if ns = [] then Inl NoUsableFormat else attempt api ns r (length ns - 1))
    \<and> (k < length ns \<longrightarrow> \<not> soft_refusal (attempt api ns r k))
    \<and> (\<forall>ng. answer = Inr ng \<longrightarrow> negotiated_current api r' = Inr ng)"
proof -
  obtain k where k: "k \<le> length ns" "\<forall>j < k. soft_refusal (attempt api ns r j)"
    "if k < length ns then \<not> soft_refusal (attempt api ns r k) \<and> try_all api ns None r
            = (attempt api ns r k, after_attempts api ns (Suc k) r)
        else try_all api ns None r = ((if ns = [] then Inl NoUsableFormat
            else attempt api ns r (length ns - 1)), after_attempts api ns k r)"
    using try_all_attempts [of ns api r None] by auto
  have "length ns \<le> 6" by (simp add: ns_def ranked_def MAX_ATTEMPTS_def)
  moreover have "mf_negotiate api ceil fps r0 = Some (try_all api ns None r)"
    using assms(1,2) by (simp add: mf_negotiate_def ns_def)
  moreover have "negotiated_current api (after_attempts api ns (Suc k) r) = Inr ng" if "k < length ns" "attempt api ns r k = Inr ng" for ng
  proof -
    have "after_attempts api ns (Suc k) r = snd (try_native api (ns ! k) (after_attempts api ns k r))"
      using that(1) by (simp add: after_attempts_def take_Suc_conv_app_nth)
    then show ?thesis using that(2) try_native_current [of api "ns ! k" "after_attempts api ns k r" ng] by (auto simp: attempt_def prod_eq_iff)
  qed
  moreover have "attempt api ns r (length ns - 1) \<noteq> Inr ng" if "\<not> k < length ns" "ns \<noteq> []" for ng
    using k(1,2) that by (auto simp: soft_refusal_def dest!: spec [of _ "length ns - 1"])
  ultimately show ?thesis using k by (intro exI [of _ k]) auto
qed

text \<open>A refusal leaves the camera closed, so that DirectShow can open it.\<close>

lemma mf_refusal_releases: "mf_open api session source reader ceil fps = Some (Inl e, kept) \<Longrightarrow> \<not> kept"
  by (auto simp: mf_open_def split: sum.splits) (metis sum.exhaust)

section \<open>Reading frames\<close>

definition small_size :: "dims \<Rightarrow> bool" where
  "small_size sz \<longleftrightarrow> unat (sz_width sz) < 2 ^ 28 \<and> unat (sz_height sz) < 2 ^ 30"

text \<open>
  What \<^verbatim>\<open>IMF2DBuffer\<close> documents: the pointer is the top row's, the rows are a pitch apart, below it when the pitch is
  positive (with the chroma of a planar format behind them) and above it when it is negative.
\<close>

definition sample_ok :: "negotiated \<Rightarrow> media_buffer \<Rightarrow> bool" where
  "sample_ok layout buf \<longleftrightarrow>
     (case buf of
        Two_D (Some (Some (mem, scan), pitch)) \<Rightarrow>
          (let span = nat \<bar>sint pitch\<bar>; h = unat (sz_height (ng_size layout)) in
           if sint pitch > 0 then scan + needed (ng_pixels layout) span (sz_height (ng_size layout)) \<le> length mem
           else span * (h - 1) \<le> scan \<and> scan + span \<le> length mem)
      | _ \<Rightarrow> True)"

lemma abs_sint_small: "nat \<bar>sint (v :: i32)\<bar> < 2 ^ 32"
proof -
  have "sint v < 2147483648" "- 2147483648 \<le> sint v" using sint_less [of v] sint_ge [of v] by simp_all
  then have "nat \<bar>sint v\<bar> \<le> 2147483648" by (simp add: nat_le_iff abs_le_iff)
  also have "\<dots> < 2 ^ 32" by simp
  finally show ?thesis .
qed

lemma two_d_raw_some:
  assumes "sample_ok layout (Two_D (Some (Some (mem, scan), pitch)))" and "2 \<le> unat (sz_height (ng_size layout))"
  shows "\<exists>raw. two_d_raw layout mem scan pitch = Some raw \<and> raw_pitch raw < 2 ^ 32"
proof (cases "sint pitch > 0")
  case True
  then show ?thesis
    using assms(1) abs_sint_small [of pitch] by (auto simp: sample_ok_def two_d_raw_def slice_def Let_def)
next
  case False
  define span h where "span = nat \<bar>sint pitch\<bar>" and "h = unat (sz_height (ng_size layout))"
  have ok: "span * (h - 1) \<le> scan" "scan + span \<le> length mem" "h \<noteq> 0"
    using assms False by (simp_all add: sample_ok_def Let_def span_def h_def)
  have "span * h = span * (h - 1) + span" using ok(3) by (cases h) simp_all
  then have "scan - span * (h - 1) + span * h \<le> length mem" using ok by linarith
  then show ?thesis
    using False ok abs_sint_small [of pitch]
    by (simp add: two_d_raw_def slice_def Let_def flip: span_def h_def) (simp add: span_def)
qed

lemma read_frame_total:
  assumes "media_laws md" and "small_size (ng_size layout)" and "sample_ok layout buf"
    and "holds_picture b (sz_width (ng_size layout)) (sz_height (ng_size layout))" and "2 \<le> unat (sz_height (ng_size layout))"
  shows "\<exists>ok conv' nv. read_frame md layout buf conv b = Some (ok, conv', nv)
    \<and> holds_picture nv (sz_width (ng_size layout)) (sz_height (ng_size layout)) \<and> cv_kind conv' = cv_kind conv"
proof -
  have size: "unat (sz_width (ng_size layout)) < 2 ^ 30" "unat (sz_height (ng_size layout)) < 2 ^ 30"
    using assms(2) by (simp_all add: small_size_def)
  have taken: "\<exists>ok conv' nv. converter_write (md_yuv md) conv raw (ng_size layout) b = Some (ok, conv', nv)
    \<and> holds_picture nv (sz_width (ng_size layout)) (sz_height (ng_size layout)) \<and> cv_kind conv' = cv_kind conv"
    if "raw_pitch raw < 2 ^ 32" for raw
    using write_fills [OF assms(1) size that assms(4), of conv] by blast
  consider "buf = No_Contiguous" | "buf = Two_D None" | pitch where "buf = Two_D (Some (None, pitch))"
    | mem scan pitch where "buf = Two_D (Some (Some (mem, scan), pitch))" | "buf = Plain None" | data where "buf = Plain (Some data)"
    by (metis media_buffer.exhaust option.exhaust prod.exhaust)
  then show ?thesis
  proof cases
    case 4
    show ?thesis
    proof (cases "\<bar>sint pitch\<bar> > 0")
      case True
      obtain raw where "two_d_raw layout mem scan pitch = Some raw" "raw_pitch raw < 2 ^ 32"
        using two_d_raw_some assms(3,5) 4 by blast
      then show ?thesis using taken [of raw] True 4 by (simp add: read_frame_def)
    qed (use 4 assms(4) in \<open>auto simp: read_frame_def\<close>)
  next
    case 6
    then show ?thesis
      using taken abs_sint_small assms(4) by (auto simp: read_frame_def Let_def split: option.splits)
  qed (use assms(4) in \<open>auto simp: read_frame_def\<close>)
qed

section \<open>The thread follows the format\<close>

definition layout_after :: "win_error \<Rightarrow> negotiated \<Rightarrow> mf_turn \<Rightarrow> negotiated" where
  "layout_after missing layout t =
     (case mu_read t of
        Inr (flags, _) \<Rightarrow> if fl_changed flags
          then (case negotiated_of missing (mu_current t) of Inr l \<Rightarrow> l | Inl _ \<Rightarrow> layout) else layout
      | Inl _ \<Rightarrow> layout)"

fun turns_ok :: "win_error \<Rightarrow> negotiated \<Rightarrow> mf_turn list \<Rightarrow> bool" where
  "turns_ok missing layout [] = True"
| "turns_ok missing layout (t # ts) =
     (let l = layout_after missing layout t in
      small_size (ng_size l) \<and> (\<forall>flags buf. mu_read t = Inr (flags, Some buf) \<longrightarrow> sample_ok l buf) \<and> turns_ok missing l ts)"

definition turn_ends :: "win_error \<Rightarrow> mf_turn \<Rightarrow> bool" where
  "turn_ends missing t \<longleftrightarrow> mu_stop t \<or> (case mu_read t of
     Inl _ \<Rightarrow> True
   | Inr (flags, _) \<Rightarrow> fl_error flags \<or> fl_end flags
       \<or> fl_changed flags \<and> (\<exists>e. negotiated_of missing (mu_current t) = Inl e))"

lemma mf_turn_step_total:
  assumes "media_laws md" and "scratch_ok s" and "cv_kind conv = ng_pixels layout" and "turns_ok missing layout [t]"
  shows "\<exists>e l conv' s'. mf_turn_step md missing t (layout, conv, s) = Some (e, l, conv', s') \<and> scratch_ok s'
    \<and> cv_kind conv' = ng_pixels l \<and> (e = Still_Running \<longleftrightarrow> \<not> turn_ends missing t)
    \<and> (e = Still_Running \<longrightarrow> l = layout_after missing layout t) \<and> (e = Run_Stopped \<longleftrightarrow> mu_stop t)"
proof (cases "turn_ends missing t")
  case True
  then show ?thesis
    using assms(2,3) by (auto simp: mf_turn_step_def turn_ends_def split: sum.splits prod.splits)
next
  case False
  then obtain flags sample where go: "\<not> mu_stop t" "mu_read t = Inr (flags, sample)" "\<not> fl_error flags" "\<not> fl_end flags"
    "fl_changed flags \<longrightarrow> (\<exists>l. negotiated_of missing (mu_current t) = Inr l)"
    by (auto simp: turn_ends_def split: sum.splits prod.splits) (metis sum.exhaust)
  define l where "l = layout_after missing layout t"
  define c0 where "c0 = (if fl_changed flags \<and> cv_kind conv \<noteq> ng_pixels l then converter_new (ng_pixels l) else conv)"
  have c0: "(if fl_changed flags
       then map_sum id (\<lambda>now. (now, if cv_kind conv \<noteq> ng_pixels now then converter_new (ng_pixels now) else conv))
              (negotiated_of missing (mu_current t))
       else Inr (layout, conv)) = Inr (l, c0)" "cv_kind c0 = ng_pixels l"
    using go assms(3) by (cases "fl_changed flags"; auto simp: c0_def l_def layout_after_def converter_new_def)+
  show ?thesis
  proof (cases sample)
    case None
    then show ?thesis using go c0 assms(2) False by (auto simp: mf_turn_step_def l_def)
  next
    case (Some buf)
    have ok: "small_size (ng_size l)" "sample_ok l buf" using assms(4) go(2) Some by (simp_all add: l_def Let_def)
    have size: "unat (sz_width (ng_size l)) < 2 ^ 30" "unat (sz_height (ng_size l)) < 2 ^ 30"
      using ok(1) by (simp_all add: small_size_def)
    have "\<exists>out conv' s'. deliver md (mu_control t) (mu_now t) (mu_accepts t) (ng_size l) (read_frame md l buf) c0 s
        = Some (out, conv', s') \<and> scratch_ok s' \<and> cv_kind conv' = ng_pixels l"
      using deliver_total [OF assms(1,2) size, of "read_frame md l buf" c0 "\<lambda>cv. cv_kind cv = ng_pixels l"
        "mu_control t" "mu_now t" "mu_accepts t"] read_frame_total [OF assms(1) ok(1,2)] c0(2) by fastforce
    then show ?thesis using go c0 Some False by (auto simp: mf_turn_step_def l_def)
  qed
qed

text \<open>
  The camera thread: from any format and any turns whose buffers are what \<^verbatim>\<open>IMF2DBuffer\<close> documents, no frame makes
  it panic or read outside a buffer; the converter is always the one of the format in force, also after the driver
  changed it on the way; and it goes on exactly as long as nobody stops it and Windows reports no failure, no end of the
  stream and no format it cannot read.
\<close>

theorem mf_run_follows_format:
  assumes "media_laws md" and "turns_ok missing layout ts"
  shows "\<exists>e l conv s. mf_run md missing layout ts (scratch_new ceil preview) = Some (e, l, conv, s)
    \<and> cv_kind conv = ng_pixels l \<and> (e = Still_Running \<longleftrightarrow> (\<forall>t \<in> set ts. \<not> turn_ends missing t))"
proof -
  have "\<exists>e l' conv' s'. mf_turns md missing ts (layout, conv, s) = Some (e, l', conv', s')
    \<and> cv_kind conv' = ng_pixels l' \<and> (e = Still_Running \<longleftrightarrow> (\<forall>t \<in> set ts. \<not> turn_ends missing t))"
    if "scratch_ok s" "cv_kind conv = ng_pixels layout" for conv s
    using assms(2) that
  proof (induction ts arbitrary: layout conv s)
    case (Cons t ts)
    have "turns_ok missing layout [t]" using Cons.prems(1) by (simp add: Let_def)
    from mf_turn_step_total [OF assms(1) Cons.prems(2,3) this] obtain e l conv' s' where
      step: "mf_turn_step md missing t (layout, conv, s) = Some (e, l, conv', s')" "scratch_ok s'" "cv_kind conv' = ng_pixels l"
      "e = Still_Running \<longleftrightarrow> \<not> turn_ends missing t" "e = Still_Running \<longrightarrow> l = layout_after missing layout t"
      by blast
    show ?case
    proof (cases "e = Still_Running")
      case True
      then have "turns_ok missing l ts" using Cons.prems(1) step(5) by (simp add: Let_def)
      from Cons.IH [OF this step(2,3)] step True show ?thesis by auto
    next
      case False
      with step show ?thesis by auto
    qed
  qed simp
  moreover have "scratch_ok (scratch_new ceil preview)" by (simp add: scratch_ok_def scratch_new_def)
  ultimately show ?thesis by (simp add: mf_run_def converter_new_def)
qed

section \<open>Examples\<close>

text \<open>A camera with one format, YUY2 at 640x480 and 30 frames a second, and one turn with a 4x2 frame of it.\<close>

definition no_more_types :: win_error where
  "no_more_types = \<lparr>we_code = MF_E_NO_MORE_TYPES, we_text = ''fim''\<rparr>"

definition yuy2_type :: media_type where
  "yuy2_type = \<lparr>mt_frame_size = Some 2748779069920, mt_frame_rate = Some 128849018881, mt_subtype = Some MEDIASUBTYPE_YUY2,
     mt_default_stride = None\<rparr>"

definition one_format :: "unit reader" where
  "one_format = \<lparr>get_native = (\<lambda>r i. if i = 0 then Inr yuy2_type else Inl no_more_types), get_current = (\<lambda>r. Inr yuy2_type),
     set_current = (\<lambda>rq r. (Inr (), r)), deselect_all = id, select_video = (\<lambda>r. (Inr (), r)), no_attribute = no_more_types\<rparr>"

lemma yuy2_size: "frame_size yuy2_type = Some \<lparr>sz_width = 640, sz_height = 480\<rparr>" "frame_rate yuy2_type = Some 30"
  by code_simp+

lemma one_format_native: "native_of 0 yuy2_type = Some \<lparr>na_index = 0, na_format = vga, na_pixels = Some Yuy2\<rparr>"
  unfolding native_of_def yuy2_size by (simp add: vga_def) (simp add: yuy2_type_def)

theorem native_formats_listed_witness:
  "native_formats one_format () = Some (Inr [\<lparr>na_index = 0, na_format = vga, na_pixels = Some Yuy2\<rparr>])"
  using native_formats_listed [of "[yuy2_type]" one_format "()" no_more_types] one_format_native
  by (simp add: one_format_def no_more_types_def map_filter_simps)

lemma one_format_listed: "native_formats one_format () = Some (Inr [\<lparr>na_index = 0, na_format = vga, na_pixels = Some Yuy2\<rparr>])"
  using native_formats_from_lists [of "[yuy2_type]" one_format "()" 0 no_more_types "[]"] one_format_native
  by (simp add: native_formats_def one_format_def no_more_types_def map_filter_simps)

theorem negotiation_outcome_witness:
  "\<exists>answer r'. mf_negotiate one_format hd_ceiling 30 () = Some (answer, r')"
  using negotiation_outcome [OF _ one_format_listed, of "()" hd_ceiling 30] by (auto simp: one_format_def)

definition tiny_layout :: negotiated where
  "tiny_layout = \<lparr>ng_size = tiny, ng_pixels = Yuy2, ng_stride = None\<rparr>"

definition frame_turn :: mf_turn where
  "frame_turn = \<lparr>mu_stop = False,
     mu_read = Inr (\<lparr>fl_error = False, fl_end = False, fl_changed = False\<rparr>, Some (Two_D (Some (Some (raw_data tiny_yuy2, 12), - 12)))),
     mu_current = Inr yuy2_type, mu_control = control_new, mu_now = 0, mu_accepts = (\<lambda>b. True)\<rparr>"

definition stop_turn :: mf_turn where
  "stop_turn = frame_turn\<lparr>mu_stop := True\<rparr>"

theorem mf_run_follows_format_witness:
  "\<exists>e l conv s. mf_run plain_media no_more_types tiny_layout [frame_turn, stop_turn] (scratch_new tiny None) = Some (e, l, conv, s)
     \<and> e \<noteq> Still_Running"
proof -
  have "turns_ok no_more_types tiny_layout [frame_turn, stop_turn]"
    by (simp add: frame_turn_def stop_turn_def layout_after_def tiny_layout_def small_size_def tiny_def sample_ok_def
      tiny_yuy2_def Let_def)
  from mf_run_follows_format [OF plain_media_laws this, of tiny None] obtain e l conv s where
    "mf_run plain_media no_more_types tiny_layout [frame_turn, stop_turn] (scratch_new tiny None) = Some (e, l, conv, s)"
    "e = Still_Running \<longleftrightarrow> (\<forall>t \<in> set [frame_turn, stop_turn]. \<not> turn_ends no_more_types t)"
    by blast
  then show ?thesis by (auto simp: stop_turn_def turn_ends_def)
qed

end
