(* ===== verification/Camera_DShow.thy ===== *)
theory Camera_DShow
  imports Camera_MF
begin

text \<open>
  \<^verbatim>\<open>desktop/src-tauri/src/camera/dshow.rs\<close>: the DirectShow path.  Windows' side (the monikers, the device's pins and
  capabilities, the graph and its events, the samples) is a parameter; ours is the negotiation, the wait, and the sink
  filter with its one pin, whose COM methods are the operations below.  An \<^verbatim>\<open>AM_MEDIA_TYPE\<close> is the fields the code
  reads or writes; reference counting and the freeing of media types are not modelled.
\<close>

section \<open>Devices\<close>

text \<open>A moniker: its display name, \<^verbatim>\<open>FriendlyName\<close> and \<^verbatim>\<open>DevicePath\<close>.\<close>

record moniker =
  mk_display :: string
  mk_friendly :: "string option"
  mk_device_path :: "string option"

definition path_of :: "string \<Rightarrow> string option" where
  "path_of name = strip_prefix PNP_PREFIX name"

definition ds_list :: "moniker list \<Rightarrow> ds_device list" where
  "ds_list ms = map (\<lambda>m. \<lparr>dd_moniker = mk_display m,
     dd_name = (case mk_friendly m of None \<Rightarrow> CAMERA_NAME | Some n \<Rightarrow> n),
     dd_path = (case path_of (mk_display m) of Some p \<Rightarrow> Some p | None \<Rightarrow> mk_device_path m)\<rparr>) ms"

definition counterpart :: "ds_device list \<Rightarrow> camera_device list \<Rightarrow> string \<Rightarrow> string option" where
  "counterpart devices native mf_id =
     (let by_key = Option.bind (device_key mf_id) (\<lambda>key.
            find (\<lambda>d. Option.bind (dd_path d) device_key = Some key) devices) in
      case by_key of
        Some d \<Rightarrow> Some (dd_moniker d)
      | None \<Rightarrow>
          Option.bind (name_of native mf_id) (\<lambda>name.
            case filter (\<lambda>d. dd_name d = name) devices of
              [d] \<Rightarrow> Some (dd_moniker d)
            | _ \<Rightarrow> None))"

section \<open>Media types\<close>

text \<open>\<^verbatim>\<open>VIDEOINFOHEADER\<close>, of 88 bytes; \<open>vh_rest\<close> is what of the block the code only copies.\<close>

record video_header =
  vh_width :: i32
  vh_height :: i32
  vh_time :: i64
  vh_rest :: bytes

record am_type =
  am_video :: bool
  am_video_info :: bool
  am_subtype :: subtype
  am_cb_format :: nat
  am_format :: "video_header option"
  am_sample_size :: u32

definition VIDEOINFOHEADER_SIZE :: nat where "VIDEOINFOHEADER_SIZE = 88"

record shape =
  sh_kind :: pixels
  sh_size :: dims
  sh_bottom_up :: bool
  sh_subtype :: subtype
  sh_format :: "nat \<times> video_header"

text \<open>\<^verbatim>\<open>i32::abs\<close>, which wraps in a release build.\<close>

definition i32_abs :: "i32 \<Rightarrow> i32" where
  "i32_abs v = (if sint v < 0 then - v else v)"

definition shape_of :: "am_type \<Rightarrow> shape option" where
  "shape_of m =
     (if \<not> am_video m \<or> \<not> am_video_info m then None
      else case am_format m of
        None \<Rightarrow> None
      | Some header \<Rightarrow>
          if am_cb_format m < VIDEOINFOHEADER_SIZE then None
          else case from_subtype (am_subtype m) of
            None \<Rightarrow> None
          | Some kind \<Rightarrow>
              let width = vh_width header; height = i32_abs (vh_height header);
                  bottom_up = ((kind = Rgb32 \<or> kind = Rgb24) \<and> sint (vh_height header) > 0) in
              if sint width < 2 \<or> sint height < 2 \<or> sint width mod 2 \<noteq> 0 \<or> sint height mod 2 \<noteq> 0 then None
              else Some \<lparr>sh_kind = kind, sh_size = \<lparr>sz_width = width, sz_height = height\<rparr>, sh_bottom_up = bottom_up,
                sh_subtype = am_subtype m, sh_format = (am_cb_format m, header)\<rparr>)"

text \<open>\<^verbatim>\<open>write_media_type\<close>, when the block for the format can be allocated.\<close>

definition write_media_type :: "shape \<Rightarrow> am_type" where
  "write_media_type s =
     \<lparr>am_video = True, am_video_info = True, am_subtype = sh_subtype s, am_cb_format = fst (sh_format s),
      am_format = Some (snd (sh_format s)), am_sample_size = of_nat (frame_bytes (sh_kind s) (sh_size s))\<rparr>"

section \<open>Negotiation\<close>

text \<open>\<^verbatim>\<open>IAMStreamConfig\<close> of the camera's pin.\<close>

record stream_config =
  cf_count :: "win_error + int \<times> bool"
  cf_caps :: "nat \<Rightarrow> (am_type \<times> stream_caps) option"
  cf_again :: "nat \<Rightarrow> win_error + am_type"
  cf_set :: "am_type \<Rightarrow> win_error + unit"

definition candidates_of :: "stream_config \<Rightarrow> nat \<Rightarrow> u32 \<Rightarrow> (nat \<times> vformat \<times> pixels) list" where
  "candidates_of cf n fps =
     List.map_filter (\<lambda>i. Option.bind (cf_caps cf i) (\<lambda>(m, caps).
       map_option (\<lambda>sh. (i, \<lparr>vf_size = sh_size sh, vf_fps = achievable_fps caps fps\<rparr>, sh_kind sh)) (shape_of m))) [0..<n]"

definition saw_video :: "stream_config \<Rightarrow> nat \<Rightarrow> bool" where
  "saw_video cf n \<longleftrightarrow> (\<exists>i \<in> set [0..<n]. \<exists>m \<in> set_option (map_option fst (cf_caps cf i)). am_video m)"

text \<open>\<^verbatim>\<open>usize::MAX\<close> for a kind that is not in the list.\<close>

definition preference_of :: "pixels \<Rightarrow> nat" where
  "preference_of kind = (case position kind PREFERENCE of None \<Rightarrow> 2 ^ 64 - 1 | Some i \<Rightarrow> i)"

definition set_rate :: "u32 \<Rightarrow> am_type \<Rightarrow> am_type" where
  "set_rate fps m =
     (if fps > 0 then m\<lparr>am_format := map_option (\<lambda>h. h\<lparr>vh_time := word_of_int (10000000 div int (unat fps))\<rparr>) (am_format m)\<rparr>
      else m)"

definition ds_negotiate :: "stream_config option \<Rightarrow> dims \<Rightarrow> u32 \<Rightarrow> camera_error + shape" where
  "ds_negotiate config ceil fps =
     (case config of
        None \<Rightarrow> Inl NoUsableFormat
      | Some cf \<Rightarrow>
          (case cf_count cf of
             Inl e \<Rightarrow> Inl (from_hresult e ''lendo os formatos'')
           | Inr (many, caps_size_ok) \<Rightarrow>
               if many \<le> 0 \<or> \<not> caps_size_ok then Inl NoUsableFormat
               else
                 let candidates = candidates_of cf (nat many) fps in
                 if candidates = [] then Inl (if saw_video cf (nat many) then OnlyCompressed else NoUsableFormat)
                 else case choose_format (map (fst \<circ> snd) candidates) ceil fps of
                   None \<Rightarrow> Inl NoUsableFormat
                 | Some chosen \<Rightarrow>
                     (case min_by_key (\<lambda>(_, _, kind). preference_of kind)
                          (filter (\<lambda>(_, f, _). vf_size f = vf_size chosen \<and> vf_fps f = vf_fps chosen) candidates) of
                        None \<Rightarrow> Inl NoUsableFormat
                      | Some (i, format, _) \<Rightarrow>
                          (case cf_again cf i of
                             Inl e \<Rightarrow> Inl (from_hresult e ''relendo o formato escolhido'')
                           | Inr m \<Rightarrow>
                               let m' = set_rate (vf_fps format) m;
                                   shape = (case shape_of m' of Some sh \<Rightarrow> Some sh | None \<Rightarrow> shape_of m) in
                               (case cf_set cf m' of
                                  Inl e \<Rightarrow> Inl (from_hresult e ''fixando o formato'')
                                | Inr _ \<Rightarrow> (case shape of None \<Rightarrow> Inl NoUsableFormat | Some sh \<Rightarrow> Inr sh))))))"

text \<open>\<^verbatim>\<open>output_pin\<close>: a pin is its direction, when it says one, and its \<^verbatim>\<open>IAMStreamConfig\<close>, when it has one.\<close>

datatype pin_direction = PINDIR_INPUT | PINDIR_OUTPUT

definition output_pin :: "win_error + (pin_direction option \<times> 'p \<times> bool) list \<Rightarrow> camera_error + 'p" where
  "output_pin pins =
     (case pins of
        Inl e \<Rightarrow> Inl (from_hresult e ''listando os pinos da camera'')
      | Inr ps \<Rightarrow>
          let outs = filter (\<lambda>(dir, _, _). dir = Some PINDIR_OUTPUT) ps in
          (case find (\<lambda>(_, _, config). config) outs of
             Some (_, p, _) \<Rightarrow> Inr p
           | None \<Rightarrow> (case outs of [] \<Rightarrow> Inl NoUsableFormat | (_, p, _) # _ \<Rightarrow> Inr p)))"

section \<open>The graph\<close>

text \<open>Each call \<^verbatim>\<open>build\<close> makes, as Windows answers it; the pins carry their own configuration.\<close>

record graph_api =
  ga_walked :: "win_error + bool"
  ga_create :: "win_error + unit"
  ga_add_camera :: "win_error + unit"
  ga_pins :: "win_error + (pin_direction option \<times> stream_config option \<times> bool) list"
  ga_add_sink :: "win_error + unit"
  ga_connect :: "win_error + unit"
  ga_control :: "win_error + unit"
  ga_events :: "win_error + unit"
  ga_run :: "win_error + unit"

definition or_refuse :: "string \<Rightarrow> win_error + 'a \<Rightarrow> camera_error + 'a" where
  "or_refuse ctx r = map_sum (\<lambda>e. from_hresult e ctx) id r"

definition ds_build :: "graph_api \<Rightarrow> dims \<Rightarrow> u32 \<Rightarrow> camera_error + shape" where
  "ds_build ga ceil fps =
     res_bind (or_refuse ''procurando a camera'' (ga_walked ga)) (\<lambda>bound.
     if \<not> bound then Inl Gone
     else
       res_bind (or_refuse ''criando o grafo'' (ga_create ga)) (\<lambda>_.
       res_bind (or_refuse ''ligando a camera ao grafo'' (ga_add_camera ga)) (\<lambda>_.
       res_bind (output_pin (ga_pins ga)) (\<lambda>config.
       res_bind (ds_negotiate config ceil fps) (\<lambda>shape.
       res_bind (or_refuse ''ligando o destino ao grafo'' (ga_add_sink ga)) (\<lambda>_.
       res_bind (or_refuse ''conectando a camera ao destino'' (ga_connect ga)) (\<lambda>_.
       res_bind (or_refuse ''controlando o grafo'' (ga_control ga)) (\<lambda>_.
       res_bind (or_refuse ''ouvindo o grafo'' (ga_events ga)) (\<lambda>_.
       res_bind (or_refuse ''iniciando a camera'' (ga_run ga)) (\<lambda>_. Inr shape))))))))))"

definition ds_start :: "bool \<Rightarrow> (camera_error + 'a) option \<Rightarrow> camera_error + 'a" where
  "ds_start spawned built =
     (if \<not> spawned then Inl (Platform_Error ''nao consegui criar a thread'')
      else case built of
        Some r \<Rightarrow> r
      | None \<Rightarrow> Inl (Platform_Error ''a thread da camera terminou antes de abrir''))"

text \<open>\<^verbatim>\<open>pump\<close>: turns of a stop flag and what \<^verbatim>\<open>GetEvent\<close> brings within 200 ms.\<close>

record graph_event =
  ge_code :: int
  ge_first :: u64
  ge_second :: i64

record pump_turn =
  pt_stop :: bool
  pt_event :: "graph_event option"

definition EC_ERRORABORT :: int where "EC_ERRORABORT = 3"
definition EC_DEVICE_LOST :: int where "EC_DEVICE_LOST = 31"

datatype lost_reason = Disconnected | Interrupted u64 string

datatype pump_end = Pumping | Pump_Stopped | Pump_Lost lost_reason

fun pump :: "string \<Rightarrow> pump_turn list \<Rightarrow> pump_end" where
  "pump negotiated [] = Pumping"
| "pump negotiated (t # ts) =
     (if pt_stop t then Pump_Stopped
      else case pt_event t of
        None \<Rightarrow> pump negotiated ts
      | Some ev \<Rightarrow>
          if ge_code ev = EC_DEVICE_LOST \<and> ge_second ev \<noteq> 1 then Pump_Lost Disconnected
          else if ge_code ev = EC_ERRORABORT then Pump_Lost (Interrupted (ge_first ev) negotiated)
          else pump negotiated ts)"

section \<open>The sink filter\<close>

datatype com_error =
    S_FALSE | E_UNEXPECTED | E_NOTIMPL | E_OUTOFMEMORY | VFW_E_NOT_CONNECTED | VFW_E_NO_ALLOCATOR | VFW_E_TYPE_NOT_ACCEPTED
  | Windows_Error win_error

datatype filter_state = State_Stopped | State_Paused | State_Running

text \<open>\<^verbatim>\<open>SinkFilter\<close>, without its pin; the graph is known without a reference, the clock with one.\<close>

record sink_filter =
  fi_state :: filter_state
  fi_graph :: "nat option"
  fi_clock :: "nat option"

definition filter_new :: sink_filter where
  "filter_new = \<lparr>fi_state = State_Stopped, fi_graph = None, fi_clock = None\<rparr>"

definition filter_stop :: "sink_filter \<Rightarrow> sink_filter" where "filter_stop f = f\<lparr>fi_state := State_Stopped\<rparr>"
definition filter_pause :: "sink_filter \<Rightarrow> sink_filter" where "filter_pause f = f\<lparr>fi_state := State_Paused\<rparr>"
definition filter_run :: "sink_filter \<Rightarrow> sink_filter" where "filter_run f = f\<lparr>fi_state := State_Running\<rparr>"

definition set_sync_source :: "nat option \<Rightarrow> sink_filter \<Rightarrow> sink_filter" where
  "set_sync_source clock f = f\<lparr>fi_clock := clock\<rparr>"

definition get_sync_source :: "sink_filter \<Rightarrow> com_error + nat" where
  "get_sync_source f = (case fi_clock f of Some c \<Rightarrow> Inr c | None \<Rightarrow> Inl E_UNEXPECTED)"

definition join_filter_graph :: "nat option \<Rightarrow> sink_filter \<Rightarrow> sink_filter" where
  "join_filter_graph graph f = f\<lparr>fi_graph := graph\<rparr>"

definition PIN_NAME :: string where "PIN_NAME = ''In''"

text \<open>\<^verbatim>\<open>FindPin\<close>; \<open>None\<close> for an id that is not UTF-16.\<close>

definition find_pin :: "string option \<Rightarrow> com_error + unit" where
  "find_pin i = (if (case i of None \<Rightarrow> [] | Some s \<Rightarrow> s) = PIN_NAME then Inr () else Inl VFW_E_NOT_CONNECTED)"

text \<open>\<^verbatim>\<open>write_name\<close>: UTF-16 units into an array of 128; \<open>None\<close> is a panic.\<close>

definition write_name :: "16 word list \<Rightarrow> 16 word list \<Rightarrow> 16 word list option" where
  "write_name target name =
     (let wide = take 127 name in
      Option.bind (copy_at target 0 wide) (\<lambda>named.
        if length wide < length named then Some (named[length wide := 0]) else None))"

section \<open>The enumerator of the pin\<close>

definition enum_next :: "u32 \<Rightarrow> bool \<Rightarrow> u32 \<Rightarrow> (u32 \<times> bool) \<times> u32" where
  "enum_next many target_ok pos =
     (let (written, pos') = (if many > 0 \<and> pos = 0 \<and> target_ok then (1, 1) else (0, pos)) in
      ((written, written = many), pos'))"

definition enum_skip :: "u32 \<Rightarrow> u32 \<Rightarrow> (com_error + unit) \<times> u32" where
  "enum_skip many pos =
     (let pos' = (if unat pos + unat many < 2 ^ 32 then pos + many else - 1) in
      (if pos' > 1 then Inl S_FALSE else Inr (), pos'))"

definition enum_reset :: "u32 \<Rightarrow> u32" where "enum_reset pos = 0"

section \<open>The pin\<close>

record sink =
  sk_frames :: frames
  sk_converter :: converter
  sk_shape :: shape

record sink_pin =
  sp_sink :: sink
  sp_peer :: "nat option"

definition sink_build :: "frames \<Rightarrow> shape \<Rightarrow> sink_pin" where
  "sink_build s shape =
     \<lparr>sp_sink = \<lparr>sk_frames = s, sk_converter = converter_new (sh_kind shape), sk_shape = shape\<rparr>, sp_peer = None\<rparr>"

definition take_shape :: "shape \<Rightarrow> sink \<Rightarrow> sink" where
  "take_shape shape k =
     k\<lparr>sk_converter := (if cv_kind (sk_converter k) \<noteq> sh_kind shape then converter_new (sh_kind shape) else sk_converter k),
       sk_shape := shape\<rparr>"

text \<open>
  A sample: the type it announces (\<open>None\<close>: it does not say, or a null pointer), what \<^verbatim>\<open>GetPointer\<close> answers (with
  the memory behind it, \<open>None\<close> for null), and its length.  With it, what the preview and the sink answer at that moment.
\<close>

record sample =
  sa_type :: "am_type option"
  sa_pointer :: "win_error + bytes option"
  sa_length :: i32
  sa_control :: control
  sa_now :: instant
  sa_accepts :: "nv12 \<Rightarrow> bool"

text \<open>\<^verbatim>\<open>take\<close>; \<open>None\<close> is a panic or a slice that leaves the sample's memory.\<close>

definition pin_take :: "media \<Rightarrow> sample \<Rightarrow> sink \<Rightarrow> ((com_error + unit) \<times> sink) option" where
  "pin_take md sa k0 =
     (let k = (case Option.bind (sa_type sa) shape_of of None \<Rightarrow> k0 | Some shape \<Rightarrow> take_shape shape k0) in
      case sa_pointer sa of
        Inl e \<Rightarrow> Some (Inl (Windows_Error e), k)
      | Inr None \<Rightarrow> Some (Inr (), k)
      | Inr (Some mem) \<Rightarrow>
          if sint (sa_length sa) \<le> 0 then Some (Inr (), k)
          else
            let shape = sk_shape k; required = frame_bytes (sh_kind shape) (sh_size shape) in
            if unat (sa_length sa) < required then Some (Inr (), k)
            else Option.bind (slice mem 0 required) (\<lambda>data.
              let raw = \<lparr>raw_data = data, raw_pitch = px_stride (sh_kind shape) (sz_width (sh_size shape)),
                         raw_bottom_up = sh_bottom_up shape\<rparr> in
              map_option (\<lambda>(_, conv, s). (Inr (), k\<lparr>sk_converter := conv, sk_frames := s\<rparr>))
                (deliver md (sa_control sa) (sa_now sa) (sa_accepts sa) (sh_size shape)
                   (\<lambda>cv. converter_write (md_yuv md) cv raw (sh_size shape)) (sk_converter k) (sk_frames k))))"

definition pin_receive :: "media \<Rightarrow> sample \<Rightarrow> sink_pin \<Rightarrow> ((com_error + unit) \<times> sink_pin) option" where
  "pin_receive md sa p = map_option (\<lambda>(r, k). (r, p\<lparr>sp_sink := k\<rparr>)) (pin_take md sa (sp_sink p))"

text \<open>\<^verbatim>\<open>ReceiveMultiple\<close> over the samples up to the first null one.\<close>

fun receive_all :: "media \<Rightarrow> sample option list \<Rightarrow> int \<Rightarrow> sink_pin \<Rightarrow> ((com_error + int) \<times> sink_pin) option" where
  "receive_all md [] n p = Some (Inr n, p)"
| "receive_all md (None # sas) n p = Some (Inr n, p)"
| "receive_all md (Some sa # sas) n p =
     Option.bind (pin_receive md sa p) (\<lambda>(r, p'). case r of
       Inl e \<Rightarrow> Some (Inl e, p')
     | Inr _ \<Rightarrow> receive_all md sas (n + 1) p')"

definition receive_multiple :: "media \<Rightarrow> sample option list option \<Rightarrow> int \<Rightarrow> sink_pin \<Rightarrow> ((com_error + int) \<times> sink_pin) option" where
  "receive_multiple md samples many p =
     (case samples of
        None \<Rightarrow> Some (Inl E_UNEXPECTED, p)
      | Some sas \<Rightarrow> if many < 0 then Some (Inl E_UNEXPECTED, p) else receive_all md (take (nat many) sas) 0 p)"

definition receive_connection :: "nat option \<Rightarrow> am_type \<Rightarrow> sink_pin \<Rightarrow> (com_error + unit) \<times> sink_pin" where
  "receive_connection peer media p =
     (case shape_of media of
        None \<Rightarrow> (Inl VFW_E_TYPE_NOT_ACCEPTED, p)
      | Some shape \<Rightarrow> (Inr (), p\<lparr>sp_sink := take_shape shape (sp_sink p), sp_peer := peer\<rparr>))"

definition disconnect :: "sink_pin \<Rightarrow> sink_pin" where "disconnect p = p\<lparr>sp_peer := None\<rparr>"

definition connected_to :: "sink_pin \<Rightarrow> com_error + nat" where
  "connected_to p = (case sp_peer p of Some q \<Rightarrow> Inr q | None \<Rightarrow> Inl VFW_E_NOT_CONNECTED)"

definition connection_media_type :: "sink_pin \<Rightarrow> com_error + am_type" where
  "connection_media_type p =
     (if sp_peer p = None then Inl VFW_E_NOT_CONNECTED else Inr (write_media_type (sk_shape (sp_sink p))))"

definition query_accept :: "am_type \<Rightarrow> bool" where
  "query_accept media \<longleftrightarrow> shape_of media \<noteq> None"

section \<open>What is negotiated can be read\<close>

lemma shape_of_facts:
  assumes "shape_of m = Some sh"
  shows "shape_of (write_media_type sh) = Some sh" "sh_size sh = \<lparr>sz_width = sz_width (sh_size sh), sz_height = sz_height (sh_size sh)\<rparr>"
    "from_subtype (sh_subtype sh) = Some (sh_kind sh)" "sh_bottom_up sh \<longrightarrow> can_be_bottom_up (sh_kind sh)"
    "2 \<le> unat (sz_width (sh_size sh))" "2 \<le> unat (sz_height (sh_size sh))"
  using assms
proof -
  have ge: "2 \<le> unat v" if "\<not> sint (v :: i32) < 2" for v
  proof -
    have "0 \<le> sint v" using that by simp
    from sint_nonneg_small [OF this] have "sint v = int (unat v)" by (rule sint_small(1))
    then show ?thesis using that by linarith
  qed
  obtain h where h: "am_video m" "am_video_info m" "am_format m = Some h" "\<not> am_cb_format m < VIDEOINFOHEADER_SIZE"
    "from_subtype (am_subtype m) = Some (sh_kind sh)" "\<not> sint (vh_width h) < 2" "\<not> sint (i32_abs (vh_height h)) < 2"
    and sh: "sh = \<lparr>sh_kind = sh_kind sh, sh_size = \<lparr>sz_width = vh_width h, sz_height = i32_abs (vh_height h)\<rparr>,
      sh_bottom_up = ((sh_kind sh = Rgb32 \<or> sh_kind sh = Rgb24) \<and> sint (vh_height h) > 0), sh_subtype = am_subtype m,
      sh_format = (am_cb_format m, h)\<rparr>"
    using assms by (auto simp: shape_of_def Let_def split: if_splits option.splits)
  have f: "sh_subtype sh = am_subtype m" "sh_format sh = (am_cb_format m, h)"
    "sh_size sh = \<lparr>sz_width = vh_width h, sz_height = i32_abs (vh_height h)\<rparr>"
    "sh_bottom_up sh = ((sh_kind sh = Rgb32 \<or> sh_kind sh = Rgb24) \<and> sint (vh_height h) > 0)"
    by (subst sh; simp)+
  have "shape_of (write_media_type sh) = shape_of m"
    using h(1-5) by (simp add: shape_of_def write_media_type_def f Let_def)
  then show "shape_of (write_media_type sh) = Some sh" using assms by simp
  show "sh_size sh = \<lparr>sz_width = sz_width (sh_size sh), sz_height = sz_height (sh_size sh)\<rparr>" by simp
  show "from_subtype (sh_subtype sh) = Some (sh_kind sh)" using h(5) by (simp add: f)
  show "sh_bottom_up sh \<longrightarrow> can_be_bottom_up (sh_kind sh)" by (auto simp: f can_be_bottom_up_def)
  show "2 \<le> unat (sz_width (sh_size sh))" "2 \<le> unat (sz_height (sh_size sh))"
    using ge [OF h(6)] ge [OF h(7)] by (simp_all add: f)
qed

lemma shape_of_set_rate: "shape_of (set_rate fps m) \<noteq> None \<longleftrightarrow> shape_of m \<noteq> None"
  by (cases "am_format m") (auto simp: shape_of_def set_rate_def Let_def split: option.splits)

lemma candidates_of_mem:
  "(i, f, kind) \<in> set (candidates_of cf n fps) \<longleftrightarrow>
     i < n \<and> (\<exists>m caps sh. cf_caps cf i = Some (m, caps) \<and> shape_of m = Some sh
       \<and> f = \<lparr>vf_size = sh_size sh, vf_fps = achievable_fps caps fps\<rparr> \<and> kind = sh_kind sh)"
  by (auto simp: candidates_of_def map_filter_def bind_eq_Some_conv image_iff)

text \<open>
  Negotiating with a DirectShow camera: success means that the device took a type of its own, one of the size and
  rate of the best choice and among those the cheapest to convert, with the frame rate written into it, and that the
  shape the frames will be read with is that of the type it took.  When no format can be read the error tells whether
  the camera offers video at all.
\<close>

theorem ds_negotiated:
  assumes "cf_count cf = Inr (many, True)" and "many > 0"
  shows "ds_negotiate (Some cf) ceil fps = Inr sh \<Longrightarrow> \<exists>i f kind m. (i, f, kind) \<in> set (candidates_of cf (nat many) fps)
      \<and> choose_format (map (fst \<circ> snd) (candidates_of cf (nat many) fps)) ceil fps = Some f
      \<and> (\<forall>(j, g, k) \<in> set (candidates_of cf (nat many) fps). g = f \<longrightarrow> preference_of kind \<le> preference_of k)
      \<and> cf_again cf i = Inr m \<and> cf_set cf (set_rate (vf_fps f) m) = Inr () \<and> shape_of (set_rate (vf_fps f) m) = Some sh"
    "ds_negotiate (Some cf) ceil fps = Inl OnlyCompressed \<Longrightarrow>
       (\<forall>i < nat many. \<forall>m caps. cf_caps cf i = Some (m, caps) \<longrightarrow> shape_of m = None)
       \<and> (\<exists>i < nat many. \<exists>m caps. cf_caps cf i = Some (m, caps) \<and> am_video m)"
proof -
  define cs where "cs = candidates_of cf (nat many) fps"
  have eq: "vf_size f = vf_size g \<and> vf_fps f = vf_fps g \<longleftrightarrow> f = g" for f g :: vformat by (metis vformat.equality unit_eq)
  show "\<exists>i f kind m. (i, f, kind) \<in> set (candidates_of cf (nat many) fps)
      \<and> choose_format (map (fst \<circ> snd) (candidates_of cf (nat many) fps)) ceil fps = Some f
      \<and> (\<forall>(j, g, k) \<in> set (candidates_of cf (nat many) fps). g = f \<longrightarrow> preference_of kind \<le> preference_of k)
      \<and> cf_again cf i = Inr m \<and> cf_set cf (set_rate (vf_fps f) m) = Inr () \<and> shape_of (set_rate (vf_fps f) m) = Some sh"
    if ok: "ds_negotiate (Some cf) ceil fps = Inr sh"
  proof -
    obtain chosen where chosen: "choose_format (map (fst \<circ> snd) cs) ceil fps = Some chosen"
      using ok assms by (auto simp: ds_negotiate_def Let_def cs_def split: if_splits option.splits)
    obtain i f kind where least: "min_by_key (\<lambda>(_, _, kind). preference_of kind)
        (filter (\<lambda>(_, f, _). vf_size f = vf_size chosen \<and> vf_fps f = vf_fps chosen) cs) = Some (i, f, kind)"
      using ok assms chosen by (auto simp: ds_negotiate_def Let_def cs_def split: if_splits option.splits)
    have f: "(i, f, kind) \<in> set cs" "f = chosen" "\<forall>(j, g, k) \<in> set cs. g = f \<longrightarrow> preference_of kind \<le> preference_of k"
      using min_by_key_Some [OF least] by (auto simp: eq)
    obtain m where m: "cf_again cf i = Inr m" "cf_set cf (set_rate (vf_fps f) m) = Inr ()"
      "(case shape_of (set_rate (vf_fps f) m) of Some sh \<Rightarrow> Some sh | None \<Rightarrow> shape_of m) = Some sh"
      using ok assms chosen least
      by (auto simp: ds_negotiate_def Let_def cs_def split: if_splits sum.splits) (auto split: option.splits)
    then have "shape_of (set_rate (vf_fps f) m) = Some sh"
      using shape_of_set_rate [of "vf_fps f" m] by (auto split: option.splits)
    with f m chosen show ?thesis unfolding cs_def by blast
  qed
  assume only: "ds_negotiate (Some cf) ceil fps = Inl OnlyCompressed"
  have "cs = [] \<and> saw_video cf (nat many)"
    using only assms by (auto simp: ds_negotiate_def Let_def cs_def from_hresult_def split: if_splits option.splits sum.splits)
  then have none: "(i, f, kind) \<notin> set cs" and saw: "saw_video cf (nat many)" for i f kind by simp_all
  have "shape_of m = None" if "i < nat many" "cf_caps cf i = Some (m, caps)" for i m caps
  proof (rule ccontr)
    assume "shape_of m \<noteq> None"
    then obtain s where "shape_of m = Some s" by blast
    with that have "(i, \<lparr>vf_size = sh_size s, vf_fps = achievable_fps caps fps\<rparr>, sh_kind s) \<in> set cs"
      unfolding cs_def candidates_of_mem by blast
    then show False using none by blast
  qed
  then show "(\<forall>i < nat many. \<forall>m caps. cf_caps cf i = Some (m, caps) \<longrightarrow> shape_of m = None)
       \<and> (\<exists>i < nat many. \<exists>m caps. cf_caps cf i = Some (m, caps) \<and> am_video m)"
    using saw by (auto simp: saw_video_def)
qed

section \<open>The pin under any calls\<close>

definition type_small :: "am_type \<Rightarrow> bool" where
  "type_small m \<longleftrightarrow> (\<forall>sh. shape_of m = Some sh \<longrightarrow> small_size (sh_size sh))"

text \<open>What \<^verbatim>\<open>IMediaSample\<close> documents: the memory behind the pointer has the length the sample says.\<close>

definition sample_fine :: "sample \<Rightarrow> bool" where
  "sample_fine sa \<longleftrightarrow> (\<forall>m. sa_type sa = Some m \<longrightarrow> type_small m)
     \<and> (\<forall>mem. sa_pointer sa = Inr (Some mem) \<longrightarrow> sint (sa_length sa) \<le> 0 \<or> unat (sa_length sa) \<le> length mem)"

definition sink_ok :: "sink \<Rightarrow> bool" where
  "sink_ok k \<longleftrightarrow> scratch_ok (sk_frames k) \<and> cv_kind (sk_converter k) = sh_kind (sk_shape k) \<and> small_size (sh_size (sk_shape k))"

lemma take_shape_ok: "sink_ok k \<Longrightarrow> small_size (sh_size shape) \<Longrightarrow> sink_ok (take_shape shape k)"
  by (simp add: sink_ok_def take_shape_def converter_new_def)

lemma pin_take_total:
  assumes "media_laws md" and "sink_ok k0" and "sample_fine sa"
  shows "\<exists>r k. pin_take md sa k0 = Some (r, k) \<and> sink_ok k"
proof -
  define k where "k = (case Option.bind (sa_type sa) shape_of of None \<Rightarrow> k0 | Some shape \<Rightarrow> take_shape shape k0)"
  have k: "sink_ok k"
    using assms(2,3) take_shape_ok
    by (cases "Option.bind (sa_type sa) shape_of") (auto simp: k_def sample_fine_def type_small_def bind_eq_Some_conv)
  define sh where "sh = sk_shape k"
  show ?thesis
  proof (cases "\<exists>mem. sa_pointer sa = Inr (Some mem) \<and> \<not> sint (sa_length sa) \<le> 0
      \<and> \<not> unat (sa_length sa) < frame_bytes (sh_kind sh) (sh_size sh)")
    case False
    then show ?thesis
      using k by (auto simp: pin_take_def k_def [symmetric] sh_def Let_def split: sum.splits option.splits)
  next
    case True
    then obtain mem where mem: "sa_pointer sa = Inr (Some mem)" "\<not> sint (sa_length sa) \<le> 0"
      "\<not> unat (sa_length sa) < frame_bytes (sh_kind sh) (sh_size sh)"
      by blast
    then have "frame_bytes (sh_kind sh) (sh_size sh) \<le> length mem"
      using assms(3) by (auto simp: sample_fine_def)
    then obtain data where data: "slice mem 0 (frame_bytes (sh_kind sh) (sh_size sh)) = Some data" by (simp add: slice_def)
    define raw where "raw = \<lparr>raw_data = data, raw_pitch = px_stride (sh_kind sh) (sz_width (sh_size sh)),
      raw_bottom_up = sh_bottom_up sh\<rparr>"
    have size: "unat (sz_width (sh_size sh)) < 2 ^ 28" "unat (sz_width (sh_size sh)) < 2 ^ 30" "unat (sz_height (sh_size sh)) < 2 ^ 30"
      using k by (simp_all add: sink_ok_def small_size_def sh_def)
    have pitch: "raw_pitch raw < 2 ^ 32"
      using px_stride_le [of "sh_kind sh" "sz_width (sh_size sh)"] size(1) by (simp add: raw_def)
    have "\<exists>out conv s. deliver md (sa_control sa) (sa_now sa) (sa_accepts sa) (sh_size sh)
        (\<lambda>cv. converter_write (md_yuv md) cv raw (sh_size sh)) (sk_converter k) (sk_frames k) = Some (out, conv, s)
        \<and> scratch_ok s \<and> cv_kind conv = sh_kind sh"
      using deliver_total [OF assms(1) _ size(2,3), of "sk_frames k" "\<lambda>cv. converter_write (md_yuv md) cv raw (sh_size sh)"
          "sk_converter k" "\<lambda>cv. cv_kind cv = sh_kind sh" "sa_control sa" "sa_now sa" "sa_accepts sa"]
        write_fills [OF assms(1) size(2,3) pitch] k
      by (fastforce simp: sink_ok_def sh_def)
    then obtain out conv s where "deliver md (sa_control sa) (sa_now sa) (sa_accepts sa) (sh_size sh)
        (\<lambda>cv. converter_write (md_yuv md) cv raw (sh_size sh)) (sk_converter k) (sk_frames k) = Some (out, conv, s)"
      "scratch_ok s" "cv_kind conv = sh_kind sh"
      by blast
    then have "pin_take md sa k0 = Some (Inr (), k\<lparr>sk_converter := conv, sk_frames := s\<rparr>)"
      using mem data by (simp add: pin_take_def k_def [symmetric] sh_def raw_def Let_def)
    moreover have "sink_ok (k\<lparr>sk_converter := conv, sk_frames := s\<rparr>)"
      using k \<open>scratch_ok s\<close> \<open>cv_kind conv = sh_kind sh\<close> by (simp add: sink_ok_def sh_def)
    ultimately show ?thesis by blast
  qed
qed

text \<open>The calls the graph and the camera's thread make on the pin, in any order.\<close>

datatype pin_call =
    Receive_Connection "nat option" am_type
  | Disconnect_Pin
  | Receive sample
  | Receive_Multiple "sample option list option" int

definition call_fine :: "pin_call \<Rightarrow> bool" where
  "call_fine c \<longleftrightarrow>
     (case c of
        Receive_Connection peer m \<Rightarrow> type_small m
      | Disconnect_Pin \<Rightarrow> True
      | Receive sa \<Rightarrow> sample_fine sa
      | Receive_Multiple sas n \<Rightarrow> (\<forall>l sa. sas = Some l \<longrightarrow> Some sa \<in> set l \<longrightarrow> sample_fine sa))"

fun pin_step :: "media \<Rightarrow> pin_call \<Rightarrow> sink_pin \<Rightarrow> sink_pin option" where
  "pin_step md (Receive_Connection peer m) p = Some (snd (receive_connection peer m p))"
| "pin_step md Disconnect_Pin p = Some (disconnect p)"
| "pin_step md (Receive sa) p = map_option snd (pin_receive md sa p)"
| "pin_step md (Receive_Multiple sas n) p = map_option snd (receive_multiple md sas n p)"

fun pin_calls :: "media \<Rightarrow> pin_call list \<Rightarrow> sink_pin \<Rightarrow> sink_pin option" where
  "pin_calls md [] p = Some p"
| "pin_calls md (c # cs) p = Option.bind (pin_step md c p) (pin_calls md cs)"

lemma receive_all_total:
  assumes "media_laws md" and "sink_ok (sp_sink p)" and "\<forall>sa. Some sa \<in> set sas \<longrightarrow> sample_fine sa"
  shows "\<exists>r p'. receive_all md sas n p = Some (r, p') \<and> sink_ok (sp_sink p')"
  using assms(2,3)
proof (induction sas arbitrary: n p)
  case (Cons sa sas)
  show ?case
  proof (cases sa)
    case (Some a)
    then have "sample_fine a" using Cons.prems(2) by simp
    then obtain r k where "pin_take md a (sp_sink p) = Some (r, k)" "sink_ok k"
      using pin_take_total [OF assms(1) Cons.prems(1)] by blast
    then show ?thesis
      using Cons.IH [of "p\<lparr>sp_sink := k\<rparr>" "n + 1"] Cons.prems(2) Some by (cases r) (auto simp: pin_receive_def)
  qed (use Cons.prems in simp)
qed simp

lemma pin_step_total:
  assumes "media_laws md" and "sink_ok (sp_sink p)" and "call_fine c"
  shows "\<exists>p'. pin_step md c p = Some p' \<and> sink_ok (sp_sink p')"
proof (cases c)
  case (Receive_Connection peer m)
  then show ?thesis
    using assms(2,3) take_shape_ok by (auto simp: receive_connection_def call_fine_def type_small_def split: option.splits)
next
  case (Receive sa)
  then show ?thesis
    using pin_take_total [OF assms(1,2), of sa] assms(3) by (auto simp: pin_receive_def call_fine_def)
next
  case (Receive_Multiple sas n)
  then have "\<forall>l. sas = Some l \<longrightarrow> (\<forall>sa. Some sa \<in> set (take (nat n) l) \<longrightarrow> sample_fine sa)"
    using assms(3) by (auto simp: call_fine_def dest: in_set_takeD)
  then show ?thesis
    using receive_all_total [OF assms(1,2), of "take (nat n) (the sas)" 0] Receive_Multiple assms(2)
    by (auto simp: receive_multiple_def split: option.splits)
qed (use assms in \<open>simp add: disconnect_def\<close>)

text \<open>
  C18. The pin the camera pushes its frames into: whatever calls arrive, in whatever order and before or after any change
  of format, none panics or reads past the end of a sample, and the converter is always the one of the format in force.
  (The format a sample announces and the length it states are believed; a frame shorter than its format is skipped.)
\<close>

theorem sink_pin_safe:
  assumes "media_laws md" and "\<forall>c \<in> set cs. call_fine c" and "small_size (sh_size shape)"
  shows "\<exists>p. pin_calls md cs (sink_build (scratch_new ceil preview) shape) = Some p
    \<and> cv_kind (sk_converter (sp_sink p)) = sh_kind (sk_shape (sp_sink p))"
proof -
  have "\<exists>p'. pin_calls md cs p = Some p' \<and> sink_ok (sp_sink p')" if "sink_ok (sp_sink p)" for p
    using assms(2) that
  proof (induction cs arbitrary: p)
    case (Cons c cs)
    then obtain p1 where "pin_step md c p = Some p1" "sink_ok (sp_sink p1)"
      using pin_step_total [OF assms(1) Cons.prems(2), of c] by auto
    then show ?case using Cons.IH [of p1] Cons.prems(1) by simp
  qed simp
  moreover have "sink_ok (sp_sink (sink_build (scratch_new ceil preview) shape))"
    using assms(3) by (simp add: sink_ok_def sink_build_def converter_new_def scratch_ok_def scratch_new_def)
  ultimately show ?thesis by (fastforce simp: sink_ok_def)
qed

text \<open>
  A pin accepts exactly the types it says it accepts, and answers with a type that reads back as the shape its frames
  are read with.
\<close>

lemma connection_agrees:
  "fst (receive_connection peer m p) = Inr () \<longleftrightarrow> query_accept m"
  "receive_connection (Some q) m p = (Inr (), p') \<Longrightarrow> connected_to p' = Inr q
     \<and> (\<exists>m'. connection_media_type p' = Inr m' \<and> shape_of m' = Some (sk_shape (sp_sink p')) \<and> shape_of m = shape_of m')"
  by (auto simp: receive_connection_def query_accept_def connected_to_def connection_media_type_def take_shape_def
    shape_of_facts(1) split: option.splits)

text \<open>A type the code cannot read is not taken up: the frame is read with the old shape.\<close>

lemma unreadable_change_ignored:
  "sa_type sa = Some m \<Longrightarrow> shape_of m = None \<Longrightarrow> pin_take md sa k = pin_take md (sa\<lparr>sa_type := None\<rparr>) k"
  by (cases "sa_pointer sa") (auto simp: pin_take_def Let_def split: option.splits)

section \<open>The small parts\<close>

text \<open>Between two resets the enumerator hands the one pin out at most once, and a fresh one hands it out.\<close>

datatype enum_call = Enum_Next u32 bool | Enum_Skip u32

fun enum_step :: "enum_call \<Rightarrow> u32 \<Rightarrow> nat \<times> u32" where
  "enum_step (Enum_Next many target_ok) pos = (case enum_next many target_ok pos of ((written, _), pos') \<Rightarrow> (unat written, pos'))"
| "enum_step (Enum_Skip many) pos = (0, snd (enum_skip many pos))"

fun enum_calls :: "enum_call list \<Rightarrow> u32 \<Rightarrow> nat \<times> u32" where
  "enum_calls [] pos = (0, pos)"
| "enum_calls (c # cs) pos =
     (let (n, pos') = enum_step c pos; (m, pos'') = enum_calls cs pos' in (n + m, pos''))"

lemma enum_skip_forward: "pos \<noteq> 0 \<Longrightarrow> snd (enum_skip many pos) \<noteq> 0"
proof -
  assume "pos \<noteq> 0"
  then have "0 < unat pos" by (simp add: unat_gt_0)
  moreover have "unat (pos + many) = unat pos + unat many" if "unat pos + unat many < 2 ^ 32"
    using that by (simp add: unat_word_ariths)
  ultimately have "pos + many \<noteq> 0" if "unat pos + unat many < 2 ^ 32" using that by force
  then show ?thesis by (simp add: enum_skip_def Let_def)
qed

lemma pin_enumerated_once:
  "fst (enum_calls cs pos) \<le> (if pos = 0 then 1 else 0)"
  "enum_next 1 True (enum_reset pos) = ((1, True), 1)"
proof -
  show "fst (enum_calls cs pos) \<le> (if pos = 0 then 1 else 0)"
  proof (induction cs arbitrary: pos)
    case (Cons c cs)
    have "fst (enum_step c pos) + (if snd (enum_step c pos) = 0 then 1 else 0) \<le> (if pos = 0 then 1 else (0 :: nat))"
      using enum_skip_forward by (cases c) (auto simp: enum_next_def)
    then show ?case using Cons.IH [of "snd (enum_step c pos)"] by (auto simp: Let_def split: prod.splits if_splits)
  qed simp
  show "enum_next 1 True (enum_reset pos) = ((1, True), 1)" by (simp add: enum_next_def enum_reset_def)
qed

text \<open>A name always fits and ends in a zero.\<close>

lemma write_name_fits:
  assumes "length target = 128"
  shows "write_name target name = Some (take 127 name @ 0 # drop (Suc (length (take 127 name))) target)"
proof -
  define wide where "wide = take 127 name"
  have "length wide < length target" using assms by (simp add: wide_def)
  then have tail: "drop (length wide) target = target ! length wide # drop (Suc (length wide)) target"
    by (rule Cons_nth_drop_Suc [symmetric])
  have "copy_at target 0 wide = Some (wide @ drop (length wide) target)"
    using \<open>length wide < length target\<close> by (simp add: copy_at_def)
  then show ?thesis using \<open>length wide < length target\<close> by (simp add: write_name_def Let_def tail flip: wide_def)
qed

text \<open>The wait ends in the first turn that asks for it or brings a loss; a camera that comes back is none.\<close>

definition loses :: "graph_event \<Rightarrow> bool" where
  "loses ev \<longleftrightarrow> ge_code ev = EC_DEVICE_LOST \<and> ge_second ev \<noteq> 1 \<or> ge_code ev = EC_ERRORABORT"

lemma pump_ends:
  "pump negotiated ts = Pumping \<longleftrightarrow> (\<forall>t \<in> set ts. \<not> pt_stop t \<and> (\<forall>ev. pt_event t = Some ev \<longrightarrow> \<not> loses ev))"
  by (induction ts) (auto simp: loses_def split: option.splits)

text \<open>A camera is only taken for another path's by its hardware, or by a name no other has.\<close>

lemma counterpart_sure:
  assumes "counterpart devices native mf_id = Some m"
  shows "\<exists>d \<in> set devices. dd_moniker d = m \<and> (device_key mf_id \<noteq> None \<and> Option.bind (dd_path d) device_key = device_key mf_id
    \<or> name_of native mf_id = Some (dd_name d) \<and> filter (\<lambda>e. dd_name e = dd_name d) devices = [d])"
proof (cases "Option.bind (device_key mf_id) (\<lambda>key. find (\<lambda>d. Option.bind (dd_path d) device_key = Some key) devices)")
  case (Some d)
  then obtain key where "device_key mf_id = Some key" "find (\<lambda>d. Option.bind (dd_path d) device_key = Some key) devices = Some d"
    by (auto simp: bind_eq_Some_conv)
  moreover have "dd_moniker d = m" using assms Some by (simp add: counterpart_def)
  ultimately show ?thesis using find_Some_in by fastforce
next
  case None
  then obtain name where name: "name_of native mf_id = Some name"
    and one: "(case filter (\<lambda>d. dd_name d = name) devices of [d] \<Rightarrow> Some (dd_moniker d) | _ \<Rightarrow> None) = Some m"
    using assms by (auto simp: counterpart_def bind_eq_Some_conv Let_def)
  obtain d where "filter (\<lambda>d. dd_name d = name) devices = [d]" "dd_moniker d = m"
    using one by (cases "filter (\<lambda>d. dd_name d = name) devices" rule: remdups_adj.cases) simp_all
  moreover from this have "d \<in> set devices \<and> dd_name d = name" by (auto simp: filter_eq_Cons_iff)
  ultimately show ?thesis using name by auto
qed

section \<open>Examples\<close>

definition rgb24_type :: am_type where
  "rgb24_type = \<lparr>am_video = True, am_video_info = True, am_subtype = MEDIASUBTYPE_RGB24, am_cb_format = 88,
     am_format = Some \<lparr>vh_width = 4, vh_height = 2, vh_time = 0, vh_rest = []\<rparr>, am_sample_size = 0\<rparr>"

definition rgb24_shape :: shape where
  "rgb24_shape = \<lparr>sh_kind = Rgb24, sh_size = tiny, sh_bottom_up = True, sh_subtype = MEDIASUBTYPE_RGB24,
     sh_format = (88, \<lparr>vh_width = 4, vh_height = 2, vh_time = 0, vh_rest = []\<rparr>)\<rparr>"

lemma rgb24_type_shape: "shape_of rgb24_type = Some rgb24_shape"
proof -
  have "sint (4 :: i32) = 4" "sint (2 :: i32) = 2" by simp_all
  then show ?thesis
    by (simp add: shape_of_def rgb24_type_def rgb24_shape_def VIDEOINFOHEADER_SIZE_def i32_abs_def tiny_def Let_def)
qed

definition one_sample :: sample where
  "one_sample = \<lparr>sa_type = None, sa_pointer = Inr (Some (raw_data tiny_rgb24)), sa_length = 24, sa_control = control_new,
     sa_now = 0, sa_accepts = (\<lambda>b. True)\<rparr>"

theorem sink_pin_safe_witness:
  "\<exists>p. pin_calls plain_media [Receive_Connection (Some 1) rgb24_type, Receive one_sample, Receive_Multiple (Some [Some one_sample, None]) 2,
       Disconnect_Pin] (sink_build (scratch_new tiny None) rgb24_shape) = Some p
     \<and> cv_kind (sk_converter (sp_sink p)) = sh_kind (sk_shape (sp_sink p))"
proof (rule sink_pin_safe [OF plain_media_laws])
  have "small_size tiny" by (simp add: small_size_def tiny_def)
  then show "small_size (sh_size rgb24_shape)" by (simp add: rgb24_shape_def)
  have "type_small rgb24_type" using \<open>small_size tiny\<close> by (simp add: type_small_def rgb24_type_shape) (simp add: rgb24_shape_def)
  moreover have "sample_fine one_sample" by (simp add: sample_fine_def one_sample_def tiny_rgb24_def)
  ultimately show "\<forall>c \<in> set [Receive_Connection (Some 1) rgb24_type, Receive one_sample,
      Receive_Multiple (Some [Some one_sample, None]) 2, Disconnect_Pin]. call_fine c"
    by (simp add: call_fine_def)
qed

definition rgb24_camera :: stream_config where
  "rgb24_camera = \<lparr>cf_count = Inr (1, True), cf_caps = (\<lambda>i. Some (rgb24_type, \<lparr>sc_min_interval = 0, sc_max_interval = 0\<rparr>)),
     cf_again = (\<lambda>i. Inr rgb24_type), cf_set = (\<lambda>m. Inr ())\<rparr>"

lemma rgb24_negotiates: "ds_negotiate (Some rgb24_camera) hd_ceiling 0 = Inr rgb24_shape"
proof -
  have "candidates_of rgb24_camera 1 0 = [(0, \<lparr>vf_size = tiny, vf_fps = 0\<rparr>, Rgb24)]"
    by (simp add: candidates_of_def rgb24_camera_def rgb24_type_shape map_filter_simps achievable_fps_def interval_rate_def)
      (simp add: rgb24_shape_def)
  moreover have "choose_format [\<lparr>vf_size = tiny, vf_fps = 0\<rparr>] hd_ceiling 0 = Some \<lparr>vf_size = tiny, vf_fps = 0\<rparr>"
    by (simp add: choose_format_def)
  ultimately show ?thesis
    by (simp add: ds_negotiate_def rgb24_camera_def set_rate_def rgb24_type_shape)
qed

theorem ds_negotiated_witness:
  "\<exists>i f kind m. (i, f, kind) \<in> set (candidates_of rgb24_camera 1 0) \<and> cf_again rgb24_camera i = Inr m
     \<and> shape_of (set_rate (vf_fps f) m) = Some rgb24_shape"
  using ds_negotiated(1) [OF _ _ rgb24_negotiates, of 1] by (auto simp: rgb24_camera_def)

end
