(* ===== verification/Camera_Start.thy ===== *)
theory Camera_Start
  imports Camera_DShow
begin

text \<open>
  \<^verbatim>\<open>start\<close> of \<^verbatim>\<open>desktop/src-tauri/src/camera/mod.rs\<close>, which opens a camera over one of the two paths, and the texts of
  the errors, which are what the button shows.
\<close>

definition show_hex32 :: "u32 \<Rightarrow> string" where
  "show_hex32 w = ''0x'' @ map (\<lambda>i. hex_digit (unat w div 16 ^ i mod 16)) [7, 6, 5, 4, 3, 2, 1, 0]"

fun camera_error_text :: "camera_error \<Rightarrow> string" where
  "camera_error_text Gone = ''a camera escolhida nao esta mais conectada''"
| "camera_error_text (WillNotOpen c) = ''o Media Foundation nao abre esta camera ('' @ show_hex32 c @ '')''"
| "camera_error_text Busy = ''outro aplicativo esta usando a camera''"
| "camera_error_text NotAllowed = ''o Windows nao deixa este aplicativo usar a camera''"
| "camera_error_text NoUsableFormat = ''a camera nao oferece nenhum formato de video utilizavel''"
| "camera_error_text OnlyCompressed = ''esta camera so entrega video comprimido, que este aplicativo nao decodifica. Tente baixar a resolucao nas configuracoes dela''"
| "camera_error_text (Platform_Error m) = ''o Windows recusou a camera: '' @ m"
| "camera_error_text (BothRefused mf ds) = ''o Windows nao abriu esta camera. Media Foundation: '' @ mf @ ''. DirectShow: '' @ ds"

datatype ('a, 'b) running = On_Media_Foundation 'a | On_DirectShow 'b

text \<open>
  \<open>mf\<close> and \<open>ds\<close> open a device over a path, \<open>twin\<close> is \<^verbatim>\<open>dshow::counterpart\<close>; the code calls each only where the definition
  does.
\<close>

definition camera_start ::
  "(string \<Rightarrow> refused + 'a) \<Rightarrow> (string \<Rightarrow> string option) \<Rightarrow> (string \<Rightarrow> camera_error + 'b) \<Rightarrow> string \<Rightarrow> camera_error + ('a, 'b) running" where
  "camera_start mf twin ds device =
     (if is_directshow device then map_sum id On_DirectShow (ds device)
      else case mf device of
        Inr c \<Rightarrow> Inr (On_Media_Foundation c)
      | Inl r \<Rightarrow>
          if \<not> frames_home r then Inl (rf_error r)
          else if \<not> worth_another_path (rf_error r) then Inl (rf_error r)
          else case twin device of
            None \<Rightarrow> Inl (rf_error r)
          | Some moniker \<Rightarrow>
              (case ds moniker of
                 Inr c \<Rightarrow> Inr (On_DirectShow c)
               | Inl other \<Rightarrow> Inl (BothRefused (camera_error_text (rf_error r)) (camera_error_text other))))"

lemma camera_one_path_facts:
  assumes "\<not> is_directshow device"
    and "mf = (\<lambda>_. mf_start spawned (map_option fst (mf_open api session source reader ceil fps)))"
    and "twin = counterpart devices native"
  shows "camera_start mf twin ds device = Inr (On_DirectShow c) \<Longrightarrow>
      (\<exists>e m. mf_open api session source reader ceil fps = Some (Inl e, False) \<and> worth_another_path e
         \<and> twin device = Some m \<and> ds m = Inr c
         \<and> (\<exists>d \<in> set devices. dd_moniker d = m
              \<and> (device_key device \<noteq> None \<and> Option.bind (dd_path d) device_key = device_key device
                 \<or> name_of native device = Some (dd_name d) \<and> filter (\<lambda>e. dd_name e = dd_name d) devices = [d])))"
    "camera_start mf twin ds device = Inl e' \<Longrightarrow>
      mf device = Inl r \<Longrightarrow> e' = rf_error r \<and> (frames_home r \<longrightarrow> worth_another_path (rf_error r) \<longrightarrow> twin device = None)
        \<or> (\<exists>m other. twin device = Some m \<and> ds m = Inl other
             \<and> e' = BothRefused (camera_error_text (rf_error r)) (camera_error_text other))"
proof -
  show "\<exists>e m. mf_open api session source reader ceil fps = Some (Inl e, False) \<and> worth_another_path e
         \<and> twin device = Some m \<and> ds m = Inr c
         \<and> (\<exists>d \<in> set devices. dd_moniker d = m
              \<and> (device_key device \<noteq> None \<and> Option.bind (dd_path d) device_key = device_key device
                 \<or> name_of native device = Some (dd_name d) \<and> filter (\<lambda>e. dd_name e = dd_name d) devices = [d]))"
    if opened: "camera_start mf twin ds device = Inr (On_DirectShow c)"
  proof -
    obtain r m where r: "mf device = Inl r" "frames_home r" "worth_another_path (rf_error r)" "twin device = Some m" "ds m = Inr c"
      using opened assms(1) by (auto simp: camera_start_def split: sum.splits if_splits option.splits)
    then obtain e kept where e: "mf_open api session source reader ceil fps = Some (Inl e, kept)" "rf_error r = e"
      by (auto simp: assms(2) mf_start_def split: if_splits option.splits sum.splits)
    then have "\<not> kept" using mf_refusal_releases by blast
    with r e counterpart_sure [of devices native device m] show ?thesis by (auto simp: assms(3))
  qed
  show "e' = rf_error r \<and> (frames_home r \<longrightarrow> worth_another_path (rf_error r) \<longrightarrow> twin device = None)
        \<or> (\<exists>m other. twin device = Some m \<and> ds m = Inl other
             \<and> e' = BothRefused (camera_error_text (rf_error r)) (camera_error_text other))"
    if "camera_start mf twin ds device = Inl e'" "mf device = Inl r"
    using that assms(1) by (auto simp: camera_start_def split: sum.splits if_splits option.splits)
qed

text \<open>
  C31. Opening a camera: it is opened over at most one path.  DirectShow gets a camera of Media Foundation only after
  that path refused it, for another reason than that it is busy or not allowed, gave the frames back and let go of the
  device; the camera it opens is that hardware, or the only one of that name.  When nothing opens, the error names the
  reason of every path that was tried.
\<close>

theorem camera_one_path:
  assumes "\<not> is_directshow device"
    and "mf = (\<lambda>_. mf_start spawned (map_option fst (mf_open api session source reader ceil fps)))"
    and "twin = counterpart devices native"
  shows "case camera_start mf twin ds device of
      Inr (On_Media_Foundation c) \<Rightarrow> mf device = Inr c
    | Inr (On_DirectShow c) \<Rightarrow>
        (\<exists>e m. mf_open api session source reader ceil fps = Some (Inl e, False) \<and> worth_another_path e
           \<and> twin device = Some m \<and> ds m = Inr c
           \<and> (\<exists>d \<in> set devices. dd_moniker d = m
                \<and> (device_key device \<noteq> None \<and> Option.bind (dd_path d) device_key = device_key device
                   \<or> name_of native device = Some (dd_name d) \<and> filter (\<lambda>e. dd_name e = dd_name d) devices = [d])))
    | Inl e' \<Rightarrow>
        (\<exists>r. mf device = Inl r
           \<and> (e' = rf_error r \<and> (frames_home r \<longrightarrow> worth_another_path (rf_error r) \<longrightarrow> twin device = None)
              \<or> (\<exists>m other. twin device = Some m \<and> ds m = Inl other
                   \<and> e' = BothRefused (camera_error_text (rf_error r)) (camera_error_text other))))"
proof (cases "camera_start mf twin ds device")
  case (Inl e')
  then obtain r where r: "mf device = Inl r" using assms(1) by (auto simp: camera_start_def split: sum.splits)
  from camera_one_path_facts(2) [OF assms Inl r] show ?thesis using Inl r by simp
next
  case (Inr c)
  show ?thesis
  proof (cases c)
    case (On_Media_Foundation d)
    then have "mf device = Inr d"
      using Inr assms(1) by (auto simp: camera_start_def split: sum.splits if_splits option.splits)
    then show ?thesis using Inr On_Media_Foundation by simp
  next
    case (On_DirectShow d)
    from camera_one_path_facts(1) [OF assms, of ds d] show ?thesis using Inr On_DirectShow by simp
  qed
qed

text \<open>The handle of a row of the list decides the path: a moniker of DirectShow opens there.\<close>

lemma directshow_rows_open_there:
  assumes "\<forall>d \<in> set others. is_directshow (dd_moniker d)"
    and "row \<in> set (drop (length native) (list_cameras native others))"
  shows "camera_start mf twin ds (cd_id row) = map_sum id On_DirectShow (ds (cd_id row))"
  using assms by (auto simp: list_cameras_def camera_start_def)

definition broken_reader :: "unit reader" where
  "broken_reader = one_format\<lparr>select_video := (\<lambda>r. (Inl \<lparr>we_code = 5, we_text = ''x''\<rparr>, r))\<rparr>"

theorem camera_one_path_witness:
  "\<exists>e m. mf_open broken_reader (Inr ()) (Inr ()) (Inr ()) hd_ceiling 30 = Some (Inl e, False) \<and> worth_another_path e
     \<and> counterpart [\<lparr>dd_moniker = ''@device:sw:1'', dd_name = ''OBS'', dd_path = None\<rparr>] [\<lparr>cd_id = ''mf'', cd_name = ''OBS''\<rparr>] ''mf'' = Some m"
proof -
  define devices where "devices = [\<lparr>dd_moniker = ''@device:sw:1'', dd_name = ''OBS'', dd_path = None\<rparr>]"
  define native where "native = [\<lparr>cd_id = ''mf'', cd_name = ''OBS''\<rparr>]"
  have key: "device_key ''mf'' = None" by code_simp
  have twin: "counterpart devices native ''mf'' = Some ''@device:sw:1''"
    by (simp add: counterpart_def key name_of_def devices_def native_def)
  have refuse: "mf_open broken_reader (Inr ()) (Inr ()) (Inr ()) hd_ceiling 30
      = Some (Inl (Platform_Error (''ligando a trilha de video: x'')), False)"
    by (simp add: mf_open_def mf_negotiate_def broken_reader_def one_format_def from_hresult_def
      ERROR_SHARING_VIOLATION_def MF_E_HW_MFT_FAILED_START_STREAMING_def E_ACCESSDENIED_def)
  have mf: "\<not> is_directshow ''mf''" by code_simp
  have "camera_start (\<lambda>_. mf_start True (map_option fst (mf_open broken_reader (Inr ()) (Inr ()) (Inr ()) hd_ceiling 30)))
      (counterpart devices native) (\<lambda>m. Inr ()) ''mf'' = Inr (On_DirectShow ())"
    using mf twin by (simp add: camera_start_def refuse mf_start_def worth_another_path_def)
  with camera_one_path [OF mf refl refl, of True broken_reader "Inr ()" "Inr ()" "Inr ()" hd_ceiling 30 devices native "\<lambda>m. Inr ()"]
  show ?thesis unfolding devices_def native_def by auto
qed

end
