(* ===== verification/Publisher.thy ===== *)
theory Publisher
  imports Camera_Start
begin

text \<open>
  \<^verbatim>\<open>desktop/src-tauri/src/publisher.rs\<close>: the connection that publishes, what of each source is published over it, and
  the numbers of the panel.  LiveKit is a parameter: its answers to \<^verbatim>\<open>publish_track\<close> and \<^verbatim>\<open>unpublish_track\<close> and its
  statistics.  \<open>pb_tracks\<close> is what it holds published for the connection.
\<close>

section \<open>What is published\<close>

datatype preset = P1080p60 | P1080p30 | P720p60 | P720p30

fun preset_ceiling :: "preset \<Rightarrow> dims" where
  "preset_ceiling P1080p60 = \<lparr>sz_width = 1920, sz_height = 1080\<rparr>"
| "preset_ceiling P1080p30 = \<lparr>sz_width = 1920, sz_height = 1080\<rparr>"
| "preset_ceiling P720p60 = \<lparr>sz_width = 1280, sz_height = 720\<rparr>"
| "preset_ceiling P720p30 = \<lparr>sz_width = 1280, sz_height = 720\<rparr>"

fun preset_fps :: "preset \<Rightarrow> u32" where
  "preset_fps P1080p60 = 60"
| "preset_fps P720p60 = 60"
| "preset_fps P1080p30 = 30"
| "preset_fps P720p30 = 30"

fun preset_max_bitrate :: "preset \<Rightarrow> u64" where
  "preset_max_bitrate P1080p60 = 6000000"
| "preset_max_bitrate P1080p30 = 4000000"
| "preset_max_bitrate P720p60 = 3000000"
| "preset_max_bitrate P720p30 = 1800000"

definition SCALABILITY_MODE :: string where "SCALABILITY_MODE = ''L1T3''"
definition SAMPLE_RATE :: u32 where "SAMPLE_RATE = 48000"
definition CHANNELS :: u32 where "CHANNELS = 2"
definition CAMERA_SIZE :: dims where "CAMERA_SIZE = \<lparr>sz_width = 1280, sz_height = 720\<rparr>"
definition CAMERA_FPS :: u32 where "CAMERA_FPS = 30"
definition CAMERA_MAX_BITRATE :: u64 where "CAMERA_MAX_BITRATE = 1600000"

datatype stream_source = Screen_Source | Camera_Source

fun source_stream :: "stream_source \<Rightarrow> string" where
  "source_stream Screen_Source = ''screen''"
| "source_stream Camera_Source = ''camera''"

datatype track_source = Track_Screenshare | Track_ScreenshareAudio | Track_Camera

text \<open>The options the code sets; of an audio track only the source, the stream, and that \<^verbatim>\<open>dtx\<close> and \<^verbatim>\<open>red\<close> are off.\<close>

record track_options =
  to_source :: track_source
  to_stream :: string
  to_simulcast :: bool
  to_scalability :: "string option"
  to_bitrate :: "u64 option"
  to_framerate :: "rat option"

definition screen_video_options :: "preset \<Rightarrow> track_options" where
  "screen_video_options p =
     \<lparr>to_source = Track_Screenshare, to_stream = source_stream Screen_Source, to_simulcast = False,
      to_scalability = Some SCALABILITY_MODE, to_bitrate = Some (preset_max_bitrate p),
      to_framerate = Some (of_u32 (preset_fps p))\<rparr>"

definition screen_audio_options :: track_options where
  "screen_audio_options =
     \<lparr>to_source = Track_ScreenshareAudio, to_stream = source_stream Screen_Source, to_simulcast = False,
      to_scalability = None, to_bitrate = None, to_framerate = None\<rparr>"

definition camera_video_options :: track_options where
  "camera_video_options =
     \<lparr>to_source = Track_Camera, to_stream = source_stream Camera_Source, to_simulcast = False,
      to_scalability = Some SCALABILITY_MODE, to_bitrate = Some CAMERA_MAX_BITRATE,
      to_framerate = Some (of_u32 CAMERA_FPS)\<rparr>"

section \<open>The connection\<close>

datatype publish_error = Connect_Error string | Publish_Error string

type_synonym sid = string

record published =
  pd_video :: "sid option"
  pd_audio :: "sid option"

record publisher =
  pb_tracks :: "(sid \<times> track_options) list"
  pb_screen :: published
  pb_camera :: published
  pb_last :: "(u64 \<times> instant) option"

definition nothing_published :: published where
  "nothing_published = \<lparr>pd_video = None, pd_audio = None\<rparr>"

definition publisher_connect :: "string + unit \<Rightarrow> publish_error + publisher" where
  "publisher_connect answer =
     map_sum Connect_Error (\<lambda>_. \<lparr>pb_tracks = [], pb_screen = nothing_published, pb_camera = nothing_published,
       pb_last = None\<rparr>) answer"

definition publish_track :: "string + sid \<Rightarrow> track_options \<Rightarrow> publisher \<Rightarrow> (publish_error + sid) \<times> publisher" where
  "publish_track answer opts p =
     (case answer of
        Inl e \<Rightarrow> (Inl (Publish_Error e), p)
      | Inr i \<Rightarrow> (Inr i, p\<lparr>pb_tracks := pb_tracks p @ [(i, opts)]\<rparr>))"

text \<open>\<^verbatim>\<open>publish_screen\<close>; the answer says whether there is an audio source to feed.\<close>

definition publish_screen :: "preset \<Rightarrow> bool \<Rightarrow> string + sid \<Rightarrow> string + sid \<Rightarrow> publisher \<Rightarrow> (publish_error + bool) \<times> publisher" where
  "publish_screen preset with_audio video audio p =
     (case publish_track video (screen_video_options preset) p of
        (Inl e, p1) \<Rightarrow> (Inl e, p1)
      | (Inr v, p1) \<Rightarrow>
          let p2 = p1\<lparr>pb_screen := (pb_screen p1)\<lparr>pd_video := Some v\<rparr>\<rparr> in
          if \<not> with_audio then (Inr False, p2)
          else case publish_track audio screen_audio_options p2 of
            (Inl e, p3) \<Rightarrow> (Inl e, p3)
          | (Inr a, p3) \<Rightarrow> (Inr True, p3\<lparr>pb_screen := (pb_screen p3)\<lparr>pd_audio := Some a\<rparr>\<rparr>))"

definition publish_camera :: "string + sid \<Rightarrow> publisher \<Rightarrow> (publish_error + unit) \<times> publisher" where
  "publish_camera video p =
     (case publish_track video camera_video_options p of
        (Inl e, p1) \<Rightarrow> (Inl e, p1)
      | (Inr v, p1) \<Rightarrow> (Inr (), p1\<lparr>pb_camera := (pb_camera p1)\<lparr>pd_video := Some v\<rparr>\<rparr>))"

text \<open>\<^verbatim>\<open>unpublish\<close>; \<open>took\<close> says whether LiveKit takes a track down, which the code only logs.\<close>

definition unpublish :: "stream_source \<Rightarrow> (sid \<Rightarrow> bool) \<Rightarrow> publisher \<Rightarrow> publisher" where
  "unpublish source took p =
     (let held = (case source of Screen_Source \<Rightarrow> pb_screen p | Camera_Source \<Rightarrow> pb_camera p);
          p1 = (case source of
            Screen_Source \<Rightarrow> p\<lparr>pb_screen := nothing_published\<rparr>
          | Camera_Source \<Rightarrow> p\<lparr>pb_camera := nothing_published\<rparr>);
          sids = List.map_filter id [pd_video held, pd_audio held] in
      p1\<lparr>pb_tracks := filter (\<lambda>(i, _). \<not> (i \<in> set sids \<and> took i)) (pb_tracks p1)\<rparr>)"

section \<open>The network path\<close>

record ice_pair =
  ip_id :: string
  ip_local :: string
  ip_nominated :: bool
  ip_rtt :: rat
  ip_available :: rat

datatype candidate_type = Host | Srflx | Prflx | Relay

record ice_candidate =
  ic_id :: string
  ic_protocol :: string
  ic_type :: "candidate_type option"

datatype limitation = Not_Limited | Limited_Cpu | Limited_Bandwidth | Limited_Other

record outbound =
  ob_bytes :: u64
  ob_width :: u32
  ob_height :: u32
  ob_fps :: rat
  ob_hardware :: bool
  ob_limit :: limitation

datatype rtc_stats =
    Transport_Stats string
  | Pair_Stats ice_pair
  | Local_Stats ice_candidate
  | Outbound_Stats outbound
  | Other_Stats

definition find_map :: "('a \<Rightarrow> 'b option) \<Rightarrow> 'a list \<Rightarrow> 'b option" where
  "find_map f xs = (case List.map_filter f xs of [] \<Rightarrow> None | y # _ \<Rightarrow> Some y)"

record network_path =
  np_transport :: string
  np_rtt_ms :: u32
  np_available_kbps :: u32

text \<open>\<^verbatim>\<open>x.round() as u32\<close> of a double that is not negative.\<close>

definition rounded :: "rat \<Rightarrow> u32" where
  "rounded q = as_u32 (f64_round q)"

definition selected_pair_id :: "rtc_stats list \<Rightarrow> string option" where
  "selected_pair_id report =
     find_map (\<lambda>e. case e of Transport_Stats i \<Rightarrow> if i \<noteq> [] then Some i else None | _ \<Rightarrow> None) report"

definition selected_pair :: "rtc_stats list \<Rightarrow> ice_pair option" where
  "selected_pair report =
     find_map (\<lambda>e. case e of
         Pair_Stats p \<Rightarrow> (case selected_pair_id report of
             Some i \<Rightarrow> if ip_id p = i then Some p else None
           | None \<Rightarrow> if ip_nominated p then Some p else None)
       | _ \<Rightarrow> None) report"

definition EM_DASH :: string where "EM_DASH = [CHR 0xE2, CHR 0x80, CHR 0x94]"

definition network_path_of :: "rtc_stats list \<Rightarrow> network_path" where
  "network_path_of report =
     (case selected_pair report of
        None \<Rightarrow> \<lparr>np_transport = EM_DASH, np_rtt_ms = 0, np_available_kbps = 0\<rparr>
      | Some p \<Rightarrow>
          let transport = (case find_map (\<lambda>e. case e of
                Local_Stats c \<Rightarrow> if ic_id c = ip_local p then Some c else None | _ \<Rightarrow> None) report of
              Some c \<Rightarrow>
                let protocol = to_ascii_lowercase (ic_protocol c) in
                if ic_type c = Some Relay then ''relay/'' @ protocol else protocol
            | None \<Rightarrow> ''?'') in
          \<lparr>np_transport = transport, np_rtt_ms = rounded (f64 (ip_rtt p * 1000)),
           np_available_kbps = rounded (f64 (ip_available p / 1000))\<rparr>)"

section \<open>The numbers of the panel\<close>

record publisher_stats =
  st_bitrate_kbps :: u32
  st_fps :: u32
  st_width :: u32
  st_height :: u32
  st_hardware :: bool
  st_limited_by :: string
  st_transport :: string
  st_rtt_ms :: u32
  st_available_kbps :: u32
  st_captured :: u64
  st_encoded :: u64
  st_audio :: "u64 option"

definition stats_default :: publisher_stats where
  "stats_default = \<lparr>st_bitrate_kbps = 0, st_fps = 0, st_width = 0, st_height = 0, st_hardware = False, st_limited_by = [],
     st_transport = [], st_rtt_ms = 0, st_available_kbps = 0, st_captured = 0, st_encoded = 0, st_audio = None\<rparr>"

fun limited_text :: "limitation \<Rightarrow> string" where
  "limited_text Not_Limited = ''none''"
| "limited_text Limited_Cpu = ''cpu''"
| "limited_text Limited_Bandwidth = ''bandwidth''"
| "limited_text Limited_Other = ''other''"

definition outbounds :: "rtc_stats list \<Rightarrow> outbound list" where
  "outbounds report = List.map_filter (\<lambda>e. case e of Outbound_Stats o' \<Rightarrow> Some o' | _ \<Rightarrow> None) report"

definition widest_of :: "outbound list \<Rightarrow> outbound option" where
  "widest_of os = fold (\<lambda>o' w. case w of
       None \<Rightarrow> Some o'
     | Some v \<Rightarrow> if ob_width o' > ob_width v then Some o' else Some v) os None"

definition u64_saturating_sub :: "u64 \<Rightarrow> u64 \<Rightarrow> u64" where
  "u64_saturating_sub a b = (if b \<le> a then a - b else 0)"

text \<open>\<^verbatim>\<open>saturating_duration_since\<close> and \<^verbatim>\<open>as_secs_f64\<close> of instants in nanoseconds.\<close>

definition elapsed_secs :: "instant \<Rightarrow> instant \<Rightarrow> rat" where
  "elapsed_secs now t =
     (let ns = max 0 (now - t) in f64 (f64 (of_int (ns div 10 ^ 9)) + f64 (of_int (ns mod 10 ^ 9) / 10 ^ 9)))"

definition bitrate_between :: "(u64 \<times> instant) option \<Rightarrow> u64 \<Rightarrow> instant \<Rightarrow> u32" where
  "bitrate_between previous bytes_sent now =
     (case previous of
        None \<Rightarrow> 0
      | Some (bytes, t) \<Rightarrow>
          let elapsed = elapsed_secs now t in
          if elapsed > 0
          then rounded (f64 (f64 (f64 (f64 (of_nat (unat (u64_saturating_sub bytes_sent bytes))) * 8) / elapsed) / 1000))
          else 0)"

definition publisher_stats_of :: "rtc_stats list option \<Rightarrow> instant \<Rightarrow> publisher \<Rightarrow> publisher_stats \<times> publisher" where
  "publisher_stats_of answer now p =
     (case answer of
        None \<Rightarrow> (stats_default, p)
      | Some report \<Rightarrow>
          let os = outbounds report;
              bytes_sent = sum_list (map ob_bytes os);
              path = network_path_of report;
              bitrate = bitrate_between (pb_last p) bytes_sent now;
              p' = p\<lparr>pb_last := Some (bytes_sent, now)\<rparr>;
              base = stats_default\<lparr>st_bitrate_kbps := bitrate, st_transport := np_transport path,
                st_rtt_ms := np_rtt_ms path, st_available_kbps := np_available_kbps path\<rparr> in
          (case widest_of os of
             None \<Rightarrow> (base, p')
           | Some w \<Rightarrow> (base\<lparr>st_fps := rounded (ob_fps w), st_width := ob_width w, st_height := ob_height w,
               st_hardware := ob_hardware w, st_limited_by := limited_text (ob_limit w)\<rparr>, p')))"

section \<open>What the panel says\<close>

lemma find_map_Some: "find_map f xs = Some y \<Longrightarrow> \<exists>x \<in> set xs. f x = Some y"
proof -
  assume "find_map f xs = Some y"
  then have "y \<in> set (List.map_filter f xs)" by (auto simp: find_map_def split: list.splits)
  then show ?thesis by (auto simp: map_filter_def)
qed

lemma find_map_None: "find_map f xs = None \<longleftrightarrow> (\<forall>x \<in> set xs. f x = None)"
  by (auto simp: find_map_def map_filter_def filter_empty_conv filter_eq_Cons_iff split: list.splits)

lemma selected_pair_Some:
  assumes "selected_pair report = Some p"
  shows "Pair_Stats p \<in> set report \<and> (case selected_pair_id report of Some i \<Rightarrow> ip_id p = i | None \<Rightarrow> ip_nominated p)"
proof -
  from find_map_Some [OF assms [unfolded selected_pair_def]] obtain x where "x \<in> set report"
    "(case x of Pair_Stats p \<Rightarrow> (case selected_pair_id report of
         Some i \<Rightarrow> if ip_id p = i then Some p else None | None \<Rightarrow> if ip_nominated p then Some p else None) | _ \<Rightarrow> None) = Some p"
    by blast
  note x = this
  show ?thesis
  proof (cases x)
    case (Pair_Stats q)
    with x show ?thesis by (auto split: option.splits if_splits)
  qed (use x in simp_all)
qed

lemma selected_pair_None:
  "selected_pair report = None \<longleftrightarrow> (\<forall>p. Pair_Stats p \<in> set report \<longrightarrow>
     (case selected_pair_id report of Some i \<Rightarrow> ip_id p \<noteq> i | None \<Rightarrow> \<not> ip_nominated p))"
  unfolding selected_pair_def find_map_None
  by (auto split: rtc_stats.splits option.splits)

lemma widest_of_fold:
  "fold (\<lambda>o' w. case w of None \<Rightarrow> Some o' | Some v \<Rightarrow> if ob_width o' > ob_width v then Some o' else Some v) os (Some v)
     = Some w \<Longrightarrow> (w = v \<or> w \<in> set os) \<and> ob_width v \<le> ob_width w \<and> (\<forall>o' \<in> set os. ob_width o' \<le> ob_width w)"
  by (induction os arbitrary: v) (fastforce split: if_splits)+

lemma widest_of_None: "widest_of os = None \<longleftrightarrow> os = []"
proof -
  have "fold (\<lambda>o' w. case w of None \<Rightarrow> Some o' | Some v \<Rightarrow> if ob_width o' > ob_width v then Some o' else Some v) os (Some v)
      \<noteq> None" for v os
    by (induction os arbitrary: v) simp_all
  then show ?thesis by (cases os) (simp_all add: widest_of_def)
qed

lemma widest_of_Some: "widest_of os = Some w \<Longrightarrow> w \<in> set os \<and> (\<forall>o' \<in> set os. ob_width o' \<le> ob_width w)"
  using widest_of_fold [of "tl os" "hd os" w] by (cases os) (auto simp: widest_of_def)

lemma f64_zero: "f64 0 = 0"
  by (simp add: f64_def)

lemma rounded_zero: "rounded 0 = 0"
proof -
  have "\<lfloor>1 / 2 :: rat\<rfloor> = 0" by (rule floor_unique) simp_all
  then have "f64_round 0 = 0" by (simp only: f64_round_def add_0)
  then show ?thesis by (simp add: rounded_def as_u32_def)
qed

lemma bitrate_baseline:
  "bitrate_between None b now = 0" "now \<le> t \<Longrightarrow> bitrate_between (Some (b', t)) b now = 0"
  "b \<le> b' \<Longrightarrow> bitrate_between (Some (b', t)) b now = 0"
proof -
  show "bitrate_between None b now = 0" by (simp add: bitrate_between_def)
  show "bitrate_between (Some (b', t)) b now = 0" if "now \<le> t"
  proof -
    have "max 0 (now - t) = 0" using that by simp
    then have "elapsed_secs now t = 0" by (simp only: elapsed_secs_def Let_def) (simp add: f64_zero)
    then show ?thesis by (simp add: bitrate_between_def)
  qed
  show "bitrate_between (Some (b', t)) b now = 0" if "b \<le> b'"
  proof -
    have "u64_saturating_sub b b' = 0" using that by (auto simp: u64_saturating_sub_def)
    then have "bitrate_between (Some (b', t)) b now
        = (if elapsed_secs now t > 0 then rounded (f64 (f64 (f64 (f64 (of_nat (unat (0 :: u64))) * 8) / elapsed_secs now t) / 1000)) else 0)"
      by (simp only: bitrate_between_def option.case prod.case Let_def)
    then show ?thesis by (simp add: f64_zero rounded_zero)
  qed
qed

text \<open>
  The panel: the path shown is the pair the transport names, never another nominated one, and a nominated pair only
  when the transport names none; the size, the rate and the limit shown are those of one widest layer; the bitrate is
  the difference to the sample before, over all layers, and is zero for the first sample, for a clock that did not move
  and for a count that did not grow.  A failed reading shows nothing and keeps the sample.
\<close>

theorem panel_reads_report:
  assumes "publisher_stats_of (Some report) now p = (st, p')"
  shows "pb_last p' = Some (sum_list (map ob_bytes (outbounds report)), now)"
    "outbounds report \<noteq> [] \<Longrightarrow> \<exists>w \<in> set (outbounds report). (\<forall>o' \<in> set (outbounds report). ob_width o' \<le> ob_width w)
       \<and> st_width st = ob_width w \<and> st_height st = ob_height w \<and> st_fps st = rounded (ob_fps w)
       \<and> st_limited_by st = limited_text (ob_limit w)"
    "st_bitrate_kbps st = bitrate_between (pb_last p) (sum_list (map ob_bytes (outbounds report))) now"
    "pb_last p = None \<or> pb_last p = Some (b, t) \<and> now \<le> t \<Longrightarrow> st_bitrate_kbps st = 0"
    "\<exists>q. Pair_Stats q \<in> set report \<and> (case selected_pair_id report of Some i \<Rightarrow> ip_id q = i | None \<Rightarrow> ip_nominated q)
       \<and> st_rtt_ms st = rounded (f64 (ip_rtt q * 1000)) \<and> st_available_kbps st = rounded (f64 (ip_available q / 1000))
     \<or> st_transport st = EM_DASH \<and> (\<forall>q. Pair_Stats q \<in> set report \<longrightarrow>
         (case selected_pair_id report of Some i \<Rightarrow> ip_id q \<noteq> i | None \<Rightarrow> \<not> ip_nominated q))"
proof -
  have st: "pb_last p' = Some (sum_list (map ob_bytes (outbounds report)), now)"
    "st_bitrate_kbps st = bitrate_between (pb_last p) (sum_list (map ob_bytes (outbounds report))) now"
    "st_transport st = np_transport (network_path_of report)" "st_rtt_ms st = np_rtt_ms (network_path_of report)"
    "st_available_kbps st = np_available_kbps (network_path_of report)"
    using assms by (auto simp: publisher_stats_of_def Let_def split: option.splits)
  then show "pb_last p' = Some (sum_list (map ob_bytes (outbounds report)), now)"
    "st_bitrate_kbps st = bitrate_between (pb_last p) (sum_list (map ob_bytes (outbounds report))) now"
    by simp_all
  show "st_bitrate_kbps st = 0" if "pb_last p = None \<or> pb_last p = Some (b, t) \<and> now \<le> t"
    using that st(2) bitrate_baseline(1,2) by auto
  show "\<exists>w \<in> set (outbounds report). (\<forall>o' \<in> set (outbounds report). ob_width o' \<le> ob_width w)
       \<and> st_width st = ob_width w \<and> st_height st = ob_height w \<and> st_fps st = rounded (ob_fps w)
       \<and> st_limited_by st = limited_text (ob_limit w)" if some: "outbounds report \<noteq> []"
  proof -
    obtain w where "widest_of (outbounds report) = Some w" using some widest_of_None by blast
    with assms widest_of_Some [OF this] show ?thesis
      by (intro bexI [of _ w]) (auto simp: publisher_stats_of_def Let_def stats_default_def)
  qed
  show "\<exists>q. Pair_Stats q \<in> set report \<and> (case selected_pair_id report of Some i \<Rightarrow> ip_id q = i | None \<Rightarrow> ip_nominated q)
       \<and> st_rtt_ms st = rounded (f64 (ip_rtt q * 1000)) \<and> st_available_kbps st = rounded (f64 (ip_available q / 1000))
     \<or> st_transport st = EM_DASH \<and> (\<forall>q. Pair_Stats q \<in> set report \<longrightarrow>
         (case selected_pair_id report of Some i \<Rightarrow> ip_id q \<noteq> i | None \<Rightarrow> \<not> ip_nominated q))"
  proof (cases "selected_pair report")
    case None
    then have "\<forall>q. Pair_Stats q \<in> set report \<longrightarrow>
         (case selected_pair_id report of Some i \<Rightarrow> ip_id q \<noteq> i | None \<Rightarrow> \<not> ip_nominated q)" by (rule iffD1 [OF selected_pair_None])
    then show ?thesis using st(3) None by (simp add: network_path_of_def)
  next
    case (Some q)
    then show ?thesis using selected_pair_Some [OF Some] st(4,5) by (auto simp: network_path_of_def Let_def)
  qed
qed

section \<open>Example\<close>

definition fresh_publisher :: publisher where
  "fresh_publisher = \<lparr>pb_tracks = [], pb_screen = nothing_published, pb_camera = nothing_published, pb_last = None\<rparr>"

definition two_layers :: "rtc_stats list" where
  "two_layers = [Other_Stats, Pair_Stats \<lparr>ip_id = ''a'', ip_local = ''l'', ip_nominated = True, ip_rtt = 0, ip_available = 0\<rparr>,
     Outbound_Stats \<lparr>ob_bytes = 10, ob_width = 640, ob_height = 360, ob_fps = 0, ob_hardware = False, ob_limit = Limited_Cpu\<rparr>,
     Outbound_Stats \<lparr>ob_bytes = 30, ob_width = 1280, ob_height = 720, ob_fps = 0, ob_hardware = False, ob_limit = Not_Limited\<rparr>]"

theorem panel_reads_report_witness:
  "\<exists>st p'. publisher_stats_of (Some two_layers) 5 fresh_publisher = (st, p') \<and> pb_last p' = Some (40, 5) \<and> st_bitrate_kbps st = 0"
proof -
  obtain st p' where run: "publisher_stats_of (Some two_layers) 5 fresh_publisher = (st, p')" by force
  have "sum_list (map ob_bytes (outbounds two_layers)) = 40"
    by (simp add: two_layers_def outbounds_def map_filter_def)
  moreover have "pb_last fresh_publisher = None" by (simp add: fresh_publisher_def)
  ultimately show ?thesis
    using run panel_reads_report(1) [OF run] panel_reads_report(4) [OF run] by auto
qed

end
