(* ===== verification/Audio.thy ===== *)
theory Audio
  imports Publisher "HOL-Library.Sublist"
begin

text \<open>
  \<^verbatim>\<open>desktop/src-tauri/src/audio.rs\<close>: which sound a share carries and which it says it carries, and the way of the
  captured packets to the encoder.  Windows is a parameter: the process list, whether a loopback opens, the packets.
\<close>

section \<open>Modes and targets\<close>

datatype audio_mode = Excluding_Discord | Only_Window | Whole_System

datatype audio_target = System_Except_Discord | Window_Target u32

datatype audio_error = Audio_Windows string | Audio_Timeout

definition BITS_PER_SAMPLE :: "16 word" where "BITS_PER_SAMPLE = 16"

text \<open>\<^verbatim>\<open>GetWindowThreadProcessId\<close> answers a thread and a process.\<close>

definition window_owner_pid :: "u32 \<times> u32 \<Rightarrow> u32 option" where
  "window_owner_pid answer = (case answer of (thread, pid) \<Rightarrow> if thread \<noteq> 0 \<and> pid \<noteq> 0 then Some pid else None)"

section \<open>Discord's process tree\<close>

record process =
  pr_pid :: u32
  pr_parent :: u32
  pr_name :: string

definition DISCORD_IMAGES :: "string list" where
  "DISCORD_IMAGES = [''discord.exe'', ''discordptb.exe'', ''discordcanary.exe'', ''discorddevelopment.exe'']"

definition trim_end_spaces :: "string \<Rightarrow> string" where
  "trim_end_spaces s = rev (dropWhile (\<lambda>c. c = CHR '' '') (rev s))"

definition is_discord :: "process \<Rightarrow> bool" where
  "is_discord p \<longleftrightarrow> trim_end_spaces (to_ascii_lowercase (pr_name p)) \<in> set DISCORD_IMAGES"

definition root_of_discord_tree :: "process list \<Rightarrow> u32 option" where
  "root_of_discord_tree processes =
     (let discord = filter is_discord processes in
      map_option pr_pid
        (case find (\<lambda>c. \<not> (\<exists>other \<in> set discord. pr_pid other = pr_parent c)) discord of
           Some p \<Rightarrow> Some p
         | None \<Rightarrow> (case discord of [] \<Rightarrow> None | p # _ \<Rightarrow> Some p)))"

section \<open>Opening the capture\<close>

datatype loopback_mode = Include_Tree | Exclude_Tree

text \<open>What an opened capture listens to; \<open>loop\<close> and \<open>whole\<close> say whether Windows opens it.\<close>

datatype listening = Process_Loopback u32 loopback_mode | Everything

record opened =
  op_listening :: listening
  op_mode :: audio_mode

definition open_process_loopback :: "(u32 \<Rightarrow> loopback_mode \<Rightarrow> audio_error + unit) \<Rightarrow> u32 \<Rightarrow> loopback_mode \<Rightarrow> audio_mode \<Rightarrow> audio_error + opened" where
  "open_process_loopback loop pid lm mode =
     map_sum id (\<lambda>_. \<lparr>op_listening = Process_Loopback pid lm, op_mode = mode\<rparr>) (loop pid lm)"

definition open_whole_system :: "audio_error + unit \<Rightarrow> audio_error + opened" where
  "open_whole_system whole = map_sum id (\<lambda>_. \<lparr>op_listening = Everything, op_mode = Whole_System\<rparr>) whole"

definition open_system_except_discord ::
  "(u32 \<Rightarrow> loopback_mode \<Rightarrow> audio_error + unit) \<Rightarrow> audio_error + unit \<Rightarrow> process list \<Rightarrow> audio_error + opened" where
  "open_system_except_discord loop whole processes =
     (case root_of_discord_tree processes of
        None \<Rightarrow> open_whole_system whole
      | Some pid \<Rightarrow>
          (case open_process_loopback loop pid Exclude_Tree Excluding_Discord of
             Inr o' \<Rightarrow> Inr o'
           | Inl _ \<Rightarrow> open_whole_system whole))"

definition open_client ::
  "(u32 \<Rightarrow> loopback_mode \<Rightarrow> audio_error + unit) \<Rightarrow> audio_error + unit \<Rightarrow> process list \<Rightarrow> audio_target \<Rightarrow> audio_error + opened" where
  "open_client loop whole processes target =
     (case target of
        Window_Target pid \<Rightarrow>
          (case open_process_loopback loop pid Include_Tree Only_Window of
             Inr o' \<Rightarrow> Inr o'
           | Inl _ \<Rightarrow> open_system_except_discord loop whole processes)
      | System_Except_Discord \<Rightarrow> open_system_except_discord loop whole processes)"

text \<open>
  What \<^verbatim>\<open>run\<close> answers before its loop: nothing when the opened capture does not start, since \<^verbatim>\<open>pump\<close> then returns
  without an answer.
\<close>

definition audio_answer :: "bool \<Rightarrow> audio_error + opened \<Rightarrow> bool \<Rightarrow> (audio_error + opened) option" where
  "audio_answer com client started =
     (if \<not> com then Some (Inl (Audio_Windows ''nao consegui inicializar o COM''))
      else case client of
        Inl e \<Rightarrow> Some (Inl e)
      | Inr o' \<Rightarrow> if started then Some (Inr o') else None)"

text \<open>\<^verbatim>\<open>start\<close>: \<open>answer\<close> is \<open>None\<close> when nothing comes within five seconds, or the thread ends without an answer.\<close>

definition audio_start :: "bool \<Rightarrow> (audio_error + opened) option \<Rightarrow> audio_error + audio_mode" where
  "audio_start spawned answer =
     (if \<not> spawned then Inl Audio_Timeout
      else case answer of
        Some (Inr o') \<Rightarrow> Inr (op_mode o')
      | Some (Inl e) \<Rightarrow> Inl e
      | None \<Rightarrow> Inl Audio_Timeout)"

record wave_format =
  wf_channels :: "16 word"
  wf_samples_per_sec :: u32
  wf_bytes_per_sec :: u32
  wf_block_align :: "16 word"
  wf_bits :: "16 word"

definition wave_format :: wave_format where
  "wave_format =
     (let channels = (ucast CHANNELS :: 16 word); block_align = channels * BITS_PER_SAMPLE div 8 in
      \<lparr>wf_channels = channels, wf_samples_per_sec = SAMPLE_RATE, wf_bytes_per_sec = SAMPLE_RATE * ucast block_align,
       wf_block_align = block_align, wf_bits = BITS_PER_SAMPLE\<rparr>)"

text \<open>A capture that opens and does not start is reported as slow, and the whole system is not tried.\<close>

lemma unstarted_is_timeout: "audio_start True (audio_answer True (Inr o') False) = Inl Audio_Timeout"
  by (simp add: audio_start_def audio_answer_def)

section \<open>Packets\<close>

type_synonym i16 = "16 word"

text \<open>A packet of WASAPI: the samples behind its pointer (\<open>None\<close>: null), its frames, and whether it is flagged silent.\<close>

record packet =
  pk_data :: "i16 list option"
  pk_count :: u32
  pk_silent :: bool

text \<open>
  The channel of depth 32 to the task that feeds the encoder, with what was dropped for want of room, and the samples
  per channel the encoder took.
\<close>

record audio =
  au_queue :: "i16 list list"
  au_dropped :: nat
  au_delivered :: u64

definition QUEUE_DEPTH :: nat where "QUEUE_DEPTH = 32"

text \<open>The block of a packet; \<open>None\<close> when it would read past the packet's memory.\<close>

definition packet_block :: "packet \<Rightarrow> i16 list option" where
  "packet_block pk =
     (let samples = unat (pk_count pk) * unat CHANNELS in
      case pk_data pk of
        Some d \<Rightarrow> if pk_silent pk then Some (replicate samples 0) else slice d 0 samples
      | None \<Rightarrow> Some (replicate samples 0))"

definition audio_packet :: "packet \<Rightarrow> audio \<Rightarrow> audio option" where
  "audio_packet pk a =
     (if pk_count pk > 0 then
        map_option (\<lambda>block. if length (au_queue a) < QUEUE_DEPTH then a\<lparr>au_queue := au_queue a @ [block]\<rparr>
            else a\<lparr>au_dropped := au_dropped a + 1\<rparr>) (packet_block pk)
      else Some a)"

text \<open>One turn of the feeding task: it takes a block, and counts it when the encoder accepts the frame.\<close>

definition audio_feed :: "bool \<Rightarrow> audio \<Rightarrow> audio \<times> i16 list option" where
  "audio_feed accepts a =
     (case au_queue a of
        [] \<Rightarrow> (a, None)
      | block # rest \<Rightarrow>
          let per_channel = (of_nat (length block div unat CHANNELS) :: u32); a' = a\<lparr>au_queue := rest\<rparr> in
          if per_channel = 0 then (a', None)
          else (if accepts then a'\<lparr>au_delivered := au_delivered a' + ucast per_channel\<rparr> else a', Some block))"

datatype audio_event = Packet packet | Feed bool

fun audio_events :: "audio_event list \<Rightarrow> audio \<Rightarrow> (i16 list list \<times> audio) option" where
  "audio_events [] a = Some ([], a)"
| "audio_events (Packet pk # es) a = Option.bind (audio_packet pk a) (audio_events es)"
| "audio_events (Feed accepts # es) a =
     (case audio_feed accepts a of (a', fed) \<Rightarrow>
        map_option (\<lambda>(blocks, a''). ((case fed of None \<Rightarrow> blocks | Some b \<Rightarrow> b # blocks), a'')) (audio_events es a'))"

definition audio_new :: audio where
  "audio_new = \<lparr>au_queue = [], au_dropped = 0, au_delivered = 0\<rparr>"

section \<open>Nobody's voice goes back\<close>

definition discord_of :: "process list \<Rightarrow> process set" where
  "discord_of processes = {p \<in> set processes. is_discord p}"

definition is_root :: "process list \<Rightarrow> process \<Rightarrow> bool" where
  "is_root processes p \<longleftrightarrow> p \<in> discord_of processes \<and> (\<forall>q \<in> discord_of processes. pr_pid q \<noteq> pr_parent p)"

text \<open>The processes Windows excludes with a process: those under it.\<close>

inductive_set tree :: "process list \<Rightarrow> u32 \<Rightarrow> process set" for processes :: "process list" and root :: u32 where
  here: "p \<in> set processes \<Longrightarrow> pr_pid p = root \<Longrightarrow> p \<in> tree processes root"
| child: "q \<in> tree processes root \<Longrightarrow> p \<in> set processes \<Longrightarrow> pr_parent p = pr_pid q \<Longrightarrow> p \<in> tree processes root"

lemma root_of_Some:
  assumes "root_of_discord_tree processes = Some pid"
  shows "\<exists>p \<in> discord_of processes. pr_pid p = pid \<and> ((\<exists>r. is_root processes r) \<longrightarrow> is_root processes p)"
proof -
  define discord where "discord = filter is_discord processes"
  have set: "set discord = discord_of processes" by (auto simp: discord_def discord_of_def)
  let ?P = "\<lambda>c. \<not> (\<exists>other \<in> set discord. pr_pid other = pr_parent c)"
  show ?thesis
  proof (cases "find ?P discord")
    case (Some p)
    then have "p \<in> set discord \<and> ?P p" by (rule find_Some_in)
    then show ?thesis
      using assms Some by (intro bexI [of _ p]) (auto simp: root_of_discord_tree_def discord_def [symmetric] is_root_def set)
  next
    case None
    then have "\<not> is_root processes r" for r by (auto simp: find_None_iff is_root_def set)
    moreover obtain p ps where "discord = p # ps" "pr_pid p = pid"
      using assms None by (cases discord) (simp_all add: root_of_discord_tree_def flip: discord_def)
    ultimately show ?thesis using set by (intro bexI [of _ p]) auto
  qed
qed

lemma root_of_None: "root_of_discord_tree processes = None \<longleftrightarrow> discord_of processes = {}"
  by (auto simp: root_of_discord_tree_def discord_of_def filter_empty_conv filter_eq_Cons_iff Let_def find_None_iff split: option.splits list.splits)

text \<open>Where parenthood among Discord's processes does not go round, each of them is under a root.\<close>

lemma discord_under_roots:
  assumes rank: "\<And>p q. p \<in> discord_of processes \<Longrightarrow> q \<in> discord_of processes \<Longrightarrow> pr_pid q = pr_parent p \<Longrightarrow>
      rank (pr_pid q) < (rank (pr_pid p) :: nat)"
    and "p \<in> discord_of processes"
  shows "\<exists>r. is_root processes r \<and> p \<in> tree processes (pr_pid r)"
  using assms(2)
proof (induction "rank (pr_pid p)" arbitrary: p rule: less_induct)
  case less
  then have p: "p \<in> set processes" by (simp add: discord_of_def)
  show ?case
  proof (cases "is_root processes p")
    case True
    then show ?thesis using p by (auto intro: tree.here)
  next
    case False
    then obtain q where q: "q \<in> discord_of processes" "pr_pid q = pr_parent p" using less.prems by (auto simp: is_root_def)
    from less.hyps [OF rank [OF less.prems q] q(1)] obtain r where "is_root processes r" "q \<in> tree processes (pr_pid r)" by blast
    with q(2) p show ?thesis by (metis tree.child)
  qed
qed

text \<open>
  C34.  What is left out is Discord's own tree: provided parenthood among Discord's processes does not go round, the
  process the capture excludes is a root of Discord, that is, a process of Discord whose parent is not one, and each
  process of Discord is in the tree of the excluded one or in that of another root with another id.  So all of
  Discord is left out when it runs once.  Nothing is excluded only when no process of Discord runs.
\<close>

theorem discord_left_out:
  assumes rank: "\<And>p q. p \<in> discord_of processes \<Longrightarrow> q \<in> discord_of processes \<Longrightarrow> pr_pid q = pr_parent p \<Longrightarrow>
      rank (pr_pid q) < (rank (pr_pid p) :: nat)"
  shows "case root_of_discord_tree processes of
     None \<Rightarrow> discord_of processes = {}
   | Some pid \<Rightarrow> (\<exists>r. is_root processes r \<and> pr_pid r = pid) \<and>
       discord_of processes \<subseteq> tree processes pid \<union> \<Union> {tree processes (pr_pid r) |r. is_root processes r \<and> pr_pid r \<noteq> pid}"
proof (cases "root_of_discord_tree processes")
  case None
  then show ?thesis using root_of_None [of processes] by simp
next
  case (Some pid)
  note under = discord_under_roots [of processes rank, OF rank]
  obtain p where "p \<in> discord_of processes" using root_of_None [of processes] Some by auto
  with under root_of_Some [OF Some] have "\<exists>r. is_root processes r \<and> pr_pid r = pid" by blast
  moreover have "discord_of processes \<subseteq> tree processes pid \<union> \<Union> {tree processes (pr_pid r) |r. is_root processes r \<and> pr_pid r \<noteq> pid}"
    using under by blast
  ultimately show ?thesis by (simp add: Some)
qed

text \<open>Discord running twice (say, stable and PTB): one root is excluded, and the other one stays in the sound.\<close>

lemma two_discords_one_heard:
  defines "ps \<equiv> [\<lparr>pr_pid = 1000, pr_parent = 900, pr_name = ''Discord.exe''\<rparr>,
    \<lparr>pr_pid = 2000, pr_parent = 900, pr_name = ''DiscordPTB.exe''\<rparr>]"
  shows "root_of_discord_tree ps = Some 1000" "ps ! 1 \<in> discord_of ps" "ps ! 1 \<notin> tree ps 1000"
proof -
  show "root_of_discord_tree ps = Some 1000" unfolding ps_def by code_simp
  have "is_discord (ps ! 1)" unfolding ps_def by code_simp
  then show "ps ! 1 \<in> discord_of ps" by (simp add: discord_of_def ps_def)
  have "p \<in> tree ps 1000 \<Longrightarrow> pr_pid p = 1000" for p
    by (induction rule: tree.induct) (auto simp: ps_def)
  then have "ps ! 1 \<in> tree ps 1000 \<Longrightarrow> pr_pid (ps ! 1) = 1000" by blast
  then show "ps ! 1 \<notin> tree ps 1000" by (auto simp: ps_def)
qed

theorem discord_left_out_witness:
  fixes ps :: "process list"
  defines "ps \<equiv> [\<lparr>pr_pid = 1002, pr_parent = 1000, pr_name = ''Discord.exe''\<rparr>,
    \<lparr>pr_pid = 1000, pr_parent = 900, pr_name = ''Discord.exe ''\<rparr>,
    \<lparr>pr_pid = 900, pr_parent = 4, pr_name = ''explorer.exe''\<rparr>, \<lparr>pr_pid = 0, pr_parent = 0, pr_name = ''[System Process]''\<rparr>]"
  shows "discord_of ps \<noteq> {} \<and> discord_of ps \<subseteq> tree ps 1000"
proof -
  have four: "is_discord (ps ! 0)" "is_discord (ps ! 1)" "\<not> is_discord (ps ! 2)" "\<not> is_discord (ps ! 3)"
    unfolding ps_def by (code_simp, code_simp, code_simp, code_simp)
  have root: "root_of_discord_tree ps = Some 1000" unfolding ps_def by code_simp
  obtain a b c d where ps: "ps = [a, b, c, d]" and pids: "pr_parent a = pr_pid b" "pr_pid b = 1000" "pr_pid a = 1002" "pr_parent b = 900"
    by (simp add: ps_def)
  have both: "discord_of ps = {a, b}" using four by (auto simp: discord_of_def ps)
  then have only: "is_root ps r \<longleftrightarrow> r = b" for r using pids by (auto simp: is_root_def)
  have rank: "unat (pr_pid q) < unat (pr_pid p)" if "p \<in> discord_of ps" "q \<in> discord_of ps" "pr_pid q = pr_parent p" for p q
    using that pids by (auto simp: both)
  have "discord_of ps \<subseteq> tree ps 1000 \<union> \<Union> {tree ps (pr_pid r) |r. is_root ps r \<and> pr_pid r \<noteq> 1000}"
    using discord_left_out [of ps unat, OF rank] unfolding root option.case by blast
  moreover have "\<not> (is_root ps r \<and> pr_pid r \<noteq> 1000)" for r using only [of r] pids(2) by auto
  ultimately have "discord_of ps \<subseteq> tree ps 1000" by blast
  then show ?thesis using both by simp
qed

section \<open>The mode that is reported\<close>

lemma open_process_loopback_eq:
  "open_process_loopback loop pid lm mode =
     (case loop pid lm of Inl e \<Rightarrow> Inl e | Inr _ \<Rightarrow> Inr \<lparr>op_listening = Process_Loopback pid lm, op_mode = mode\<rparr>)"
  by (simp add: open_process_loopback_def split: sum.split)

text \<open>
  The mode that is reported is what is listened to: only the tree of the window that was asked for, everything but the
  tree of the Discord that was found, or everything; and everything only after the exclusion of Discord was refused or
  no Discord ran.  Opening fails only when the capture of the whole system fails.
\<close>

lemma open_client_mode:
  "case open_client loop whole processes target of
     Inl e \<Rightarrow> whole = Inl e
   | Inr o' \<Rightarrow> (case op_mode o' of
         Only_Window \<Rightarrow> \<exists>pid. target = Window_Target pid \<and> op_listening o' = Process_Loopback pid Include_Tree
       | Excluding_Discord \<Rightarrow> \<exists>pid. root_of_discord_tree processes = Some pid \<and>
           op_listening o' = Process_Loopback pid Exclude_Tree
       | Whole_System \<Rightarrow> op_listening o' = Everything \<and>
           (case root_of_discord_tree processes of None \<Rightarrow> True | Some pid \<Rightarrow> \<exists>e. loop pid Exclude_Tree = Inl e))"
  by (cases whole)
    (auto simp: open_client_def open_system_except_discord_def open_whole_system_def open_process_loopback_eq
      split: audio_target.split option.split sum.split audio_mode.split)

section \<open>No packet is reordered or lost uncounted\<close>

definition whole_block :: "i16 list \<Rightarrow> bool" where
  "whole_block block \<longleftrightarrow> (\<exists>n :: u32. n \<noteq> 0 \<and> length block = unat n * unat CHANNELS)"

definition queue_ok :: "audio \<Rightarrow> bool" where
  "queue_ok a \<longleftrightarrow> length (au_queue a) \<le> QUEUE_DEPTH \<and>
     (\<forall>block \<in> set (au_queue a). whole_block block)"

fun captured_blocks :: "audio_event list \<Rightarrow> i16 list list" where
  "captured_blocks [] = []"
| "captured_blocks (Packet pk # es) =
     (if pk_count pk > 0 then the (packet_block pk) # captured_blocks es else captured_blocks es)"
| "captured_blocks (Feed _ # es) = captured_blocks es"

lemma packet_block_length: "packet_block pk = Some block \<Longrightarrow> length block = unat (pk_count pk) * unat CHANNELS"
  by (auto simp: packet_block_def Let_def slice_def split: option.splits if_splits)

lemma per_channel: "(of_nat (unat (n :: u32) * unat CHANNELS div unat CHANNELS) :: u32) = n"
  by (simp add: CHANNELS_def)

lemma packet_block_whole: "packet_block pk = Some block \<Longrightarrow> pk_count pk > 0 \<Longrightarrow> whole_block block"
  unfolding whole_block_def by (rule exI [of _ "pk_count pk"]) (simp add: packet_block_length word_gt_0)

lemma audio_packet_step:
  assumes "audio_packet pk a = Some a'" "queue_ok a"
  shows "queue_ok a'"
    "subseq (au_queue a') (au_queue a @ captured_blocks [Packet pk])"
    "length (au_queue a') + au_dropped a' = length (au_queue a) + au_dropped a + length (captured_blocks [Packet pk])"
    "take (length (au_queue a)) (au_queue a') = au_queue a"
proof -
  have "queue_ok a' \<and> (subseq (au_queue a') (au_queue a @ captured_blocks [Packet pk]) \<and>
    length (au_queue a') + au_dropped a' = length (au_queue a) + au_dropped a + length (captured_blocks [Packet pk]) \<and>
    take (length (au_queue a)) (au_queue a') = au_queue a)"
    using assms by (cases "length (au_queue a) < QUEUE_DEPTH")
      (auto simp: audio_packet_def queue_ok_def packet_block_whole split: if_splits)
  then show "queue_ok a'"
    "subseq (au_queue a') (au_queue a @ captured_blocks [Packet pk])"
    "length (au_queue a') + au_dropped a' = length (au_queue a) + au_dropped a + length (captured_blocks [Packet pk])"
    "take (length (au_queue a)) (au_queue a') = au_queue a" by blast+
qed

lemma audio_feed_step:
  assumes "audio_feed accepts a = (a', fed)" "queue_ok a"
  shows "queue_ok a'" "(case fed of None \<Rightarrow> [] | Some b \<Rightarrow> [b]) @ au_queue a' = au_queue a" "au_dropped a' = au_dropped a"
proof -
  have "queue_ok a' \<and> (case fed of None \<Rightarrow> [] | Some b \<Rightarrow> [b]) @ au_queue a' = au_queue a \<and> au_dropped a' = au_dropped a"
  proof (cases "au_queue a")
    case Nil
    then show ?thesis using assms by (auto simp: audio_feed_def)
  next
    case (Cons block rest)
    then obtain n :: u32 where n: "n \<noteq> 0" "length block = unat n * unat CHANNELS"
      using assms(2) by (auto simp: queue_ok_def whole_block_def)
    then have "(of_nat (length block div unat CHANNELS) :: u32) = n" by (simp only: per_channel)
    then show ?thesis using assms Cons n(1) by (cases accepts) (auto simp: audio_feed_def Let_def queue_ok_def simp del: nonzero_mult_div_cancel_right)
  qed
  then show "queue_ok a'" "(case fed of None \<Rightarrow> [] | Some b \<Rightarrow> [b]) @ au_queue a' = au_queue a" "au_dropped a' = au_dropped a"
    by blast+
qed

lemma audio_events_conserve:
  assumes "audio_events es a = Some (fed, a')" "queue_ok a"
  shows "queue_ok a' \<and> subseq (fed @ au_queue a') (au_queue a @ captured_blocks es) \<and>
    length fed + length (au_queue a') + au_dropped a' = length (au_queue a) + au_dropped a + length (captured_blocks es)"
  using assms
proof (induction es arbitrary: a fed)
  case (Cons e es)
  show ?case
  proof (cases e)
    case (Packet pk)
    then obtain b where b: "audio_packet pk a = Some b" "audio_events es b = Some (fed, a')"
      using Cons.prems(1) by (auto simp: bind_eq_Some_conv)
    note step = audio_packet_step [OF b(1) Cons.prems(2)]
    note rest = Cons.IH [OF b(2) step(1)]
    have split: "captured_blocks (e # es) = captured_blocks [Packet pk] @ captured_blocks es" using Packet by simp
    have "subseq (au_queue b @ captured_blocks es) (au_queue a @ captured_blocks (e # es))"
      unfolding split using step(2) by (metis append_assoc list_emb_append_mono subseq_order.order_refl)
    then show ?thesis using rest step(3) unfolding split by (auto intro: subseq_order.trans)
  next
    case (Feed accepts)
    obtain b f where f: "audio_feed accepts a = (b, f)" by fastforce
    then obtain later where later: "audio_events es b = Some (later, a')"
        "fed = (case f of None \<Rightarrow> [] | Some x \<Rightarrow> [x]) @ later"
      using Cons.prems(1) Feed by (auto split: option.splits)
    note step = audio_feed_step [OF f Cons.prems(2)]
    note rest = Cons.IH [OF later(1) step(1)]
    let ?f = "case f of None \<Rightarrow> [] | Some x \<Rightarrow> [x]"
    have "length ?f + length (au_queue b) = length (au_queue a)" using step(2) by (metis length_append)
    moreover have "subseq (?f @ later @ au_queue a') (?f @ au_queue b @ captured_blocks es)"
      using rest by (intro list_emb_append_mono [OF subseq_order.order_refl]) simp
    moreover have "au_queue a = ?f @ au_queue b" "captured_blocks (e # es) = captured_blocks es"
      using step(2) Feed by simp_all
    ultimately show ?thesis using rest step(3) later(2) by (simp only: append_assoc length_append) (elim conjE, intro conjI TrueI, linarith)
  qed
qed simp

text \<open>
  C32. Whatever the order of packets and feeding, what reaches the encoder and what waits for it is the captured sound in
  its order, with whole blocks left out; every block is fed, waiting or counted as dropped; and no more than 32 wait.
\<close>

theorem audio_accounted:
  assumes "audio_events es audio_new = Some (fed, a')"
  shows "subseq (fed @ au_queue a') (captured_blocks es)
    \<and> length fed + length (au_queue a') + au_dropped a' = length (captured_blocks es) \<and> length (au_queue a') \<le> 32"
proof -
  have "queue_ok audio_new" by (simp add: audio_new_def queue_ok_def)
  from audio_events_conserve [OF assms this] show ?thesis
    by (simp add: audio_new_def queue_ok_def QUEUE_DEPTH_def)
qed

theorem audio_accounted_witness:
  "length ([[1, 2]] :: i16 list list) + length [[0, 0]] + 0 =
     length (captured_blocks [Packet \<lparr>pk_data = Some [1, 2], pk_count = 1, pk_silent = False\<rparr>, Feed True,
       Packet \<lparr>pk_data = None, pk_count = 1, pk_silent = False\<rparr>, Packet \<lparr>pk_data = None, pk_count = 0, pk_silent = True\<rparr>])"
  using audio_accounted [of "[Packet \<lparr>pk_data = Some [1, 2], pk_count = 1, pk_silent = False\<rparr>, Feed True,
       Packet \<lparr>pk_data = None, pk_count = 1, pk_silent = False\<rparr>, Packet \<lparr>pk_data = None, pk_count = 0, pk_silent = True\<rparr>]"
     "[[1, 2]]" "\<lparr>au_queue = [[0, 0]], au_dropped = 0, au_delivered = 1\<rparr>"]
  by (simp add: audio_packet_def audio_feed_def packet_block_def slice_def audio_new_def QUEUE_DEPTH_def CHANNELS_def)

end
