(* ===== verification/Share.thy ===== *)
theory Share
  imports Audio
begin

text \<open>
  \<^verbatim>\<open>desktop/src-tauri/src/share.rs\<close>: the commands of the interface, over one publishing connection and at most two
  sources on it.  Every command holds the lock of \<^verbatim>\<open>Live\<close> from its first step to its last, so a run is a sequence of
  whole commands and of the tasks \<^verbatim>\<open>give_up\<close> schedules.  What LiveKit, Windows and the threads answer during a command
  is its argument.
\<close>

section \<open>State\<close>

datatype share_failure =
    Already_Sharing
  | Bad_Source
  | Capture_Failure capture_error
  | Publish_Failure publish_error
  | Already_On_Camera
  | Camera_Failure camera_error

datatype audio_report = Report_Excluding_Discord | Report_Only_Window | Report_Whole_System

text \<open>A source on the air: the preview's control and, for the screen, whether an audio capture runs.\<close>

record screen_active =
  sv_control :: control
  sv_audio :: bool

record camera_active =
  ca_control :: control

text \<open>
  \<^verbatim>\<open>Live\<close>, with what happened outside: the connections made and closed, and the \<^verbatim>\<open>share://ended\<close> events.
\<close>

record live =
  lv_publisher :: "publisher option"
  lv_screen :: "screen_active option"
  lv_camera :: "camera_active option"
  lv_joined :: nat
  lv_left :: nat
  lv_ended :: "(stream_source \<times> string) list"

definition live_new :: live where
  "live_new = \<lparr>lv_publisher = None, lv_screen = None, lv_camera = None, lv_joined = 0, lv_left = 0, lv_ended = []\<rparr>"

definition close_if_idle :: "live \<Rightarrow> live" where
  "close_if_idle s =
     (if lv_screen s \<noteq> None \<or> lv_camera s \<noteq> None then s
      else case lv_publisher s of
        None \<Rightarrow> s
      | Some _ \<Rightarrow> s\<lparr>lv_publisher := None, lv_left := lv_left s + 1\<rparr>)"

definition connect :: "string + unit \<Rightarrow> live \<Rightarrow> (share_failure + publisher) \<times> live" where
  "connect answer s =
     (case lv_publisher s of
        Some p \<Rightarrow> (Inr p, s)
      | None \<Rightarrow>
          (case publisher_connect answer of
             Inl e \<Rightarrow> (Inl (Publish_Failure e), s)
           | Inr p \<Rightarrow> (Inr p, s\<lparr>lv_publisher := Some p, lv_joined := lv_joined s + 1\<rparr>)))"

definition release :: "stream_source \<Rightarrow> (sid \<Rightarrow> bool) \<Rightarrow> live \<Rightarrow> live" where
  "release source took s =
     close_if_idle
       ((case source of Screen_Source \<Rightarrow> s\<lparr>lv_screen := None\<rparr> | Camera_Source \<Rightarrow> s\<lparr>lv_camera := None\<rparr>)
          \<lparr>lv_publisher := map_option (unpublish source took) (lv_publisher s)\<rparr>)"

definition give_up :: "stream_source \<Rightarrow> string \<Rightarrow> (sid \<Rightarrow> bool) \<Rightarrow> live \<Rightarrow> live" where
  "give_up source reason took s =
     (let s' = release source took s in s'\<lparr>lv_ended := lv_ended s' @ [(source, reason)]\<rparr>)"

text \<open>The reason \<^verbatim>\<open>connect\<close> hands on when the server ends the connection, for both sources.\<close>

definition connection_lost :: "string \<Rightarrow> (sid \<Rightarrow> bool) \<Rightarrow> live \<Rightarrow> live" where
  "connection_lost reason took s =
     fold (\<lambda>source. give_up source (''a conexao de transmissao caiu ('' @ reason @ '')'') took) [Screen_Source, Camera_Source] s"

section \<open>Starting\<close>

definition audio_target_of :: "(u64 \<Rightarrow> u32 \<times> u32) \<Rightarrow> source_kind \<Rightarrow> u64 \<Rightarrow> audio_target" where
  "audio_target_of owner kind n =
     (case kind of
        WindowKind \<Rightarrow> (case window_owner_pid (owner n) of None \<Rightarrow> System_Except_Discord | Some pid \<Rightarrow> Window_Target pid)
      | ScreenKind \<Rightarrow> System_Except_Discord)"

fun report_of :: "audio_mode \<Rightarrow> audio_report" where
  "report_of Excluding_Discord = Report_Excluding_Discord"
| "report_of Only_Window = Report_Only_Window"
| "report_of Whole_System = Report_Whole_System"

definition start_audio :: "(audio_target \<Rightarrow> audio_error + audio_mode) \<Rightarrow> (u64 \<Rightarrow> u32 \<times> u32) \<Rightarrow> bool \<Rightarrow> source_kind \<Rightarrow> u64
    \<Rightarrow> bool \<times> audio_report option" where
  "start_audio begin_audio owner sink kind n =
     (if \<not> sink then (False, None)
      else case begin_audio (audio_target_of owner kind n) of
        Inr mode \<Rightarrow> (True, Some (report_of mode))
      | Inl _ \<Rightarrow> (False, None))"

record start_request =
  rq_source_id :: string
  rq_kind :: source_kind
  rq_preset :: preset
  rq_audio :: bool

text \<open>What the world answers during \<^verbatim>\<open>share_start\<close>.\<close>

record start_world =
  sw_connect :: "string + unit"
  sw_video :: "string + sid"
  sw_sound :: "string + sid"
  sw_platform :: platform
  sw_spawned :: bool
  sw_took :: "sid \<Rightarrow> bool"
  sw_audio :: "audio_target \<Rightarrow> audio_error + audio_mode"
  sw_owner :: "u64 \<Rightarrow> u32 \<times> u32"

definition preview_on :: control where
  "preview_on = control_set True GRID_FPS False control_new"

definition share_start :: "start_request \<Rightarrow> start_world \<Rightarrow> live \<Rightarrow> (share_failure + audio_report option) \<times> live" where
  "share_start rq w s =
     (if lv_screen s \<noteq> None then (Inl Already_Sharing, s)
      else case parse_source_id (rq_source_id rq) of
        None \<Rightarrow> (Inl Bad_Source, s)
      | Some n \<Rightarrow>
          (case connect (sw_connect w) s of
             (Inl e, s1) \<Rightarrow> (Inl e, s1)
           | (Inr p, s1) \<Rightarrow>
               (case publish_screen (rq_preset rq) (rq_audio rq) (sw_video w) (sw_sound w) p of
                  (Inl e, p') \<Rightarrow> (Inl (Publish_Failure e), close_if_idle (s1\<lparr>lv_publisher := Some p'\<rparr>))
                | (Inr sink, p') \<Rightarrow>
                    (case capture_start (sw_platform w) (sw_spawned w) (rq_kind rq) n of
                       Inl e \<Rightarrow> (Inl (Capture_Failure e),
                         close_if_idle (s1\<lparr>lv_publisher := Some (unpublish Screen_Source (sw_took w) p')\<rparr>))
                     | Inr _ \<Rightarrow>
                         (case start_audio (sw_audio w) (sw_owner w) sink (rq_kind rq) n of
                            (running, report) \<Rightarrow> (Inr report, s1\<lparr>lv_publisher := Some p',
                              lv_screen := Some \<lparr>sv_control = preview_on, sv_audio = running\<rparr>\<rparr>))))))"

text \<open>What the world answers during \<^verbatim>\<open>camera_start\<close>; the task that opens the camera may end without an answer.\<close>

record camera_world =
  cw_connect :: "string + unit"
  cw_opened :: "(camera_error + unit) option"
  cw_video :: "string + sid"

definition start_camera :: "camera_world \<Rightarrow> live \<Rightarrow> (share_failure + unit) \<times> live" where
  "start_camera w s =
     (if lv_camera s \<noteq> None then (Inl Already_On_Camera, s)
      else case connect (cw_connect w) s of
        (Inl e, s1) \<Rightarrow> (Inl e, s1)
      | (Inr p, s1) \<Rightarrow>
          (case cw_opened w of
             Some (Inl e) \<Rightarrow> (Inl (Camera_Failure e), close_if_idle s1)
           | None \<Rightarrow> (Inl (Camera_Failure (Platform_Error ''a abertura da camera terminou sem resposta'')), close_if_idle s1)
           | Some (Inr _) \<Rightarrow>
               (case publish_camera (cw_video w) p of
                  (Inl e, p') \<Rightarrow> (Inl (Publish_Failure e), close_if_idle (s1\<lparr>lv_publisher := Some p'\<rparr>))
                | (Inr _, p') \<Rightarrow> (Inr (), s1\<lparr>lv_publisher := Some p', lv_camera := Some \<lparr>ca_control = preview_on\<rparr>\<rparr>))))"

section \<open>The other commands\<close>

definition share_preview :: "bool \<Rightarrow> u32 \<Rightarrow> bool \<Rightarrow> live \<Rightarrow> live" where
  "share_preview enabled fps focused s =
     s\<lparr>lv_screen := map_option (\<lambda>a. a\<lparr>sv_control := control_set enabled fps focused (sv_control a)\<rparr>) (lv_screen s)\<rparr>"

definition camera_preview :: "bool \<Rightarrow> u32 \<Rightarrow> bool \<Rightarrow> live \<Rightarrow> live" where
  "camera_preview enabled fps focused s =
     s\<lparr>lv_camera := map_option (\<lambda>a. a\<lparr>ca_control := control_set enabled fps focused (ca_control a)\<rparr>) (lv_camera s)\<rparr>"

text \<open>The statistics, with the counters of the capture (and of the audio capture) as they are read.\<close>

definition share_stats :: "rtc_stats list option \<Rightarrow> instant \<Rightarrow> u64 \<Rightarrow> u64 \<Rightarrow> u64 \<Rightarrow> live \<Rightarrow> publisher_stats option \<times> live" where
  "share_stats answer now produced delivered samples s =
     (case (lv_publisher s, lv_screen s) of
        (Some p, Some a) \<Rightarrow>
          (case publisher_stats_of answer now p of
             (st, p') \<Rightarrow> (Some (st\<lparr>st_captured := produced, st_encoded := delivered,
                 st_audio := (if sv_audio a then Some samples else None)\<rparr>), s\<lparr>lv_publisher := Some p'\<rparr>))
      | _ \<Rightarrow> (None, s))"

definition camera_stats :: "rtc_stats list option \<Rightarrow> instant \<Rightarrow> u64 \<Rightarrow> u64 \<Rightarrow> live \<Rightarrow> publisher_stats option \<times> live" where
  "camera_stats answer now produced delivered s =
     (case (lv_publisher s, lv_camera s) of
        (Some p, Some a) \<Rightarrow>
          (case publisher_stats_of answer now p of
             (st, p') \<Rightarrow> (Some (st\<lparr>st_captured := produced, st_encoded := delivered, st_audio := None\<rparr>),
               s\<lparr>lv_publisher := Some p'\<rparr>))
      | _ \<Rightarrow> (None, s))"

definition own_windows :: "u64 option list \<Rightarrow> u64 list" where
  "own_windows hwnds = List.map_filter id hwnds"

definition share_sources :: "platform \<Rightarrow> u64 option list \<Rightarrow> share_source list" where
  "share_sources os hwnds = list_sources os (own_windows hwnds)"

text \<open>A thumbnail whose task panics is no thumbnail.\<close>

definition share_thumbnail :: "media \<Rightarrow> jpeg \<Rightarrow> platform \<Rightarrow> source_kind \<Rightarrow> string \<Rightarrow> (nat \<Rightarrow> frame_result list) \<Rightarrow> string option" where
  "share_thumbnail md jpeg os kind i results =
     (case parse_source_id i of
        None \<Rightarrow> None
      | Some n \<Rightarrow>
          (case thumbnail md os kind n THUMBNAIL_MAX results of
             None \<Rightarrow> None
           | Some (_, _, f) \<Rightarrow> Option.bind f (encode_data_url jpeg)))"

definition camera_list :: "camera_device list option \<Rightarrow> camera_device list" where
  "camera_list devices = (case devices of None \<Rightarrow> [] | Some ds \<Rightarrow> ds)"

section \<open>Runs\<close>

datatype share_command =
    Start_Share start_request start_world
  | Start_Camera camera_world
  | Stop_Share "sid \<Rightarrow> bool"
  | Stop_Camera "sid \<Rightarrow> bool"
  | Set_Share_Preview bool u32 bool
  | Set_Camera_Preview bool u32 bool
  | Read_Share_Stats "rtc_stats list option" instant u64 u64 u64
  | Read_Camera_Stats "rtc_stats list option" instant u64 u64
  | Give_Up stream_source string "sid \<Rightarrow> bool"
  | Connection_Lost string "sid \<Rightarrow> bool"

fun share_step :: "share_command \<Rightarrow> live \<Rightarrow> live" where
  "share_step (Start_Share rq w) s = snd (share_start rq w s)"
| "share_step (Start_Camera w) s = snd (start_camera w s)"
| "share_step (Stop_Share took) s = release Screen_Source took s"
| "share_step (Stop_Camera took) s = release Camera_Source took s"
| "share_step (Set_Share_Preview enabled fps focused) s = share_preview enabled fps focused s"
| "share_step (Set_Camera_Preview enabled fps focused) s = camera_preview enabled fps focused s"
| "share_step (Read_Share_Stats answer now produced delivered samples) s = snd (share_stats answer now produced delivered samples s)"
| "share_step (Read_Camera_Stats answer now produced delivered) s = snd (camera_stats answer now produced delivered s)"
| "share_step (Give_Up source reason took) s = give_up source reason took s"
| "share_step (Connection_Lost reason took) s = connection_lost reason took s"

definition share_run :: "share_command list \<Rightarrow> live" where
  "share_run steps = fold share_step steps live_new"

section \<open>Connected exactly while something is on the air\<close>

definition counts_ok :: "live \<Rightarrow> bool" where
  "counts_ok s \<longleftrightarrow> lv_joined s = lv_left s + (if lv_publisher s = None then 0 else 1)"

definition on_air_ok :: "live \<Rightarrow> bool" where
  "on_air_ok s \<longleftrightarrow>
     (lv_screen s \<noteq> None \<longrightarrow> (\<exists>p. lv_publisher s = Some p \<and> pd_video (pb_screen p) \<noteq> None))
     \<and> (lv_camera s \<noteq> None \<longrightarrow> (\<exists>p. lv_publisher s = Some p \<and> pd_video (pb_camera p) \<noteq> None))"

definition live_ok :: "live \<Rightarrow> bool" where
  "live_ok s \<longleftrightarrow> counts_ok s \<and> on_air_ok s \<and> (lv_publisher s \<noteq> None \<longrightarrow> lv_screen s \<noteq> None \<or> lv_camera s \<noteq> None)"

lemma live_new_ok: "live_ok live_new"
  by (simp add: live_ok_def counts_ok_def on_air_ok_def live_new_def)

lemma close_if_idle_ok: "counts_ok s \<Longrightarrow> on_air_ok s \<Longrightarrow> live_ok (close_if_idle s)"
  by (auto simp: live_ok_def close_if_idle_def counts_ok_def on_air_ok_def split: option.splits)

lemma close_if_idle_simps [simp]:
  "lv_screen (close_if_idle s) = lv_screen s" "lv_camera (close_if_idle s) = lv_camera s"
  "lv_ended (close_if_idle s) = lv_ended s"
  "lv_joined (close_if_idle s) = lv_joined s"
  by (auto simp: close_if_idle_def split: option.splits)

lemma connect_ok:
  assumes "live_ok s" and "connect answer s = (r, s1)"
  shows "counts_ok s1" "on_air_ok s1" "lv_screen s1 = lv_screen s" "lv_camera s1 = lv_camera s"
    "r = Inr p \<Longrightarrow> lv_publisher s1 = Some p" "r = Inl e \<Longrightarrow> s1 = s"
  using assms
  by (auto simp: connect_def live_ok_def counts_ok_def on_air_ok_def split: option.splits sum.splits)

lemma publish_screen_frame:
  assumes "publish_screen preset sound video audio p = (r, p')"
  shows "pb_camera p' = pb_camera p" "r = Inr sink \<Longrightarrow> pd_video (pb_screen p') \<noteq> None"
  using assms by (auto simp: publish_screen_def publish_track_def Let_def split: sum.splits prod.splits if_splits)

lemma publish_camera_frame:
  assumes "publish_camera video p = (r, p')"
  shows "pb_screen p' = pb_screen p" "r = Inr u \<Longrightarrow> pd_video (pb_camera p') \<noteq> None"
  using assms by (auto simp: publish_camera_def publish_track_def split: sum.splits prod.splits)

lemma unpublish_frame [simp]:
  "pb_camera (unpublish Screen_Source took p) = pb_camera p" "pb_screen (unpublish Camera_Source took p) = pb_screen p"
  by (simp_all add: unpublish_def Let_def)

lemma release_ok: "live_ok s \<Longrightarrow> live_ok (release source took s)"
  unfolding release_def
  by (rule close_if_idle_ok) (cases source; auto simp: live_ok_def counts_ok_def on_air_ok_def)+

lemma give_up_ok: "live_ok s \<Longrightarrow> live_ok (give_up source reason took s)"
  using release_ok [of s source took] by (simp add: give_up_def Let_def live_ok_def counts_ok_def on_air_ok_def)

lemma share_start_ok:
  assumes "live_ok s"
  shows "live_ok (snd (share_start rq w s))"
proof (cases "lv_screen s = None")
  case idle: True
  show ?thesis
  proof (cases "parse_source_id (rq_source_id rq)")
    case (Some n)
    obtain r s1 where c: "connect (sw_connect w) s = (r, s1)" by (cases "connect (sw_connect w) s")
    note ok = connect_ok [OF assms c]
    show ?thesis
    proof (cases r)
      case (Inl e)
      then show ?thesis using assms idle Some c ok(6) by (simp add: share_start_def)
    next
      case (Inr p)
      obtain r2 p' where p: "publish_screen (rq_preset rq) (rq_audio rq) (sw_video w) (sw_sound w) p = (r2, p')"
        by (cases "publish_screen (rq_preset rq) (rq_audio rq) (sw_video w) (sw_sound w) p")
      note frame = publish_screen_frame [OF p]
      have closed: "live_ok (close_if_idle (s1\<lparr>lv_publisher := Some q\<rparr>))" if "pb_camera q = pb_camera p" for q
        using ok idle Inr that by (intro close_if_idle_ok) (auto simp: counts_ok_def on_air_ok_def)
      have opened: "live_ok (s1\<lparr>lv_publisher := Some p', lv_screen := Some a\<rparr>)" if "r2 = Inr sink" for a sink
        using ok idle Inr that frame by (auto simp: live_ok_def counts_ok_def on_air_ok_def)
      show ?thesis
        using idle Some c Inr p closed frame(1) opened
        by (auto simp: share_start_def split: sum.split prod.split)
    qed
  qed (use assms idle in \<open>simp add: share_start_def\<close>)
qed (use assms in \<open>auto simp: share_start_def\<close>)

lemma start_camera_ok:
  assumes "live_ok s"
  shows "live_ok (snd (start_camera w s))"
proof (cases "lv_camera s = None")
  case idle: True
  obtain r s1 where c: "connect (cw_connect w) s = (r, s1)" by (cases "connect (cw_connect w) s")
  note ok = connect_ok [OF assms c]
  show ?thesis
  proof (cases r)
    case (Inl e)
    then show ?thesis using assms idle c ok(6) by (simp add: start_camera_def)
  next
    case (Inr p)
    obtain r2 p' where p: "publish_camera (cw_video w) p = (r2, p')" by (cases "publish_camera (cw_video w) p")
    note frame = publish_camera_frame [OF p]
    have closed: "live_ok (close_if_idle (s1\<lparr>lv_publisher := Some p'\<rparr>))" "live_ok (close_if_idle s1)"
      using ok idle Inr frame(1) by (auto intro!: close_if_idle_ok simp: counts_ok_def on_air_ok_def)
    have opened: "live_ok (s1\<lparr>lv_publisher := Some p', lv_camera := Some a\<rparr>)" if "r2 = Inr u" for a u
      using ok idle Inr that frame by (auto simp: live_ok_def counts_ok_def on_air_ok_def)
    show ?thesis
      using idle c Inr p closed opened by (auto simp: start_camera_def split: sum.split option.split)
  qed
qed (use assms in \<open>auto simp: start_camera_def\<close>)

lemma publisher_stats_keeps: "pb_screen (snd (publisher_stats_of answer now p)) = pb_screen p"
  "pb_camera (snd (publisher_stats_of answer now p)) = pb_camera p"
  by (auto simp: publisher_stats_of_def Let_def split: option.split)

lemma publisher_update_ok:
  "live_ok s \<Longrightarrow> lv_publisher s = Some p \<Longrightarrow> pb_screen q = pb_screen p \<Longrightarrow> pb_camera q = pb_camera p
     \<Longrightarrow> live_ok (s\<lparr>lv_publisher := Some q\<rparr>)"
  by (simp add: live_ok_def counts_ok_def on_air_ok_def)

lemma stats_ok: "live_ok s \<Longrightarrow> live_ok (snd (share_stats answer now produced delivered samples s))"
  "live_ok s \<Longrightarrow> live_ok (snd (camera_stats answer now produced delivered s))"
  by (auto simp: share_stats_def camera_stats_def case_prod_beta publisher_stats_keeps split: option.split
      intro: publisher_update_ok)

lemma share_step_ok: "live_ok s \<Longrightarrow> live_ok (share_step c s)"
proof (cases c)
  case (Connection_Lost reason took)
  then show "live_ok s \<Longrightarrow> ?thesis" by (simp add: connection_lost_def give_up_ok)
qed (simp_all add: share_start_ok start_camera_ok release_ok give_up_ok stats_ok,
  auto simp: share_preview_def camera_preview_def live_ok_def counts_ok_def on_air_ok_def)

lemma connected_while_on_air_facts:
  "lv_publisher (share_run cs) \<noteq> None \<longleftrightarrow> lv_screen (share_run cs) \<noteq> None \<or> lv_camera (share_run cs) \<noteq> None"
  "lv_joined (share_run cs) = lv_left (share_run cs) + (if lv_publisher (share_run cs) = None then 0 else 1)"
  "on_air_ok (share_run cs)"
proof -
  have "live_ok s \<Longrightarrow> live_ok (fold share_step cs s)" for s
    by (induction cs arbitrary: s) (simp_all add: share_step_ok)
  then have "live_ok (share_run cs)" by (simp add: share_run_def live_new_ok)
  then show "lv_publisher (share_run cs) \<noteq> None \<longleftrightarrow> lv_screen (share_run cs) \<noteq> None \<or> lv_camera (share_run cs) \<noteq> None"
    "lv_joined (share_run cs) = lv_left (share_run cs) + (if lv_publisher (share_run cs) = None then 0 else 1)"
    "on_air_ok (share_run cs)"
    by (auto simp: live_ok_def counts_ok_def on_air_ok_def)
qed

text \<open>
  C3. Whatever the commands, the failures during them, the sources that die and the connections that drop, and in
  whatever order: there is a connection exactly while a source is on the air, every other one that was made was
  closed, which is what gives the place in the room back, and the publisher records a
  published track for each source on the air.
\<close>

theorem connected_while_on_air:
  "(lv_publisher (share_run cs) = None \<longleftrightarrow> lv_screen (share_run cs) = None \<and> lv_camera (share_run cs) = None)
   \<and> lv_joined (share_run cs) = lv_left (share_run cs) + (if lv_publisher (share_run cs) = None then 0 else 1)
   \<and> on_air_ok (share_run cs)"
  using connected_while_on_air_facts [of cs] by blast

section \<open>A start that fails\<close>

text \<open>The tracks a start gets published: the picture, and the sound with it when the share has sound.\<close>

definition start_tracks :: "start_request \<Rightarrow> start_world \<Rightarrow> (sid \<times> track_options) list" where
  "start_tracks rq w =
     (case sw_video w of
        Inl _ \<Rightarrow> []
      | Inr v \<Rightarrow> (v, screen_video_options (rq_preset rq)) #
          (if rq_audio rq then case sw_sound w of Inl _ \<Rightarrow> [] | Inr a \<Rightarrow> [(a, screen_audio_options)] else []))"

lemma publish_screen_tracks:
  assumes "publish_screen (rq_preset rq) (rq_audio rq) (sw_video w) (sw_sound w) p = (r, p')"
  shows "pb_tracks p' = pb_tracks p @ start_tracks rq w"
  using assms by (auto simp: publish_screen_def publish_track_def start_tracks_def Let_def split: sum.splits if_splits)

lemma unpublish_start:
  assumes "publish_screen (rq_preset rq) (rq_audio rq) (sw_video w) (sw_sound w) p = (Inr sink, p')"
    and "pd_audio (pb_screen p) = None"
  shows "pb_tracks (unpublish Screen_Source took p') =
    filter (\<lambda>t. \<not> (fst t \<in> fst ` set (start_tracks rq w) \<and> took (fst t))) (pb_tracks p @ start_tracks rq w)"
proof -
  have "set (List.map_filter id [pd_video (pb_screen p'), pd_audio (pb_screen p')]) = fst ` set (start_tracks rq w)"
    using assms
    by (cases "sw_video w"; cases "sw_sound w"; cases "rq_audio rq")
      (auto simp: publish_screen_def publish_track_def start_tracks_def Let_def map_filter_def)
  then have "pb_tracks (unpublish Screen_Source took p') =
      filter (\<lambda>t. \<not> (fst t \<in> fst ` set (start_tracks rq w) \<and> took (fst t))) (pb_tracks p')"
    by (simp add: unpublish_def Let_def) (rule filter_cong, simp_all add: case_prod_beta)
  then show ?thesis unfolding publish_screen_tracks [OF assms(1)] .
qed

text \<open>Between shares no sound of the screen is recorded; a picture may be, when its sound was refused.\<close>

definition silent_between :: "live \<Rightarrow> bool" where
  "silent_between s \<longleftrightarrow> (\<forall>p. lv_publisher s = Some p \<longrightarrow> lv_screen s = None \<longrightarrow> pd_audio (pb_screen p) = None)"

lemma silent_close: "silent_between s \<Longrightarrow> silent_between (close_if_idle s)"
  by (auto simp: silent_between_def close_if_idle_def split: option.splits)

lemma silent_connect:
  assumes "silent_between s" and "connect answer s = (r, s1)"
  shows "silent_between s1" "lv_screen s1 = lv_screen s" "r = Inr p \<Longrightarrow> lv_publisher s1 = Some p"
  using assms
  by (cases answer; auto simp: connect_def silent_between_def publisher_connect_def nothing_published_def split: option.splits)+

lemma silent_release: "silent_between s \<Longrightarrow> silent_between (release source took s)"
  unfolding release_def
  by (rule silent_close, cases source) (auto simp: silent_between_def unpublish_def nothing_published_def Let_def)

lemma silent_give_up: "silent_between s \<Longrightarrow> silent_between (give_up source reason took s)"
  using silent_release [of s source took] by (simp add: give_up_def Let_def silent_between_def)

lemma publish_screen_silent:
  "publish_screen preset sound video audio p = (Inl e, p') \<Longrightarrow> pd_audio (pb_screen p') = pd_audio (pb_screen p)"
  by (auto simp: publish_screen_def publish_track_def Let_def split: sum.splits if_splits)

lemma silent_start:
  assumes "silent_between s"
  shows "silent_between (snd (share_start rq w s))"
proof -
  obtain r s1 where c: "connect (sw_connect w) s = (r, s1)" by (cases "connect (sw_connect w) s")
  note conn = silent_connect [OF assms c]
  have closed: "silent_between (close_if_idle (s1\<lparr>lv_publisher := Some q\<rparr>))" if "pd_audio (pb_screen q) = None" for q
    using that by (intro silent_close) (simp add: silent_between_def)
  have gone: "pd_audio (pb_screen (unpublish Screen_Source took q)) = None" for took q
    by (simp add: unpublish_def Let_def nothing_published_def)
  have before: "pd_audio (pb_screen p) = None" if "r = Inr p" "lv_screen s = None" for p
    using conn that by (simp add: silent_between_def)
  have refused: "pd_audio (pb_screen p') = None"
    if "publish_screen (rq_preset rq) (rq_audio rq) (sw_video w) (sw_sound w) p = (Inl e, p')" "r = Inr p" "lv_screen s = None" for p p' e
    using publish_screen_silent [OF that(1)] before [OF that(2,3)] by simp
  have on_air: "silent_between (s1\<lparr>lv_publisher := Some q, lv_screen := Some a\<rparr>)" for q a
    by (simp add: silent_between_def)
  show ?thesis
    using assms conn(1) c closed gone refused on_air
    by (auto simp: share_start_def split: option.split sum.split prod.split)
qed

lemma silent_camera:
  assumes "silent_between s"
  shows "silent_between (snd (start_camera w s))"
proof -
  obtain r s1 where c: "connect (cw_connect w) s = (r, s1)" by (cases "connect (cw_connect w) s")
  note conn = silent_connect [OF assms c]
  have camera: "silent_between (s1\<lparr>lv_publisher := Some p'\<rparr>)"
    if "publish_camera (cw_video w) p = (r', p')" "r = Inr p" for p p' r'
    using publish_camera_frame(1) [OF that(1)] conn that(2) by (simp add: silent_between_def)
  then have on_air: "silent_between (s1\<lparr>lv_publisher := Some p', lv_camera := Some a\<rparr>)"
    if "publish_camera (cw_video w) p = (r', p')" "r = Inr p" for p p' r' a
    using that by (simp add: silent_between_def)
  show ?thesis
    using assms conn(1) c silent_close [OF conn(1)] silent_close [OF camera] on_air
    by (auto simp: start_camera_def split: option.split sum.split prod.split)
qed

lemma silent_step: "silent_between s \<Longrightarrow> silent_between (share_step c s)"
proof (cases c)
  case (Connection_Lost reason took)
  then show "silent_between s \<Longrightarrow> ?thesis" by (simp add: connection_lost_def silent_give_up)
next
  case (Read_Share_Stats answer now produced delivered samples)
  then show "silent_between s \<Longrightarrow> ?thesis"
    by (auto simp: share_stats_def silent_between_def split: option.split prod.split)
next
  case (Read_Camera_Stats answer now produced delivered)
  then show "silent_between s \<Longrightarrow> ?thesis"
    by (auto simp: camera_stats_def silent_between_def case_prod_beta publisher_stats_keeps split: option.split)
qed (simp_all add: silent_start silent_camera silent_release silent_give_up,
  simp_all add: share_preview_def camera_preview_def silent_between_def)

lemma share_run_ok: "live_ok (share_run cs)" "silent_between (share_run cs)"
proof -
  have "live_ok s \<and> silent_between s \<Longrightarrow> live_ok (fold share_step cs s) \<and> silent_between (fold share_step cs s)" for s
    by (induction cs arbitrary: s) (simp_all add: share_step_ok silent_step)
  from this [of live_new] show "live_ok (share_run cs)" "silent_between (share_run cs)"
    using live_new_ok by (simp_all add: share_run_def silent_between_def live_new_def)
qed

lemma failed_start_effect:
  assumes ok: "live_ok s" "silent_between s" and run: "share_start rq w s = (Inl e, s')"
  shows "lv_screen s' = lv_screen s" "lv_camera s' = lv_camera s"
    "lv_publisher s = None \<Longrightarrow> lv_publisher s' = None"
    "lv_publisher s = Some p \<Longrightarrow> \<exists>p'. lv_publisher s' = Some p' \<and> pb_camera p' = pb_camera p \<and> pb_tracks p' =
      (case e of
         Publish_Failure _ \<Rightarrow> pb_tracks p @ start_tracks rq w
       | Capture_Failure _ \<Rightarrow>
           filter (\<lambda>t. \<not> (fst t \<in> fst ` set (start_tracks rq w) \<and> sw_took w (fst t))) (pb_tracks p @ start_tracks rq w)
       | _ \<Rightarrow> pb_tracks p)"
proof -
  let ?after = "\<lambda>e p. case e of
         Publish_Failure _ \<Rightarrow> pb_tracks p @ start_tracks rq w
       | Capture_Failure _ \<Rightarrow>
           filter (\<lambda>t. \<not> (fst t \<in> fst ` set (start_tracks rq w) \<and> sw_took w (fst t))) (pb_tracks p @ start_tracks rq w)
       | _ \<Rightarrow> pb_tracks p"
  have "lv_screen s' = lv_screen s \<and> lv_camera s' = lv_camera s \<and> (lv_publisher s = None \<longrightarrow> lv_publisher s' = None) \<and>
    (\<forall>p. lv_publisher s = Some p \<longrightarrow> (\<exists>p'. lv_publisher s' = Some p' \<and> pb_camera p' = pb_camera p \<and> pb_tracks p' = ?after e p))"
  proof (cases "lv_screen s = None \<and> parse_source_id (rq_source_id rq) \<noteq> None")
    case False
    then show ?thesis using run by (auto simp: share_start_def split: if_splits)
  next
    case True
    then obtain n where n: "lv_screen s = None" "parse_source_id (rq_source_id rq) = Some n" by blast
    obtain r s1 where c: "connect (sw_connect w) s = (r, s1)" by (cases "connect (sw_connect w) s")
    note conn = connect_ok [OF ok(1) c]
    show ?thesis
    proof (cases r)
      case (Inl m)
      then have "lv_publisher s = None" using c by (auto simp: connect_def split: option.splits)
      then show ?thesis using run n c Inl conn(6) by (simp add: share_start_def)
    next
      case (Inr p)
      obtain r2 p' where p: "publish_screen (rq_preset rq) (rq_audio rq) (sw_video w) (sw_sound w) p = (r2, p')"
        by (cases "publish_screen (rq_preset rq) (rq_audio rq) (sw_video w) (sw_sound w) p")
      obtain q where s': "s' = close_if_idle (s1\<lparr>lv_publisher := Some q\<rparr>)"
        and q: "(\<exists>m x. r2 = Inl m \<and> q = p' \<and> e = Publish_Failure x) \<or>
          (\<exists>sink x. r2 = Inr sink \<and> q = unpublish Screen_Source (sw_took w) p' \<and> e = Capture_Failure x)"
        using run n c Inr p by (auto simp: share_start_def split: sum.splits prod.splits)
      show ?thesis
      proof (cases "lv_publisher s")
        case None
        then have "lv_camera s = None" using ok(1) by (auto simp: live_ok_def on_air_ok_def)
        then show ?thesis using s' conn(3,4) n None by (simp add: close_if_idle_def)
      next
        case (Some p0)
        then have same: "s1 = s" "p0 = p" using c Inr by (auto simp: connect_def)
        have camera: "lv_camera s \<noteq> None" using ok(1) n Some by (simp add: live_ok_def)
        have "pd_audio (pb_screen p) = None" using ok(2) Some same n by (simp add: silent_between_def)
        then have taken: "pb_tracks (unpublish Screen_Source (sw_took w) p') =
            filter (\<lambda>t. \<not> (fst t \<in> fst ` set (start_tracks rq w) \<and> sw_took w (fst t))) (pb_tracks p @ start_tracks rq w)"
          if "r2 = Inr sink" for sink using that p by (intro unpublish_start) simp_all
        from q have "pb_camera q = pb_camera p \<and> pb_tracks q = ?after e p"
          by (elim disjE exE conjE)
            (simp_all only: share_failure.case publish_screen_tracks [OF p] publish_screen_frame(1) [OF p] taken unpublish_frame)
        then show ?thesis using s' same Some camera n by (simp add: close_if_idle_def)
      qed
    qed
  qed
  then show "lv_screen s' = lv_screen s" "lv_camera s' = lv_camera s"
    "lv_publisher s = None \<Longrightarrow> lv_publisher s' = None"
    "lv_publisher s = Some p \<Longrightarrow> \<exists>p'. lv_publisher s' = Some p' \<and> pb_camera p' = pb_camera p \<and> pb_tracks p' = ?after e p"
    by blast+
qed

text \<open>
  C24.  What a share that does not start leaves behind, in any state a run can reach and for every failure: the sources on
  the air are what they were; a connection made for it is closed; one that was there stays, with the camera's
  record.  Of the tracks, a failed capture has taken down all it had published but those LiveKit refuses to take
  down; a failed publication takes down nothing, so it leaves the picture when the sound is what was refused; and
  every other failure comes before anything is published.
\<close>

theorem failed_start_leftovers:
  assumes "share_start rq w (share_run cs) = (Inl e, s')"
  shows "let s = share_run cs in
    lv_screen s' = lv_screen s \<and> lv_camera s' = lv_camera s \<and>
    (case lv_publisher s of
       None \<Rightarrow> lv_publisher s' = None \<and> lv_joined s' = lv_left s'
     | Some p \<Rightarrow> \<exists>p'. lv_publisher s' = Some p' \<and> pb_camera p' = pb_camera p \<and>
         pb_tracks p' =
           (case e of
              Publish_Failure _ \<Rightarrow> pb_tracks p @ start_tracks rq w
            | Capture_Failure _ \<Rightarrow>
                filter (\<lambda>t. \<not> (fst t \<in> fst ` set (start_tracks rq w) \<and> sw_took w (fst t))) (pb_tracks p @ start_tracks rq w)
            | _ \<Rightarrow> pb_tracks p))"
proof -
  note effect = failed_start_effect [OF share_run_ok assms]
  have "counts_ok s'" using share_start_ok [OF share_run_ok(1), of rq w cs] assms by (simp add: live_ok_def)
  with effect show ?thesis by (auto simp: Let_def counts_ok_def split: option.split)
qed

lemma refused_sound_leaves_picture_facts:
  assumes "lv_screen s = None" and "lv_camera s \<noteq> None" and "lv_publisher s = Some p"
    and "parse_source_id (rq_source_id rq) = Some n" and "rq_audio rq" and "sw_video w = Inr v" and "sw_sound w = Inl m"
  shows "fst (share_start rq w s) = Inl (Publish_Failure (Publish_Error m))"
    "lv_screen (snd (share_start rq w s)) = None"
    "\<exists>p'. lv_publisher (snd (share_start rq w s)) = Some p'
       \<and> pb_tracks p' = pb_tracks p @ [(v, screen_video_options (rq_preset rq))]"
  using assms
  by (auto simp: share_start_def connect_def publish_screen_def publish_track_def close_if_idle_def Let_def split: option.split)

text \<open>
  C40. The exception: with a camera on the air, a share whose sound the server refuses answers with the error and is not
  on the air, but its picture stays published on the connection.
\<close>

theorem refused_sound_leaves_picture:
  assumes "lv_screen s = None" and "lv_camera s \<noteq> None" and "lv_publisher s = Some p"
    and "parse_source_id (rq_source_id rq) = Some n" and "rq_audio rq" and "sw_video w = Inr v" and "sw_sound w = Inl m"
  shows "fst (share_start rq w s) = Inl (Publish_Failure (Publish_Error m)) \<and> lv_screen (snd (share_start rq w s)) = None
    \<and> (\<exists>p'. lv_publisher (snd (share_start rq w s)) = Some p'
         \<and> pb_tracks p' = pb_tracks p @ [(v, screen_video_options (rq_preset rq))])"
  by (intro conjI; rule refused_sound_leaves_picture_facts [OF assms])

text \<open>
  What dies can be started again: after a source was given up, and after the connection dropped, starting it is not
  refused as running already; when the server, the source and the camera answer, it is on the air.
\<close>

theorem dead_source_restarts:
  assumes "\<And>u. sw_connect w = Inr u \<and> cw_connect cw = Inr u" and "sw_video w = Inr v" and "rq_audio rq = False \<or> sw_sound w = Inr a"
    and "parse_source_id (rq_source_id rq) = Some n" and "capture_start (sw_platform w) (sw_spawned w) (rq_kind rq) n = Inr ()"
    and "cw_opened cw = Some (Inr ())" and "cw_video cw = Inr v'"
    and "dead \<in> {give_up Screen_Source reason took s, connection_lost reason took s}"
    and "dead_camera \<in> {give_up Camera_Source reason took s, connection_lost reason took s}"
  shows "\<exists>report. fst (share_start rq w dead) = Inr report \<and> lv_screen (snd (share_start rq w dead)) \<noteq> None"
    "fst (start_camera cw dead_camera) = Inr () \<and> lv_camera (snd (start_camera cw dead_camera)) \<noteq> None"
proof -
  have dead: "lv_screen dead = None" "lv_camera dead_camera = None"
    using assms(8,9) by (auto simp: give_up_def connection_lost_def release_def Let_def)
  have screen: "\<exists>sink p'. publish_screen (rq_preset rq) (rq_audio rq) (sw_video w) (sw_sound w) p = (Inr sink, p')" for p
    using assms(2,3) by (auto simp: publish_screen_def publish_track_def Let_def)
  have conn: "\<exists>p s1. connect (sw_connect w) dead = (Inr p, s1)" "\<exists>p s1. connect (cw_connect cw) dead_camera = (Inr p, s1)"
    using assms(1) by (auto simp: connect_def publisher_connect_def split: option.split)
  obtain p s1 where c: "connect (sw_connect w) dead = (Inr p, s1)" using conn(1) by blast
  obtain sink p' where p': "publish_screen (rq_preset rq) (rq_audio rq) (sw_video w) (sw_sound w) p = (Inr sink, p')"
    using screen by blast
  show "\<exists>report. fst (share_start rq w dead) = Inr report \<and> lv_screen (snd (share_start rq w dead)) \<noteq> None"
    using dead(1) c p' assms(4,5) by (simp add: share_start_def split: prod.split)
  obtain q s2 where c2: "connect (cw_connect cw) dead_camera = (Inr q, s2)" using conn(2) by blast
  show "fst (start_camera cw dead_camera) = Inr () \<and> lv_camera (snd (start_camera cw dead_camera)) \<noteq> None"
    using dead(2) c2 assms(6,7) by (simp add: start_camera_def publish_camera_def publish_track_def)
qed

section \<open>The sound that is reported\<close>

text \<open>\<^verbatim>\<open>audio::start\<close> as \<^verbatim>\<open>share_start\<close> calls it.\<close>

definition begin_audio ::
  "(u32 \<Rightarrow> loopback_mode \<Rightarrow> audio_error + unit) \<Rightarrow> audio_error + unit \<Rightarrow> process list \<Rightarrow> bool \<Rightarrow> bool \<Rightarrow> bool \<Rightarrow> audio_target
     \<Rightarrow> audio_error + audio_mode" where
  "begin_audio loop whole processes spawned com started target =
     audio_start spawned (audio_answer com (open_client loop whole processes target) started)"

text \<open>
  C33. The interface is told the truth about the sound: a share that reports only the window is of a window and listens
  to the tree of its owner alone; one that reports that Discord is left out listens to everything but the Discord that was
  found; and one that reports the whole system listens to everything.
\<close>

theorem report_is_carried:
  assumes "share_start rq w s = (Inr (Some report), s')" and "sw_audio w = begin_audio loop whole processes spawned com started"
  shows "\<exists>n o'. parse_source_id (rq_source_id rq) = Some n
    \<and> open_client loop whole processes (audio_target_of (sw_owner w) (rq_kind rq) n) = Inr o'
    \<and> (case report of
         Report_Only_Window \<Rightarrow> rq_kind rq = WindowKind
           \<and> (\<exists>thread pid. sw_owner w n = (thread, pid) \<and> thread \<noteq> 0 \<and> pid \<noteq> 0 \<and> op_listening o' = Process_Loopback pid Include_Tree)
       | Report_Excluding_Discord \<Rightarrow>
           \<exists>pid. root_of_discord_tree processes = Some pid \<and> op_listening o' = Process_Loopback pid Exclude_Tree
       | Report_Whole_System \<Rightarrow> op_listening o' = Everything)"
proof -
  obtain n sink where n: "parse_source_id (rq_source_id rq) = Some n"
    and a: "start_audio (sw_audio w) (sw_owner w) sink (rq_kind rq) n = (True, Some report)"
    using assms(1) by (auto simp: share_start_def start_audio_def split: if_splits option.splits sum.splits prod.splits)
  obtain o' where o': "open_client loop whole processes (audio_target_of (sw_owner w) (rq_kind rq) n) = Inr o'"
    "report = report_of (op_mode o')"
    using a by (auto simp: start_audio_def assms(2) begin_audio_def audio_start_def audio_answer_def
        split: if_splits sum.splits option.splits)
  show ?thesis
    using n o' open_client_mode [where loop = loop and whole = whole and processes = processes and target = "audio_target_of (sw_owner w) (rq_kind rq) n"]
    by (intro exI [of _ n] exI [of _ o'])
      (auto simp: audio_target_of_def window_owner_pid_def split: audio_mode.splits source_kind.splits option.splits if_splits prod.splits)
qed

text \<open>
  A source is given up by its name: the task one share's capture scheduled ends whatever share is on the air by the time it
  runs.
\<close>

lemma late_give_up_ends_newer:
  "share_start rq w (release Screen_Source took s) = (Inr report, s') \<Longrightarrow>
     lv_screen s' \<noteq> None \<and> lv_screen (give_up Screen_Source reason took' s') = None"
  by (auto simp: share_start_def give_up_def release_def Let_def split: if_splits option.splits sum.splits prod.splits)

section \<open>Instances\<close>

definition on_camera :: live where
  "on_camera = live_new\<lparr>lv_publisher := Some (fresh_publisher\<lparr>pb_tracks := [(''TR_c'', camera_video_options)],
       pb_camera := \<lparr>pd_video = Some ''TR_c'', pd_audio = None\<rparr>\<rparr>),
     lv_camera := Some \<lparr>ca_control = preview_on\<rparr>, lv_joined := 1\<rparr>"

definition window_request :: start_request where
  "window_request = \<lparr>rq_source_id = show_u64 11, rq_kind = WindowKind, rq_preset = P720p30, rq_audio = True\<rparr>"

definition plain_world :: start_world where
  "plain_world = \<lparr>sw_connect = Inr (), sw_video = Inr ''TR_v'', sw_sound = Inr ''TR_a'', sw_platform = one_desktop,
     sw_spawned = True, sw_took = (\<lambda>_. True), sw_audio = begin_audio (\<lambda>_ _. Inr ()) (Inr ()) [] True True True,
     sw_owner = (\<lambda>_. (7, 4242))\<rparr>"

definition camera_answer :: camera_world where
  "camera_answer = \<lparr>cw_connect = Inr (), cw_opened = Some (Inr ()), cw_video = Inr ''TR_c''\<rparr>"

lemma window_id: "parse_source_id (rq_source_id window_request) = Some 11"
  by (simp add: window_request_def parse_show_source_id)

theorem failed_start_leftovers_witness:
  defines "w \<equiv> plain_world\<lparr>sw_spawned := False\<rparr>"
  shows "\<exists>e s'. share_start window_request w (share_run [Start_Camera camera_answer]) = (Inl e, s')
    \<and> map_option pb_tracks (lv_publisher s') = Some [(''TR_c'', camera_video_options)]"
proof -
  let ?s = "share_run [Start_Camera camera_answer]"
  have s: "lv_screen ?s = None" "\<exists>p. lv_publisher ?s = Some p \<and> pb_tracks p = [(''TR_c'', camera_video_options)]"
    by (simp_all add: share_run_def start_camera_def connect_def publisher_connect_def publish_camera_def publish_track_def
        live_new_def camera_answer_def)
  have "capture_start (sw_platform w) (sw_spawned w) (rq_kind window_request) 11 = Inl (Unavailable ''thread'')"
    by (simp add: w_def plain_world_def one_desktop_def window_request_def capture_start_def)
  then have "\<exists>x. fst (share_start window_request w ?s) = Inl (Capture_Failure x)"
    using window_id s
    by (auto simp: share_start_def connect_def w_def plain_world_def publish_screen_def
        publish_track_def Let_def split: prod.split)
  then obtain x s' where run: "share_start window_request w ?s = (Inl (Capture_Failure x), s')" by (metis prod.collapse)
  have "start_tracks window_request w = [(''TR_v'', screen_video_options P720p30), (''TR_a'', screen_audio_options)]"
    by (simp add: start_tracks_def window_request_def w_def plain_world_def)
  then show ?thesis
    using failed_start_leftovers [OF run] s(2) run by (auto simp: Let_def w_def plain_world_def)
qed

theorem refused_sound_leaves_picture_witness:
  "lv_screen (snd (share_start window_request (plain_world\<lparr>sw_sound := Inl ''full''\<rparr>) on_camera)) = None"
  by (rule refused_sound_leaves_picture [OF _ _ _ window_id, where v = "''TR_v''" and m = "''full''", THEN conjunct2, THEN conjunct1])
    (simp_all add: on_camera_def live_new_def window_request_def plain_world_def)

theorem dead_source_restarts_witness:
  defines "cw \<equiv> \<lparr>cw_connect = Inr (), cw_opened = Some (Inr ()), cw_video = Inr ''TR_d''\<rparr>"
    and "dead \<equiv> connection_lost ''gone'' (\<lambda>_. True) on_camera"
  shows "lv_screen (snd (share_start window_request plain_world dead)) \<noteq> None" "fst (start_camera cw dead) = Inr ()"
proof -
  have start: "capture_start (sw_platform plain_world) (sw_spawned plain_world) (rq_kind window_request) 11 = Inr ()"
    by (simp add: plain_world_def one_desktop_def window_request_def capture_start_def)
  have "\<And>u. sw_connect plain_world = Inr u \<and> cw_connect cw = Inr u" by (simp add: plain_world_def cw_def)
  note restarts = dead_source_restarts [OF this, where s = on_camera and reason = "''gone''" and took = "\<lambda>_. True"
      and v = "''TR_v''" and a = "''TR_a''" and v' = "''TR_d''" and n = 11 and rq = window_request
      and dead = dead and dead_camera = dead]
  show "lv_screen (snd (share_start window_request plain_world dead)) \<noteq> None"
    using restarts(1) window_id start by (simp add: plain_world_def cw_def dead_def)
  show "fst (start_camera cw dead) = Inr ()"
    using restarts(2) window_id start by (simp add: plain_world_def cw_def dead_def)
qed

theorem report_is_carried_witness:
  "\<exists>n o'. parse_source_id (rq_source_id window_request) = Some n
    \<and> open_client (\<lambda>_ _. Inr ()) (Inr ()) [] (audio_target_of (\<lambda>_. (7, 4242)) WindowKind n) = Inr o'
    \<and> op_listening o' = Process_Loopback 4242 Include_Tree"
proof -
  have "capture_start one_desktop True WindowKind 11 = Inr ()"
    by (simp add: one_desktop_def capture_start_def)
  then have "fst (share_start window_request plain_world live_new) = Inr (Some Report_Only_Window)"
    using window_id
    by (simp add: share_start_def live_new_def connect_def publisher_connect_def plain_world_def publish_screen_def
        publish_track_def window_request_def start_audio_def begin_audio_def audio_start_def audio_answer_def open_client_def
        open_process_loopback_def audio_target_of_def window_owner_pid_def Let_def)
  then obtain s' where "share_start window_request plain_world live_new = (Inr (Some Report_Only_Window), s')"
    by (metis prod.collapse)
  from report_is_carried [OF this] show ?thesis by (auto simp: plain_world_def window_request_def)
qed

end
