(* ===== verification/Desktop_Shell.thy ===== *)
theory Desktop_Shell
  imports Gateway
begin

text \<open>
  The small parts of \<^verbatim>\<open>desktop/src-tauri/src\<close>: the record of the release notes seen (\<^verbatim>\<open>seen.rs\<close>), the credential
  vault (\<^verbatim>\<open>vault.rs\<close>), and what the shell does with the tray, the shortcut and its windows (\<^verbatim>\<open>lib.rs\<close>).  The file system, the
  keyring and the windows of the system answer as arguments.
\<close>

section \<open>The record of the release notes\<close>

datatype seen_error = No_Directory string | Seen_Io string | Not_A_Version string

text \<open>\<^verbatim>\<open>is_ascii_digit\<close> of bytes is \<open>is_digit\<close>.\<close>

definition is_version :: "string \<Rightarrow> bool" where
  "is_version txt \<longleftrightarrow>
     (let parts = split_on (CHR ''.'') txt in
      length parts = 3 \<and> list_all (\<lambda>part. part \<noteq> [] \<and> length part \<le> 9 \<and> list_all is_digit part) parts)"

text \<open>What \<^verbatim>\<open>read_to_string\<close> answers: no such file, another error, or the text.\<close>

datatype file_answer = Not_Found | Io_Failed string | Content string

definition seen_read :: "file_answer \<Rightarrow> seen_error + string option" where
  "seen_read answer =
     (case answer of
        Content raw \<Rightarrow> let txt = str_trim raw in Inr (if is_version txt then Some txt else None)
      | Not_Found \<Rightarrow> Inr None
      | Io_Failed e \<Rightarrow> Inl (Seen_Io e))"

text \<open>
  \<open>mkdir\<close> is the error of making the directory, if any; \<open>failing\<close> the error of writing, if any, with what the file is
  after it.  The file is \<open>Not_Found\<close> or its content.
\<close>

definition seen_write :: "string option \<Rightarrow> (string \<times> file_answer) option \<Rightarrow> string \<Rightarrow> file_answer \<Rightarrow> (seen_error + unit) \<times> file_answer" where
  "seen_write mkdir failing version file =
     (if \<not> is_version version then (Inl (Not_A_Version version), file)
      else case mkdir of
        Some e \<Rightarrow> (Inl (Seen_Io e), file)
      | None \<Rightarrow>
          (case failing of
             Some (e, file') \<Rightarrow> (Inl (Seen_Io e), file')
           | None \<Rightarrow> (Inr (), Content version)))"

definition release_notes_seen :: "string + unit \<Rightarrow> file_answer \<Rightarrow> seen_error + string option" where
  "release_notes_seen directory answer = res_bind (map_sum No_Directory id directory) (\<lambda>_. seen_read answer)"

definition release_notes_mark_seen ::
  "string + unit \<Rightarrow> string option \<Rightarrow> (string \<times> file_answer) option \<Rightarrow> string \<Rightarrow> file_answer \<Rightarrow> (seen_error + unit) \<times> file_answer" where
  "release_notes_mark_seen directory mkdir failing version file =
     (case directory of
        Inl e \<Rightarrow> (Inl (No_Directory e), file)
      | Inr _ \<Rightarrow> seen_write mkdir failing version file)"

lemma split_on_chars: "x \<in> set s \<Longrightarrow> x = d \<or> (\<exists>part \<in> set (split_on d s). x \<in> set part)"
  by (induction s) (auto split: list.splits)

lemma version_trimmed:
  assumes "is_version v"
  shows "str_trim v = v"
proof -
  have plain: "33 \<le> char_code c \<and> char_code c < 128" if c: "c \<in> set v" for c
  proof (cases "c = CHR ''.''")
    case True
    then show ?thesis by (simp add: char_code_def)
  next
    case False
    then obtain part where "part \<in> set (split_on (CHR ''.'') v)" "c \<in> set part" using split_on_chars [OF c] by blast
    then have "is_digit c" using assms by (simp add: is_version_def Let_def list_all_iff)
    then show ?thesis by (simp add: is_digit_def)
  qed
  have "v \<noteq> []" using assms by (auto simp: is_version_def)
  then show ?thesis using str_trim_padding [of "[]" "[]" v] plain by simp
qed

text \<open>
  A version that was written comes back; whatever else the interface passes is refused and leaves the file as it was;
  and reading never answers anything that is not a version.
\<close>

theorem version_record:
  "is_version v \<Longrightarrow> seen_write None None v file = (Inr (), Content v) \<and> seen_read (Content v) = Inr (Some v)"
  "\<not> is_version v \<Longrightarrow> seen_write mkdir failing v file = (Inl (Not_A_Version v), file)"
  "seen_read answer = Inr (Some v) \<Longrightarrow> is_version v"
  by (auto simp: seen_write_def seen_read_def version_trimmed Let_def split: file_answer.splits if_splits)

section \<open>The vault\<close>

datatype vault_error = Vault_Unavailable string

datatype keyring_error = No_Entry | Keyring_Failed string

text \<open>
  The entry holds at most one password.  \<open>entry\<close> is the error of opening it, \<open>failing\<close> that of the operation, which then
  changes nothing.
\<close>

definition vault_get_refresh_token :: "string option \<Rightarrow> string option \<Rightarrow> string option \<Rightarrow> vault_error + string option" where
  "vault_get_refresh_token entry failing kept =
     (case entry of
        Some e \<Rightarrow> Inl (Vault_Unavailable e)
      | None \<Rightarrow>
          (case (case failing of Some e \<Rightarrow> Inl (Keyring_Failed e) | None \<Rightarrow> (case kept of None \<Rightarrow> Inl No_Entry | Some t \<Rightarrow> Inr t)) of
             Inr t \<Rightarrow> Inr (Some t)
           | Inl No_Entry \<Rightarrow> Inr None
           | Inl (Keyring_Failed e) \<Rightarrow> Inl (Vault_Unavailable e)))"

definition vault_set_refresh_token ::
  "string option \<Rightarrow> string option \<Rightarrow> string \<Rightarrow> string option \<Rightarrow> (vault_error + unit) \<times> string option" where
  "vault_set_refresh_token entry failing token kept =
     (case entry of
        Some e \<Rightarrow> (Inl (Vault_Unavailable e), kept)
      | None \<Rightarrow> (case failing of Some e \<Rightarrow> (Inl (Vault_Unavailable e), kept) | None \<Rightarrow> (Inr (), Some token)))"

definition vault_clear_refresh_token ::
  "string option \<Rightarrow> string option \<Rightarrow> string option \<Rightarrow> (vault_error + unit) \<times> string option" where
  "vault_clear_refresh_token entry failing kept =
     (case entry of
        Some e \<Rightarrow> (Inl (Vault_Unavailable e), kept)
      | None \<Rightarrow>
          (case (case failing of Some e \<Rightarrow> Some (Keyring_Failed e) | None \<Rightarrow> (if kept = None then Some No_Entry else None)) of
             None \<Rightarrow> (Inr (), None)
           | Some No_Entry \<Rightarrow> (Inr (), kept)
           | Some (Keyring_Failed e) \<Rightarrow> (Inl (Vault_Unavailable e), kept)))"

text \<open>Logging out says it succeeded exactly when no token is left, and doing it twice is doing it once.\<close>

lemma cleared_is_empty:
  "fst (vault_clear_refresh_token entry failing kept) = Inr () \<Longrightarrow> snd (vault_clear_refresh_token entry failing kept) = None"
  "vault_clear_refresh_token None None (snd (vault_clear_refresh_token None None kept)) = (Inr (), None)"
  by (auto simp: vault_clear_refresh_token_def split: option.splits)

section \<open>The shell\<close>

text \<open>What the interface is asked for, and what is visible of the shell.\<close>

datatype shell_request = Stop_Requested | Sign_Out_Requested

record shell =
  sl_visible :: bool
  sl_stop_enabled :: bool
  sl_tooltip :: string
  sl_live_icon :: bool
  sl_requests :: "shell_request list"
  sl_detached :: u32
  sl_windows :: "string list"
  sl_running :: bool

definition shell_new :: shell where
  "shell_new = \<lparr>sl_visible = True, sl_stop_enabled = False, sl_tooltip = ''ldktela'', sl_live_icon = False, sl_requests = [],
     sl_detached = 0, sl_windows = [], sl_running = True\<rparr>"

definition DASH :: string where "DASH = '' '' @ [CHR 0xE2, CHR 0x80, CHR 0x94] @ '' ''"

definition tray_set_sharing :: "bool \<Rightarrow> string option \<Rightarrow> shell \<Rightarrow> shell" where
  "tray_set_sharing sharing what s =
     (let tooltip = (if \<not> sharing then ''ldktela''
          else case what of
            Some title \<Rightarrow> if str_trim title \<noteq> [] then ''ldktela'' @ DASH @ ''no ar: '' @ title else ''ldktela'' @ DASH @ ''no ar''
          | None \<Rightarrow> ''ldktela'' @ DASH @ ''no ar'') in
      s\<lparr>sl_stop_enabled := sharing, sl_tooltip := tooltip, sl_live_icon := sharing\<rparr>)"

definition on_hotkey :: "bool \<Rightarrow> bool \<Rightarrow> shell \<Rightarrow> shell" where
  "on_hotkey pressed ours s = (if pressed \<and> ours then s\<lparr>sl_requests := sl_requests s @ [Stop_Requested]\<rparr> else s)"

definition on_close_requested :: "string \<Rightarrow> shell \<Rightarrow> shell" where
  "on_close_requested label s =
     (if label \<noteq> ''main'' then s\<lparr>sl_windows := filter (\<lambda>l. l \<noteq> label) (sl_windows s)\<rparr> else s\<lparr>sl_visible := False\<rparr>)"

definition reveal :: "shell \<Rightarrow> shell" where "reveal s = s\<lparr>sl_visible := True\<rparr>"

definition on_menu_event :: "string \<Rightarrow> shell \<Rightarrow> shell" where
  "on_menu_event i s =
     (if i = ''show'' then reveal s
      else if i = ''stop'' then s\<lparr>sl_requests := sl_requests s @ [Stop_Requested]\<rparr>
      else if i = ''switch'' then (reveal s)\<lparr>sl_requests := sl_requests s @ [Sign_Out_Requested]\<rparr>
      else if i = ''quit'' then s\<lparr>sl_running := False\<rparr>
      else s)"

definition on_tray_icon_event :: "bool \<Rightarrow> bool \<Rightarrow> shell \<Rightarrow> shell" where
  "on_tray_icon_event left up s = (if left \<and> up then reveal s else s)"

text \<open>\<open>built\<close> says whether the window could be made; the label is taken either way.\<close>

definition on_new_window :: "string \<Rightarrow> bool \<Rightarrow> shell \<Rightarrow> bool \<times> shell" where
  "on_new_window url built s =
     (if url \<noteq> ''about:blank'' then (False, s)
      else
        let label = ''destacada-'' @ show_nat (unat (sl_detached s)); s' = s\<lparr>sl_detached := sl_detached s + 1\<rparr> in
        if built then (True, s'\<lparr>sl_windows := label # sl_windows s'\<rparr>) else (False, s'))"

text \<open>The page opens no window but a blank one of ours, and closing the main window hides it and stops nothing.\<close>

lemma shell_keeps:
  "fst (on_new_window url built s) \<Longrightarrow> url = ''about:blank''"
  "snd (on_new_window url built s) = s \<or> url = ''about:blank''"
  "on_close_requested ''main'' s = s\<lparr>sl_visible := False\<rparr>"
  by (auto simp: on_new_window_def on_close_requested_def Let_def split: if_splits)

text \<open>The detached windows have labels of their own, until the counter has gone around.\<close>

definition labels_ok :: "shell \<Rightarrow> bool" where
  "labels_ok s \<longleftrightarrow> distinct (sl_windows s)
     \<and> (\<forall>l \<in> set (sl_windows s). \<exists>k < unat (sl_detached s). l = ''destacada-'' @ show_nat k)"

lemma show_nat_inj: "show_nat a = show_nat b \<Longrightarrow> a = b"
  by (metis option.inject parse_show_nat)

lemma detached_labels_distinct:
  assumes "labels_ok s" and "unat (sl_detached s) < 2 ^ 32 - 1"
  shows "labels_ok (snd (on_new_window url built s))" "labels_ok (on_close_requested label s)"
proof -
  have step: "unat (sl_detached s + 1) = Suc (unat (sl_detached s))" using assms(2) by (simp add: unat_word_ariths)
  show "labels_ok (snd (on_new_window url built s))"
    using assms(1) by (auto simp: on_new_window_def labels_ok_def Let_def step less_Suc_eq dest!: show_nat_inj)
  show "labels_ok (on_close_requested label s)"
    using assms(1) by (auto simp: on_close_requested_def labels_ok_def)
qed

end
