(* ===== verification/Spec2Isabelle.thy ===== *)
theory Spec2Isabelle
  imports Rooms_Service Auth_Service Gateway Config Pairing_Service Bot_Handler Bot_Announce Http_Edge Server_Start Share Desktop_Shell
begin

text \<open>
  A verification library of ldktela: screen and camera sharing for Discord voice channels.  A person pairs the
  desktop application with a code the Discord bot hands out, opens a WebSocket (the gateway) to the server, and
  joins the LiveKit room of the voice channel they may enter.  Who may enter is Discord's decision: the bot keeps a
  mirror of guilds, roles, members and channels (the replica), every request is decided against it, and
  the events of Discord that take access away evict whoever lost it.

  \<^bold>\<open>How the parts interact.\<close>  The bot writes the replica and evicts (\<^verbatim>\<open>crates/bot\<close>); the routes and the gateway read
  the replica, write the database and queue frames on the sockets through the hub (\<^verbatim>\<open>crates/api\<close>); LiveKit reports
  joins, departures and publications through a webhook, which is where presence and share sessions change; each
  change of a room is announced as a snapshot, from which the bot puts the [LIVE] tag on nicknames.

  \<^bold>\<open>Theories.\<close>
  \<^item> \<open>Ldk_Prelude\<close>, \<open>Ldk_Text\<close>: word conversions, results, hash maps and sets (locale \<open>keyed_store\<close>), searching lists;
    Rust's text operations on UTF-8 strings (parsing and printing integers, trimming, hexadecimal).
  \<^item> \<open>Single_Use\<close>: the locale \<open>single_use\<close> of credentials that work once, interpreted on refresh tokens and pairing codes.
  \<^item> \<open>Discord_Perms\<close> (\<^verbatim>\<open>domain/src/discord.rs\<close>): permission resolution on 64-bit masks, and its layered specification.
  \<^item> \<open>Pairing_Code\<close> (\<^verbatim>\<open>domain/src/validation.rs\<close>, \<^verbatim>\<open>pairing.rs\<close>): the shape of a code, generation, hashing.
  \<^item> \<open>Replica\<close> (\<^verbatim>\<open>api/src/discord/replica.rs\<close>): the mirror, its writes as a step function, its invariant, staleness.
  \<^item> \<open>Wire\<close> (\<^verbatim>\<open>crates/protocol\<close>, \<^verbatim>\<open>api/src/error.rs\<close>): payloads, opcodes, close codes, errors and their responses.
  \<^item> \<open>Session\<close>, \<open>Hub\<close> (\<^verbatim>\<open>api/src/gateway/session.rs\<close>, \<^verbatim>\<open>hub.rs\<close>): the sequence and resume buffer of a session; the
    registry, connection limit, expiry and fan-out.
  \<^item> \<open>Presence\<close>, \<open>Share_Sessions\<close> (\<^verbatim>\<open>crates/db/src/repo\<close>): tables \<^verbatim>\<open>users\<close>, \<^verbatim>\<open>room_presence\<close>, \<^verbatim>\<open>share_sessions\<close>, one
    function per SQL statement; locale \<open>presence_store\<close>.
  \<^item> \<open>Livekit\<close> (\<^verbatim>\<open>api/src/livekit.rs\<close>): the ledger of publication slots, room tokens, room control, webhook events.
  \<^item> \<open>Access\<close> (\<^verbatim>\<open>api/src/permissions.rs\<close>, \<^verbatim>\<open>state.rs\<close>, \<^verbatim>\<open>announce.rs\<close>, \<^verbatim>\<open>gateway/ready.rs\<close>): the server's state, the
    guards of the routes, \<^verbatim>\<open>READY\<close>; locale \<open>authority\<close>, interpreted on the replica.
  \<^item> \<open>Rooms_Service\<close> (\<^verbatim>\<open>api/src/routes/rooms.rs\<close>): the token route and every handler of the webhook.
  \<^item> \<open>Auth_Tokens\<close>, \<open>Auth_Service\<close> (\<^verbatim>\<open>api/src/auth\<close>, \<^verbatim>\<open>middleware/auth.rs\<close>, \<^verbatim>\<open>db/src/repo/refresh_tokens.rs\<close>): access
    tokens, refresh tokens, and rotation one SQL statement at a time, so that interleavings are schedules.
  \<^item> \<open>Gateway\<close> (\<^verbatim>\<open>api/src/gateway/mod.rs\<close>): one connection, event by event: frame limit, version check, identify, resume.
  \<^item> \<open>Config\<close> (\<^verbatim>\<open>api/src/config.rs\<close>): the environment, read in the order of the code.
  \<^item> \<open>Pairing_Service\<close> (\<^verbatim>\<open>bot/src/pairing.rs\<close>, \<^verbatim>\<open>api/src/routes/auth.rs\<close>, \<^verbatim>\<open>users.rs\<close>, \<^verbatim>\<open>jobs.rs\<close>, \<^verbatim>\<open>db/src/repo/pairing.rs\<close>):
    issuing and spending codes, the clean-up jobs.
  \<^item> \<open>Bot_Revoke\<close>, \<open>Bot_Handler\<close>, \<open>Bot_Announce\<close> (\<^verbatim>\<open>crates/bot/src\<close>): the revocation sweeps, every Discord event, the tags.
  \<^item> \<open>Http_Edge\<close> (\<^verbatim>\<open>api/src/extract.rs\<close>, \<^verbatim>\<open>middleware/request_id.rs\<close>): rejected requests and request ids.
  \<^item> \<open>Server_Start\<close> (\<^verbatim>\<open>crates/server\<close>, \<^verbatim>\<open>api/src/lib.rs\<close>, \<^verbatim>\<open>routes/mod.rs\<close>): the start over the tables that are found and what
    it leaves when it fails, the route table, the shutdown.

  The desktop core (\<^verbatim>\<open>desktop/src-tauri/src\<close>) is below the web client: it captures screen, camera and sound and publishes them.
  \<^item> \<open>Slices\<close>: Rust's slices, indices and chunks, where out of range is a panic (\<open>None\<close>).
  \<^item> \<open>Scaling\<close>, \<open>Screen_Capture\<close> (\<^verbatim>\<open>capture.rs\<close>): sizes in double precision with its rounding; sources, the capture thread
    turn by turn with its clock and counters, thumbnails.
  \<^item> \<open>Camera_Convert\<close> (\<^verbatim>\<open>camera/convert.rs\<close>): every camera layout into NV12, byte by byte.
  \<^item> \<open>Preview\<close> (\<^verbatim>\<open>preview.rs\<close>): the control, the tap and its encoding thread, base64.
  \<^item> \<open>Camera_Formats\<close>, \<open>Camera_Start\<close> (\<^verbatim>\<open>camera/mod.rs\<close>): the list of cameras, the choice of a format, the delivery of a
    frame; the opening over one of the two paths of Windows.
  \<^item> \<open>Camera_MF\<close>, \<open>Camera_DShow\<close> (\<^verbatim>\<open>camera/mf.rs\<close>, \<^verbatim>\<open>camera/dshow.rs\<close>): negotiation and the two ways frames arrive, a loop of
    ours and the calls of a DirectShow graph on our filter and its pin.
  \<^item> \<open>Publisher\<close> (\<^verbatim>\<open>publisher.rs\<close>): what is published over the connection, and the numbers of the panel.
  \<^item> \<open>Audio\<close> (\<^verbatim>\<open>audio.rs\<close>): which sound is captured and what is reported of it, the process tree of Discord, packets.
  \<^item> \<open>Share\<close> (\<^verbatim>\<open>share.rs\<close>): the commands of the interface over the one connection and its two sources, as runs of commands.
  \<^item> \<open>Desktop_Shell\<close> (\<^verbatim>\<open>seen.rs\<close>, \<^verbatim>\<open>vault.rs\<close>, \<^verbatim>\<open>lib.rs\<close>): the release notes seen, the credential vault, tray and windows.

  \<^bold>\<open>Conventions.\<close>  A record of the code is a record, an operation that locks state or runs a statement a function of that
  state, a handler the composition the code makes; errors are the left of a sum.  Discord ids are 64-bit
  words, read as \<^verbatim>\<open>u64\<close> or \<^verbatim>\<open>i64\<close> as the code does, conversions included; UUIDs are 128-bit words; instants are
  integers of nanoseconds; \<^verbatim>\<open>usize\<close> has 64 bits.  Strings are lists of bytes in UTF-8.  A hash map is a list of pairs with one
  iteration order (\<open>hmap\<close>); nothing but iteration depends on it.  Clocks, random draws and new ids are arguments.

  \<^bold>\<open>Parameters.\<close>  Code that is not in the repository is an argument: SHA-256, JSON decoding, the JWT library, LiveKit's token
  signer, its webhook receiver and its room client, \<^verbatim>\<open>SocketAddr::from_str\<close>, Discord's REST interface
  (\<open>discord_api\<close>); on the desktop libwebrtc's buffers and libyuv (\<open>media\<close>, with the laws \<open>media_laws\<close>), the JPEG encoder, the
  answers of Windows (\<open>reader\<close>, \<open>graph_api\<close>, samples, packets, process lists) and those of LiveKit.  Where a theorem needs something of it (a signer that does not fail, renames that do what
  Discord documents when they are served), that is a hypothesis of the theorem and its witness instantiates it.

  \<^bold>\<open>What is proved.\<close>  Permissions follow Discord's layers bit by bit, and the guards admit exactly whom the replica
  admits, fail closed when it is stale, and hide what cannot be seen.  The guard goes stale with the last thing reported of the
  connection to Discord.  The webhook keeps one open session per room and publisher, and an open one for whoever is live but
  for a publication reported for another room than the person is in; leaving leaves nothing behind; the ledger never exceeds a ceiling and grants all or nothing.
  Refresh tokens and pairing codes work once, under any interleaving respectively any sequence of requests.  Resume
  replays exactly what was missed, the registry keeps its limit, fan-out reaches exactly the listed users.  What each
  Discord event evicts is stated exactly, the events that evict nobody included, and the mirror holds only served guilds.
  Tags fit, and are undone unless Discord fails a rename.  On the desktop no frame, sample or call leads to a panic or
  an access outside a buffer, every sample of an NV12, YUY2 or UYVY frame lands at its pixel and nothing else is written,
  a share that fails leaves exactly what is stated, the loops end when they are told to, the counters and the sound reported are true, and
  the connection is open exactly while something is on the air.  The last properties of the manifest state where the code does not do what its documents
  say; further theorems of that kind, named in the findings, stand beside the definitions they are about.

  \<^bold>\<open>Bounds and fuel.\<close>  No definition needs fuel but trimming, where the length of the string bounds the rounds, the exponent of a
  double, whose 1100 steps cover every double that is not subnormal, and the rotation, whose three statements are a proved
  bound (\<open>rot_rank\<close>).  Loops that wait for the world (members of a guild, capture, camera, events of a graph, packets) run over
  the list of answers they get; the listing of a camera's formats is a partial function that is proved to
  end.  Picture sides below \<open>2 ^ 30\<close> (\<open>turn_small\<close>, \<open>small_size\<close>) keep the casts to 32 bits exact.  Durations of the configuration are
  unbounded integers; a 64-bit overflow of a doubled heartbeat interval is not modelled.

  \<^bold>\<open>Not modelled.\<close>  Failures of the database connection; JSON and HTTP encoding; texts of log lines; timers (a job is one
  tick); the layers of the HTTP stack, the options of the pool, the intents of the Discord client.  \<^verbatim>\<open>domain/src/permissions.rs\<close> and
  \<^verbatim>\<open>db/src/repo/voice_states.rs\<close> are in no crate.  On the desktop: the calls of COM and WASAPI that set a device up (their
  answers are arguments), reference counts, the joining of threads, and the red dot of the tray icon, which is drawn
  in single precision.  The web client is TypeScript.
\<close>

end
